(* ===== verification/Prelude.thy ===== *)
theory Prelude
  imports Main "HOL-Library.Word"
begin

text \<open>
  Shared ground of the development: the machine types, memory objects as byte lists with
  the accesses the C code makes to them (a read of \<open>n\<close> bytes at an offset, a
  \<open>memcpy\<close>, \<open>memset\<close> or \<open>memmove\<close> to an offset), pointers into such objects, and
  the functions of \<^verbatim>\<open>string.h\<close> the program calls. A memory object keeps its length
  for ever: a write that would run past its end makes the list longer, so that the
  lemmas that say a length is unchanged say that no write leaves its object.
\<close>

unbundle bit_operations_syntax

section \<open>Machine types\<close>

type_synonym u8 = "8 word"
type_synonym u16 = "16 word"
type_synonym u32 = "32 word"
type_synonym u64 = "64 word"
type_synonym mem = "u8 list"

named_theorems mem_simps \<open>rewriting of reads over writes in memory objects\<close>
named_theorems cstr_simps \<open>rewriting of C string functions\<close>

text \<open>The bytes of a string literal, without its terminating zero.\<close>

definition ascii :: "string \<Rightarrow> u8 list" where
  "ascii s = map of_char s"

lemma length_ascii [simp]: "length (ascii s) = length s"
  by (simp add: ascii_def)

lemma unat_u8_less: "unat (x :: u8) < 256"
  using unsigned_less [of x, where 'a = nat] by simp

lemma unat_u16_less: "unat (x :: u16) < 65536"
  using unsigned_less [of x, where 'a = nat] by simp

lemma unat_u32_less: "unat (x :: u32) < 4294967296"
  using unsigned_less [of x, where 'a = nat] by simp

lemma unat_ucast_up:
  "LENGTH('a) \<le> LENGTH('b) \<Longrightarrow> unat (ucast (x :: 'a::len word) :: 'b::len word) = unat x"
  by (simp add: unsigned_ucast_eq take_bit_nat_eq_self_iff)
     (meson unsigned_less le_less_trans less_le_trans one_le_numeral power_increasing)

lemma unat_ucast_u8_u16 [simp]: "unat (ucast (x :: u8) :: u16) = unat x"
  by (rule unat_ucast_up) simp

lemma unat_ucast_u8_u32 [simp]: "unat (ucast (x :: u8) :: u32) = unat x"
  by (rule unat_ucast_up) simp

lemma unat_ucast_u16_u32 [simp]: "unat (ucast (x :: u16) :: u32) = unat x"
  by (rule unat_ucast_up) simp

lemma unat_of_nat_u8: "n < 256 \<Longrightarrow> unat (of_nat n :: u8) = n"
  by (simp add: unat_of_nat take_bit_nat_eq_self_iff)

lemma unat_of_nat_u16: "n < 65536 \<Longrightarrow> unat (of_nat n :: u16) = n"
  by (simp add: unat_of_nat take_bit_nat_eq_self_iff)

lemma unat_of_nat_u32: "n < 4294967296 \<Longrightarrow> unat (of_nat n :: u32) = n"
  by (simp add: unat_of_nat take_bit_nat_eq_self_iff)

lemma unat_add_u16: "unat (a :: u16) + unat b < 65536 \<Longrightarrow> unat (a + b) = unat a + unat b"
  by (simp add: unat_word_ariths)

text \<open>Equality and bounds of bytes, bit by bit.\<close>

lemma bit_u8_beyond [simp]: "8 \<le> n \<Longrightarrow> \<not> bit (w :: u8) n"
  by (auto dest: bit_imp_le_length)

lemma u8_eqI:
  assumes "bit x 0 = bit y 0" "bit x 1 = bit y 1" "bit x 2 = bit y 2" "bit x 3 = bit y 3"
    "bit x 4 = bit y 4" "bit x 5 = bit y 5" "bit x 6 = bit y 6" "bit x 7 = bit y 7"
  shows "x = (y :: u8)"
proof (rule bit_word_eqI)
  fix n
  assume "n < LENGTH(8)"
  then have "n = 0 \<or> n = 1 \<or> n = 2 \<or> n = 3 \<or> n = 4 \<or> n = 5 \<or> n = 6 \<or> n = 7" by auto
  then show "bit x n = bit y n" using assms by auto
qed

lemma unat_u8_less_64: "\<not> bit (w :: u8) 6 \<Longrightarrow> \<not> bit w 7 \<Longrightarrow> unat w < 64"
proof -
  assume b: "\<not> bit w 6" "\<not> bit w 7"
  have "take_bit 6 w = w"
    by (rule u8_eqI) (simp_all add: bit_take_bit_iff b)
  then have "take_bit 6 (unat w) = unat w"
    by (metis unsigned_take_bit_eq)
  then show ?thesis
    using take_bit_nat_less_exp [of 6 "unat w"] by simp
qed

lemma Suc_0_le_length_iff [simp]: "Suc 0 \<le> length xs \<longleftrightarrow> xs \<noteq> []"
  by (cases xs) auto

section \<open>Memory objects\<close>

definition mread :: "nat \<Rightarrow> nat \<Rightarrow> 'a list \<Rightarrow> 'a list" where
  "mread off n m = take n (drop off m)"

definition mwrite :: "nat \<Rightarrow> 'a list \<Rightarrow> 'a list \<Rightarrow> 'a list" where
  "mwrite off xs m = take off m @ xs @ drop (off + length xs) m"

definition memset :: "nat \<Rightarrow> 'a \<Rightarrow> nat \<Rightarrow> 'a list \<Rightarrow> 'a list" where
  "memset off v n m = mwrite off (replicate n v) m"

definition memmove :: "nat \<Rightarrow> nat \<Rightarrow> nat \<Rightarrow> 'a list \<Rightarrow> 'a list" where
  "memmove dst src n m = mwrite dst (mread src n m) m"

lemma length_mread [mem_simps]: "off + n \<le> length m \<Longrightarrow> length (mread off n m) = n"
  by (simp add: mread_def)

lemma length_mread_le: "length (mread off n m) \<le> n"
  by (simp add: mread_def)

lemma length_mwrite [mem_simps]:
  "off + length xs \<le> length m \<Longrightarrow> length (mwrite off xs m) = length m"
  by (simp add: mwrite_def)

lemma length_memset [mem_simps]:
  "off + n \<le> length m \<Longrightarrow> length (memset off v n m) = length m"
  by (simp add: memset_def length_mwrite)

lemma length_memmove [mem_simps]:
  "dst + n \<le> length m \<Longrightarrow> src + n \<le> length m \<Longrightarrow> length (memmove dst src n m) = length m"
  by (simp add: memmove_def length_mwrite length_mread)

lemma nth_mread [mem_simps]: "off + n \<le> length m \<Longrightarrow> i < n \<Longrightarrow> mread off n m ! i = m ! (off + i)"
  by (simp add: mread_def)

lemma nth_mwrite:
  "off + length xs \<le> length m \<Longrightarrow> i < length m \<Longrightarrow>
   mwrite off xs m ! i = (if off \<le> i \<and> i < off + length xs then xs ! (i - off) else m ! i)"
  by (auto simp: mwrite_def nth_append min_def)

lemma mread_mwrite_same [mem_simps]:
  "off + length xs \<le> length m \<Longrightarrow> n = length xs \<Longrightarrow> mread off n (mwrite off xs m) = xs"
  by (simp add: mread_def mwrite_def)

lemma mread_mwrite_before [mem_simps]:
  "off + n \<le> off' \<Longrightarrow> off' + length xs \<le> length m \<Longrightarrow> mread off n (mwrite off' xs m) = mread off n m"
  by (simp add: mread_def mwrite_def drop_take)

lemma mread_mwrite_after [mem_simps]:
  "off' + length xs \<le> off \<Longrightarrow> off' + length xs \<le> length m \<Longrightarrow> mread off n (mwrite off' xs m) = mread off n m"
  by (simp add: mread_def mwrite_def)

lemma mread_mread: "a + n \<le> k \<Longrightarrow> mread a n (mread off k m) = mread (off + a) n m"
  by (simp add: mread_def drop_take add.commute)

lemma mread_full [simp]: "mread 0 (length m) m = m"
  by (simp add: mread_def)

lemma mread_zero [simp]: "mread off 0 m = []"
  by (simp add: mread_def)

lemma mread_append_left: "off + n \<le> length xs \<Longrightarrow> mread off n (xs @ ys) = mread off n xs"
  by (simp add: mread_def)

lemma mread_append_exact: "off = length pre \<Longrightarrow> n = length xs \<Longrightarrow> mread off n (pre @ xs @ post) = xs"
  by (simp add: mread_def)

lemma mread_split:
  "off + n \<le> length m \<Longrightarrow> m = take off m @ mread off n m @ drop (off + n) m"
  by (simp add: mread_def) (metis append_take_drop_id drop_drop add.commute)

lemma mwrite_mwrite_adjacent:
  "off + length xs + length ys \<le> length m \<Longrightarrow> off' = off + length xs \<Longrightarrow>
   mwrite off' ys (mwrite off xs m) = mwrite off (xs @ ys) m"
  by (simp add: mwrite_def ac_simps)

lemma mwrite_Nil [simp]: "mwrite off [] m = m"
  by (simp add: mwrite_def)

text \<open>Two memories that agree outside the region \<open>[off, off + n)\<close>: the frame of a write.\<close>

definition same_outside :: "nat \<Rightarrow> nat \<Rightarrow> 'a list \<Rightarrow> 'a list \<Rightarrow> bool" where
  "same_outside off n m m' \<longleftrightarrow>
     length m' = length m \<and> (\<forall>i < length m. i < off \<or> off + n \<le> i \<longrightarrow> m' ! i = m ! i)"

lemma same_outside_refl [simp]: "same_outside off n m m"
  by (simp add: same_outside_def)

lemma same_outside_trans:
  "same_outside off n m m' \<Longrightarrow> same_outside off n m' m'' \<Longrightarrow> same_outside off n m m''"
  by (simp add: same_outside_def)

lemma same_outside_length: "same_outside off n m m' \<Longrightarrow> length m' = length m"
  by (simp add: same_outside_def)

lemma same_outside_weaken:
  "same_outside off n m m' \<Longrightarrow> off' \<le> off \<Longrightarrow> off + n \<le> off' + n' \<Longrightarrow> same_outside off' n' m m'"
  by (simp add: same_outside_def)

lemma same_outside_mwrite:
  "off \<le> o' \<Longrightarrow> o' + length xs \<le> off + n \<Longrightarrow> off + n \<le> length m \<Longrightarrow> same_outside off n m (mwrite o' xs m)"
  by (auto simp: same_outside_def nth_mwrite length_mwrite)

lemma same_outside_then_mwrite:
  assumes "same_outside off n m m'" and "off \<le> o'" "o' + length xs \<le> off + n" "off + n \<le> length m"
  shows "same_outside off n m (mwrite o' xs m')"
  using same_outside_trans [OF assms(1) same_outside_mwrite] assms same_outside_length [OF assms(1)] by simp

lemma same_outside_mread:
  assumes "same_outside off n m m'" and "o' + k \<le> off \<or> off + n \<le> o'" and "o' + k \<le> length m"
  shows "mread o' k m' = mread o' k m"
  using assms by (intro nth_equalityI) (auto simp: same_outside_def mread_def)

section \<open>Pointers\<close>

text \<open>
  A pointer is null or points at an offset of a memory object; \<open>ptr_bytes p n\<close> reads the
  \<open>n\<close> bytes from it.
\<close>

datatype cptr = NULL | Ptr mem nat

fun ptr_bytes :: "cptr \<Rightarrow> nat \<Rightarrow> u8 list" where
  "ptr_bytes NULL n = []"
| "ptr_bytes (Ptr m off) n = mread off n m"

fun ptr_add :: "cptr \<Rightarrow> nat \<Rightarrow> cptr" where
  "ptr_add NULL k = NULL"
| "ptr_add (Ptr m off) k = Ptr m (off + k)"

fun ptr_sub :: "cptr \<Rightarrow> nat \<Rightarrow> cptr" where
  "ptr_sub NULL k = NULL"
| "ptr_sub (Ptr m off) k = Ptr m (off - k)"

fun ptr_read :: "cptr \<Rightarrow> nat \<Rightarrow> u8" where
  "ptr_read NULL i = 0"
| "ptr_read (Ptr m off) i = m ! (off + i)"

text \<open>\<open>ptr_ok p n\<close>: the \<open>n\<close> bytes from \<open>p\<close> lie inside its object.\<close>

fun ptr_ok :: "cptr \<Rightarrow> nat \<Rightarrow> bool" where
  "ptr_ok NULL n = (n = 0)"
| "ptr_ok (Ptr m off) n = (off + n \<le> length m)"

lemma length_ptr_bytes: "ptr_ok p n \<Longrightarrow> length (ptr_bytes p n) = n"
  by (cases p) (auto simp: length_mread)

lemma ptr_bytes_zero [simp]: "ptr_bytes p 0 = []"
  by (cases p) auto

lemma ptr_read_nth: "ptr_ok p n \<Longrightarrow> i < n \<Longrightarrow> ptr_read p i = ptr_bytes p n ! i"
  by (cases p) (auto simp: nth_mread)

lemma ptr_bytes_add:
  "ptr_ok p n \<Longrightarrow> a + k \<le> n \<Longrightarrow> ptr_bytes (ptr_add p a) k = mread a k (ptr_bytes p n)"
  by (cases p) (auto simp: mread_mread)

lemma ptr_ok_add: "ptr_ok p n \<Longrightarrow> a + k \<le> n \<Longrightarrow> ptr_ok (ptr_add p a) k"
  by (cases p) auto

section \<open>Big-endian numbers\<close>

definition be_value :: "u8 list \<Rightarrow> nat" where
  "be_value xs = foldl (\<lambda>acc b. 256 * acc + unat b) 0 xs"

lemma foldl_be: "foldl (\<lambda>acc b. 256 * acc + unat (b :: u8)) k xs = k * 256 ^ length xs + be_value xs"
  unfolding be_value_def
proof (induction xs arbitrary: k)
  case (Cons x xs)
  show ?case
    by (subst (1 2) foldl_Cons, subst (1 2) Cons.IH) (simp add: algebra_simps)
qed simp

lemma be_value_Nil [simp]: "be_value [] = 0"
  by (simp add: be_value_def)

lemma be_value_Cons: "be_value (x # xs) = unat x * 256 ^ length xs + be_value xs"
  by (simp add: be_value_def foldl_be [of "unat x", unfolded be_value_def])

lemma be_value_append: "be_value (xs @ ys) = be_value xs * 256 ^ length ys + be_value ys"
  by (induction xs) (simp_all add: be_value_Cons power_add algebra_simps)

lemma be_value_zero [simp]: "be_value (0 # xs) = be_value xs"
  by (simp add: be_value_Cons)

lemma be_value_less: "be_value xs < 256 ^ length xs"
proof (induction xs)
  case (Cons x xs)
  have "unat x \<le> 255" using unat_u8_less [of x] by simp
  then have "unat x * 256 ^ length xs \<le> 255 * 256 ^ length xs" by (rule mult_le_mono1)
  with Cons have "unat x * 256 ^ length xs + be_value xs < 255 * 256 ^ length xs + 256 ^ length xs"
    by linarith
  then show ?case by (simp add: be_value_Cons)
qed simp

lemma be_value_dropWhile [simp]: "be_value (dropWhile (\<lambda>b. b = 0) xs) = be_value xs"
  by (induction xs) auto

section \<open>C strings\<close>

text \<open>
  The contents of a C string: the bytes before the first zero. A list with no zero is read
  as if a zero followed it.
\<close>

definition cstr :: "u8 list \<Rightarrow> u8 list" where
  "cstr xs = takeWhile (\<lambda>b. b \<noteq> 0) xs"

definition cstrlen :: "u8 list \<Rightarrow> nat" where
  "cstrlen xs = length (cstr xs)"

definition strnlen :: "u8 list \<Rightarrow> nat \<Rightarrow> nat" where
  "strnlen xs n = cstrlen (take n xs)"

text \<open>\<open>strlcpy dst src n\<close>: the new contents of \<open>dst\<close>.\<close>

definition strlcpy :: "mem \<Rightarrow> u8 list \<Rightarrow> nat \<Rightarrow> mem" where
  "strlcpy dst src n =
     (if n = 0 then dst else mwrite 0 (take (n - 1) (cstr src) @ [0]) dst)"

text \<open>\<open>strncpy dst src n\<close> writes exactly \<open>n\<close> bytes, padding with zeros.\<close>

definition strncpy :: "mem \<Rightarrow> u8 list \<Rightarrow> nat \<Rightarrow> mem" where
  "strncpy dst src n = mwrite 0 (take n (cstr src @ replicate n 0)) dst"

text \<open>\<open>strncat dst src n\<close> appends at most \<open>n\<close> bytes and a zero.\<close>

definition strncat :: "mem \<Rightarrow> u8 list \<Rightarrow> nat \<Rightarrow> mem" where
  "strncat dst src n = mwrite (cstrlen dst) (cstr (take n src) @ [0]) dst"

text \<open>\<open>strncmp a b n == 0\<close>.\<close>

fun strncmp_eq :: "u8 list \<Rightarrow> u8 list \<Rightarrow> nat \<Rightarrow> bool" where
  "strncmp_eq _ _ 0 = True"
| "strncmp_eq [] [] (Suc n) = True"
| "strncmp_eq [] (y # ys) (Suc n) = (y = 0)"
| "strncmp_eq (x # xs) [] (Suc n) = (x = 0)"
| "strncmp_eq (x # xs) (y # ys) (Suc n) = (x = y \<and> (x = 0 \<or> strncmp_eq xs ys n))"

lemma cstr_Nil [simp]: "cstr [] = []"
  and cstr_Cons [simp]: "cstr (x # xs) = (if x = 0 then [] else x # cstr xs)"
  by (simp_all add: cstr_def)

lemma cstr_no_zero: "0 \<notin> set (cstr xs)"
  by (auto simp: cstr_def dest: set_takeWhileD)

lemma cstr_id: "0 \<notin> set xs \<Longrightarrow> cstr xs = xs"
  by (auto simp: cstr_def)

lemma cstr_append_zero: "cstr (xs @ 0 # ys) = cstr xs"
  by (induction xs) auto

lemma cstr_cstr [simp]: "cstr (cstr xs) = cstr xs"
  by (simp add: cstr_id cstr_no_zero)

lemma cstr_append_no_zero: "0 \<notin> set xs \<Longrightarrow> cstr (xs @ ys) = xs @ cstr ys"
  by (induction xs) auto

lemma cstr_padded: "0 \<notin> set xs \<Longrightarrow> cstr (xs @ replicate n 0) = xs"
  by (cases n) (simp_all add: cstr_append_no_zero cstr_id)

lemma cstr_zeros [cstr_simps]: "cstr (replicate n 0) = []"
  using cstr_padded [of "[]"] by simp

lemma cstr_append_end: "0 \<in> set xs \<Longrightarrow> cstr (xs @ ys) = cstr xs"
  by (induction xs) auto

lemma zero_in_take_cstr: "length (cstr xs) < length xs \<Longrightarrow> 0 \<in> set xs"
  using cstr_id [of xs] by fastforce

lemma cstrlen_le: "cstrlen xs \<le> length xs"
  by (simp add: cstrlen_def cstr_def length_takeWhile_le)

lemma cstr_take_cstrlen: "take (cstrlen xs) xs = cstr xs"
  by (simp add: cstrlen_def cstr_def) (metis takeWhile_eq_take)

lemma cstrlen_less_iff: "cstrlen xs < length xs \<longleftrightarrow> 0 \<in> set xs"
  by (induction xs) (auto simp: cstrlen_def)

lemma strncmp_eq_cstr: "strncmp_eq a b n \<longleftrightarrow> take n (cstr a) = take n (cstr b)"
  by (induction a b n rule: strncmp_eq.induct) (auto simp: take_Cons')

end
