(* ===== verification/Commands.thy ===== *)
theory Commands
  imports Prelude
begin

text \<open>
  The wire vocabulary of the application: \<^verbatim>\<open>commands.h\<close>, \<^verbatim>\<open>states.h\<close>,
  \<^verbatim>\<open>swap_errors.h\<close>, \<^verbatim>\<open>apdu_offsets.h\<close> and the constants of \<^verbatim>\<open>globals.h\<close>. Each C enum
  is a datatype with the source's enumerators and a function that gives an enumerator's
  value; a byte that is compared against the enumerators is read with the inverse
  function, whose \<open>None\<close> stands for "none of them".
\<close>

section \<open>APDU layout\<close>

definition CLA :: u8 where "CLA = 0xE0"
definition OFFSET_CLA :: nat where "OFFSET_CLA = 0"
definition OFFSET_INS :: nat where "OFFSET_INS = 1"
definition OFFSET_P1 :: nat where "OFFSET_P1 = 2"
definition OFFSET_P2 :: nat where "OFFSET_P2 = 3"
definition OFFSET_LC :: nat where "OFFSET_LC = 4"
definition OFFSET_CDATA :: nat where "OFFSET_CDATA = 5"

lemmas offset_defs =
  OFFSET_CLA_def OFFSET_INS_def OFFSET_P1_def OFFSET_P2_def OFFSET_LC_def OFFSET_CDATA_def

definition SUBCOMMAND_MASK :: u8 where "SUBCOMMAND_MASK = 0x0F"
definition P2_NONE :: u8 where "P2_NONE = push_bit 4 0x00"
definition P2_EXTEND :: u8 where "P2_EXTEND = push_bit 4 0x01"
definition P2_MORE :: u8 where "P2_MORE = push_bit 4 0x02"
definition EXTENSION_MASK :: u8 where "EXTENSION_MASK = 0xF0"

lemmas p2_defs =
  SUBCOMMAND_MASK_def P2_NONE_def P2_EXTEND_def P2_MORE_def EXTENSION_MASK_def

section \<open>Instructions\<close>

text \<open>
  \<open>CHECK_ASSET_IN_LEGACY_AND_DISPLAY\<close> has the value of \<open>CHECK_PAYOUT_ADDRESS\<close>: the two
  names are one enumerator of C, and one constructor here.
\<close>

datatype command_e =
    GET_VERSION_COMMAND
  | START_NEW_TRANSACTION_COMMAND
  | SET_PARTNER_KEY_COMMAND
  | CHECK_PARTNER_COMMAND
  | PROCESS_TRANSACTION_RESPONSE_COMMAND
  | CHECK_TRANSACTION_SIGNATURE_COMMAND
  | GET_CHALLENGE
  | SEND_TRUSTED_NAME_DESCRIPTOR
  | CHECK_PAYOUT_ADDRESS
  | CHECK_ASSET_IN_AND_DISPLAY
  | CHECK_ASSET_IN_NO_DISPLAY
  | CHECK_REFUND_ADDRESS_AND_DISPLAY
  | CHECK_REFUND_ADDRESS_NO_DISPLAY
  | PROMPT_UI_DISPLAY
  | START_SIGNING_TRANSACTION

abbreviation CHECK_ASSET_IN_LEGACY_AND_DISPLAY :: command_e where
  "CHECK_ASSET_IN_LEGACY_AND_DISPLAY \<equiv> CHECK_PAYOUT_ADDRESS"

fun ins_value :: "command_e \<Rightarrow> u8" where
  "ins_value GET_VERSION_COMMAND = 0x02"
| "ins_value START_NEW_TRANSACTION_COMMAND = 0x03"
| "ins_value SET_PARTNER_KEY_COMMAND = 0x04"
| "ins_value CHECK_PARTNER_COMMAND = 0x05"
| "ins_value PROCESS_TRANSACTION_RESPONSE_COMMAND = 0x06"
| "ins_value CHECK_TRANSACTION_SIGNATURE_COMMAND = 0x07"
| "ins_value GET_CHALLENGE = 0x10"
| "ins_value SEND_TRUSTED_NAME_DESCRIPTOR = 0x11"
| "ins_value CHECK_PAYOUT_ADDRESS = 0x08"
| "ins_value CHECK_ASSET_IN_AND_DISPLAY = 0x0B"
| "ins_value CHECK_ASSET_IN_NO_DISPLAY = 0x0D"
| "ins_value CHECK_REFUND_ADDRESS_AND_DISPLAY = 0x09"
| "ins_value CHECK_REFUND_ADDRESS_NO_DISPLAY = 0x0C"
| "ins_value PROMPT_UI_DISPLAY = 0x0F"
| "ins_value START_SIGNING_TRANSACTION = 0x0A"

definition all_commands :: "command_e list" where
  "all_commands =
     [GET_VERSION_COMMAND, START_NEW_TRANSACTION_COMMAND, SET_PARTNER_KEY_COMMAND,
      CHECK_PARTNER_COMMAND, PROCESS_TRANSACTION_RESPONSE_COMMAND,
      CHECK_TRANSACTION_SIGNATURE_COMMAND, GET_CHALLENGE, SEND_TRUSTED_NAME_DESCRIPTOR,
      CHECK_PAYOUT_ADDRESS, CHECK_ASSET_IN_AND_DISPLAY, CHECK_ASSET_IN_NO_DISPLAY,
      CHECK_REFUND_ADDRESS_AND_DISPLAY, CHECK_REFUND_ADDRESS_NO_DISPLAY,
      PROMPT_UI_DISPLAY, START_SIGNING_TRANSACTION]"

definition ins_of_byte :: "u8 \<Rightarrow> command_e option" where
  "ins_of_byte b = find (\<lambda>i. ins_value i = b) all_commands"

lemma set_all_commands: "i \<in> set all_commands"
  by (cases i) (simp_all add: all_commands_def)

lemma ins_value_inject: "ins_value i = ins_value j \<longleftrightarrow> i = j"
  by (cases i; cases j) simp_all

lemma ins_of_byte_value [simp]: "ins_of_byte (ins_value i) = Some i"
  by (cases i) (simp_all add: ins_of_byte_def all_commands_def)

lemma ins_of_byte_Some: "ins_of_byte b = Some i \<longleftrightarrow> b = ins_value i"
proof
  assume "ins_of_byte b = Some i"
  then show "b = ins_value i"
    by (auto simp: ins_of_byte_def find_Some_iff)
qed simp

section \<open>Rates and flows\<close>

datatype rate_e = FIXED | FLOATING

fun rate_value :: "rate_e \<Rightarrow> u8" where
  "rate_value FIXED = 0x00"
| "rate_value FLOATING = 0x01"

definition rate_of_byte :: "u8 \<Rightarrow> rate_e option" where
  "rate_of_byte b = find (\<lambda>r. rate_value r = b) [FIXED, FLOATING]"

datatype subcommand_e = SWAP | SELL | FUND | SWAP_NG | SELL_NG | FUND_NG

fun subcommand_value :: "subcommand_e \<Rightarrow> u8" where
  "subcommand_value SWAP = 0x00"
| "subcommand_value SELL = 0x01"
| "subcommand_value FUND = 0x02"
| "subcommand_value SWAP_NG = 0x03"
| "subcommand_value SELL_NG = 0x04"
| "subcommand_value FUND_NG = 0x05"

definition subcommand_of_byte :: "u8 \<Rightarrow> subcommand_e option" where
  "subcommand_of_byte b =
     find (\<lambda>s. subcommand_value s = b) [SWAP, SELL, FUND, SWAP_NG, SELL_NG, FUND_NG]"

lemma rate_of_byte_value [simp]: "rate_of_byte (rate_value r) = Some r"
  by (cases r) (simp_all add: rate_of_byte_def)

lemma subcommand_of_byte_value [simp]: "subcommand_of_byte (subcommand_value s) = Some s"
  by (cases s) (simp_all add: subcommand_of_byte_def)

lemma subcommand_of_byte_Some: "subcommand_of_byte b = Some s \<longleftrightarrow> b = subcommand_value s"
proof
  assume "subcommand_of_byte b = Some s"
  then show "b = subcommand_value s"
    by (auto simp: subcommand_of_byte_def split: if_splits)
qed simp

lemma rate_of_byte_Some: "rate_of_byte b = Some r \<longleftrightarrow> b = rate_value r"
proof
  assume "rate_of_byte b = Some r"
  then show "b = rate_value r"
    by (auto simp: rate_of_byte_def split: if_splits)
qed simp

text \<open>The three families of flows and the unified ("NG") generation.\<close>

abbreviation swap_based :: "subcommand_e \<Rightarrow> bool" where
  "swap_based s \<equiv> s = SWAP \<or> s = SWAP_NG"

abbreviation sell_based :: "subcommand_e \<Rightarrow> bool" where
  "sell_based s \<equiv> s = SELL \<or> s = SELL_NG"

abbreviation fund_based :: "subcommand_e \<Rightarrow> bool" where
  "fund_based s \<equiv> s = FUND \<or> s = FUND_NG"

abbreviation unified_flow :: "subcommand_e \<Rightarrow> bool" where
  "unified_flow s \<equiv> s = SWAP_NG \<or> s = SELL_NG \<or> s = FUND_NG"

section \<open>States of the swap state machine\<close>

datatype state_e =
    INITIAL_STATE
  | WAITING_TRANSACTION
  | PROVIDER_SET
  | PROVIDER_CHECKED
  | TRANSACTION_RECEIVED
  | SIGNATURE_CHECKED
  | PAYOUT_ADDRESS_CHECKED
  | ALL_ADDRESSES_CHECKED
  | WAITING_USER_VALIDATION
  | WAITING_SIGNING
  | SIGN_FINISHED

text \<open>The enumerators are numbered in order, and compared by their numbers.\<close>

fun state_value :: "state_e \<Rightarrow> nat" where
  "state_value INITIAL_STATE = 0"
| "state_value WAITING_TRANSACTION = 1"
| "state_value PROVIDER_SET = 2"
| "state_value PROVIDER_CHECKED = 3"
| "state_value TRANSACTION_RECEIVED = 4"
| "state_value SIGNATURE_CHECKED = 5"
| "state_value PAYOUT_ADDRESS_CHECKED = 6"
| "state_value ALL_ADDRESSES_CHECKED = 7"
| "state_value WAITING_USER_VALIDATION = 8"
| "state_value WAITING_SIGNING = 9"
| "state_value SIGN_FINISHED = 10"

lemma state_value_inject: "state_value s = state_value t \<longleftrightarrow> s = t"
  by (cases s; cases t) simp_all

instantiation state_e :: linorder
begin

definition less_eq_state_e :: "state_e \<Rightarrow> state_e \<Rightarrow> bool" where
  "less_eq_state_e s t \<longleftrightarrow> state_value s \<le> state_value t"

definition less_state_e :: "state_e \<Rightarrow> state_e \<Rightarrow> bool" where
  "less_state_e s t \<longleftrightarrow> state_value s < state_value t"

instance
  by standard
    (auto simp: less_eq_state_e_def less_state_e_def state_value_inject
          dest: state_value_inject [THEN iffD1, OF order.antisym])

end

section \<open>Status words\<close>

datatype swap_error_e =
    INCORRECT_COMMAND_DATA
  | DESERIALIZATION_FAILED
  | WRONG_TRANSACTION_ID
  | INVALID_ADDRESS
  | USER_REFUSED_TRANSACTION
  | INTERNAL_ERROR
  | WRONG_P1
  | WRONG_P2_SUBCOMMAND
  | WRONG_P2_EXTENSION
  | INVALID_P2_EXTENSION
  | MEMORY_CORRUPTION
  | AMOUNT_FORMATTING_FAILED
  | APPLICATION_NOT_INSTALLED
  | WRONG_EXTRA_ID_OR_EXTRA_DATA
  | WRONG_TLV_CHALLENGE
  | WRONG_TLV_CONTENT
  | MISSING_TLV_CONTENT
  | WRONG_TRUSTED_NAME_TLV
  | USER_REFUSED_CROSS_SEED
  | CLASS_NOT_SUPPORTED
  | MALFORMED_APDU
  | INVALID_DATA_LENGTH
  | INVALID_INSTRUCTION
  | UNEXPECTED_INSTRUCTION
  | DESCRIPTOR_NOT_USED
  | SIGN_VERIFICATION_FAIL
  | SUCCESS

fun status_word :: "swap_error_e \<Rightarrow> u16" where
  "status_word INCORRECT_COMMAND_DATA = 0x6A80"
| "status_word DESERIALIZATION_FAILED = 0x6A81"
| "status_word WRONG_TRANSACTION_ID = 0x6A82"
| "status_word INVALID_ADDRESS = 0x6A83"
| "status_word USER_REFUSED_TRANSACTION = 0x6A84"
| "status_word INTERNAL_ERROR = 0x6A85"
| "status_word WRONG_P1 = 0x6A86"
| "status_word WRONG_P2_SUBCOMMAND = 0x6A87"
| "status_word WRONG_P2_EXTENSION = 0x6A88"
| "status_word INVALID_P2_EXTENSION = 0x6A89"
| "status_word MEMORY_CORRUPTION = 0x6A8A"
| "status_word AMOUNT_FORMATTING_FAILED = 0x6A8B"
| "status_word APPLICATION_NOT_INSTALLED = 0x6A8C"
| "status_word WRONG_EXTRA_ID_OR_EXTRA_DATA = 0x6A8D"
| "status_word WRONG_TLV_CHALLENGE = 0x6A8E"
| "status_word WRONG_TLV_CONTENT = 0x6A8F"
| "status_word MISSING_TLV_CONTENT = 0x6A90"
| "status_word WRONG_TRUSTED_NAME_TLV = 0x6A91"
| "status_word USER_REFUSED_CROSS_SEED = 0x6A92"
| "status_word CLASS_NOT_SUPPORTED = 0x6E00"
| "status_word MALFORMED_APDU = 0x6E01"
| "status_word INVALID_DATA_LENGTH = 0x6E02"
| "status_word INVALID_INSTRUCTION = 0x6D00"
| "status_word UNEXPECTED_INSTRUCTION = 0x6D01"
| "status_word DESCRIPTOR_NOT_USED = 0x6D02"
| "status_word SIGN_VERIFICATION_FAIL = 0x9D1A"
| "status_word SUCCESS = 0x9000"

section \<open>Commands handed to the handlers\<close>

text \<open>
  The data of a command is either in the APDU reception buffer or, after a split
  reception, in the \<open>raw_transaction\<close> member of the swap context.
\<close>

datatype data_ptr = In_apdu_buffer mem | In_raw_transaction

record command_t =
  cmd_ins :: command_e
  cmd_rate :: rate_e
  cmd_subcommand :: subcommand_e
  cmd_data :: data_ptr
  cmd_data_size :: u16

section \<open>Sizes and selectors of \<^verbatim>\<open>globals.h\<close>\<close>

definition CURVE_SIZE_BYTES :: nat where "CURVE_SIZE_BYTES = 32"
definition UNCOMPRESSED_KEY_LENGTH :: nat where "UNCOMPRESSED_KEY_LENGTH = 65"
definition MIN_DER_SIGNATURE_LENGTH :: nat where "MIN_DER_SIGNATURE_LENGTH = 67"
definition MAX_DER_SIGNATURE_LENGTH :: nat where "MAX_DER_SIGNATURE_LENGTH = 73"
definition CURVE_SECP256K1 :: u8 where "CURVE_SECP256K1 = 0x00"
definition CURVE_SECP256R1 :: u8 where "CURVE_SECP256R1 = 0x01"
definition ENCODING_BYTES_ARRAY :: u8 where "ENCODING_BYTES_ARRAY = 0x00"
definition ENCODING_BASE_64_URL :: u8 where "ENCODING_BASE_64_URL = 0x01"
definition DER_FORMAT_SIGNATURE :: u8 where "DER_FORMAT_SIGNATURE = 0x00"
definition R_S_FORMAT_SIGNATURE :: u8 where "R_S_FORMAT_SIGNATURE = 0x01"
definition SIGNATURE_COMPUTED_ON_TX :: u8 where "SIGNATURE_COMPUTED_ON_TX = 0x00"
definition SIGNATURE_COMPUTED_ON_DOT_PREFIXED_TX :: u8 where
  "SIGNATURE_COMPUTED_ON_DOT_PREFIXED_TX = 0x01"
definition TICKER_MIN_SIZE_B :: nat where "TICKER_MIN_SIZE_B = 1"
definition TICKER_MAX_SIZE_B :: nat where "TICKER_MAX_SIZE_B = 9"
definition APPNAME_MIN_SIZE_B :: nat where "APPNAME_MIN_SIZE_B = 3"
definition BOLOS_APPNAME_MAX_SIZE_B :: nat where
  \<comment> \<open>an SDK constant; \<^verbatim>\<open>checks.h\<close> records its value\<close>
  "BOLOS_APPNAME_MAX_SIZE_B = 32"
definition MAX_COIN_SUB_CONFIG_SIZE :: nat where "MAX_COIN_SUB_CONFIG_SIZE = 64"
definition MIN_PARTNER_NAME_LENGHT :: nat where "MIN_PARTNER_NAME_LENGHT = 3"
definition MAX_PARTNER_NAME_LENGHT :: nat where "MAX_PARTNER_NAME_LENGHT = 15"
definition RAW_TRANSACTION_SIZE :: nat where "RAW_TRANSACTION_SIZE = 256 * 2"
definition PARTNER_NAME_PREFIX_FOR_FUND :: "u8 list" where
  "PARTNER_NAME_PREFIX_FOR_FUND = ascii ''To ''"

lemmas size_defs =
  CURVE_SIZE_BYTES_def UNCOMPRESSED_KEY_LENGTH_def MIN_DER_SIGNATURE_LENGTH_def
  MAX_DER_SIGNATURE_LENGTH_def TICKER_MIN_SIZE_B_def TICKER_MAX_SIZE_B_def
  APPNAME_MIN_SIZE_B_def BOLOS_APPNAME_MAX_SIZE_B_def MAX_COIN_SUB_CONFIG_SIZE_def
  MIN_PARTNER_NAME_LENGHT_def MAX_PARTNER_NAME_LENGHT_def RAW_TRANSACTION_SIZE_def

lemmas selector_defs =
  CURVE_SECP256K1_def CURVE_SECP256R1_def ENCODING_BYTES_ARRAY_def ENCODING_BASE_64_URL_def
  DER_FORMAT_SIGNATURE_def R_S_FORMAT_SIGNATURE_def SIGNATURE_COMPUTED_ON_TX_def
  SIGNATURE_COMPUTED_ON_DOT_PREFIXED_TX_def

end
