(* ===== verification/Buf.thy ===== *)
theory Buf
  imports Prelude
begin

text \<open>
  \<^verbatim>\<open>src/buf.c\<close>: the two readers every message parser is built from. \<open>buf_t\<close> is the C
  struct: a pointer into the input and a 16-bit size. A reader returns \<open>None\<close> where the C
  function returns \<open>false\<close>, and otherwise what it stored in its two out-parameters: the
  value read and the advanced offset.

  The locale \<open>wire_field\<close> is the contract of such a reader: it computes, with a pointer
  and 16-bit offsets, what a list-level reader \<open>rd\<close> computes on the bytes that are left,
  and \<open>rd\<close> accepts exactly the encodings \<open>enc x\<close>. The three readers in use are
  interpretations of it.
\<close>

record buf_t =
  bptr :: cptr
  bsize :: u16

definition buf_bytes :: "buf_t \<Rightarrow> u8 list" where
  "buf_bytes b = ptr_bytes (bptr b) (unat (bsize b))"

definition buf_ok :: "buf_t \<Rightarrow> bool" where
  "buf_ok b = ptr_ok (bptr b) (unat (bsize b))"

lemma length_buf_bytes: "buf_ok b \<Longrightarrow> length (buf_bytes b) = unat (bsize b)"
  by (simp add: buf_ok_def buf_bytes_def length_ptr_bytes)

section \<open>The readers\<close>

text \<open>\<open>U2BE\<close> of the SDK: two bytes, big endian.\<close>

definition u2be :: "u8 \<Rightarrow> u8 \<Rightarrow> u16" where
  "u2be hi lo = push_bit 8 (ucast hi) OR ucast lo"

definition parse_to_sized_buffer ::
    "cptr \<Rightarrow> u16 \<Rightarrow> u8 \<Rightarrow> u16 \<Rightarrow> (buf_t \<times> u16) option" where
  "parse_to_sized_buffer in_buffer in_size size_of_length_field offset =
     (if unat offset + unat size_of_length_field > unat in_size then None
      else
        let out_size =
          (if size_of_length_field = 1 then Some (ucast (ptr_read in_buffer (unat offset)))
           else if size_of_length_field = 2
             then Some (u2be (ptr_read in_buffer (unat offset)) (ptr_read in_buffer (unat offset + 1)))
           else None)
        in case out_size of
             None \<Rightarrow> None
           | Some sz \<Rightarrow>
               let offset' = offset + ucast size_of_length_field in
               if (ucast offset' :: u32) + ucast sz > ucast in_size then None
               else Some
                 (\<lparr>bptr = (if sz \<noteq> 0 then ptr_add in_buffer (unat offset') else NULL), bsize = sz\<rparr>,
                  offset' + sz))"

definition pop_uint8_from_buffer :: "cptr \<Rightarrow> u16 \<Rightarrow> u16 \<Rightarrow> (u8 \<times> u16) option" where
  "pop_uint8_from_buffer in_buffer in_size offset =
     (if unat offset + 1 > unat in_size then None
      else Some (ptr_read in_buffer (unat offset), offset + 1))"

section \<open>The list-level readers and the encodings they accept\<close>

fun rd_byte :: "u8 list \<Rightarrow> (u8 \<times> u8 list) option" where
  "rd_byte [] = None"
| "rd_byte (b # xs) = Some (b, xs)"

definition rd_block :: "nat \<Rightarrow> u8 list \<Rightarrow> (u8 list \<times> u8 list) option" where
  "rd_block n xs = (if n \<le> length xs then Some (take n xs, drop n xs) else None)"

fun rd_sized1 :: "u8 list \<Rightarrow> (u8 list \<times> u8 list) option" where
  "rd_sized1 (n # xs) = rd_block (unat n) xs"
| "rd_sized1 _ = None"

fun rd_sized2 :: "u8 list \<Rightarrow> (u8 list \<times> u8 list) option" where
  "rd_sized2 (hi # lo # xs) = rd_block (unat (u2be hi lo)) xs"
| "rd_sized2 _ = None"

definition enc_sized1 :: "u8 list \<Rightarrow> u8 list" where
  "enc_sized1 xs = of_nat (length xs) # xs"

definition enc_sized2 :: "u8 list \<Rightarrow> u8 list" where
  "enc_sized2 xs = [of_nat (length xs div 256), of_nat (length xs mod 256)] @ xs"

lemma unat_u2be: "unat (u2be hi lo) = 256 * unat hi + unat lo"
proof -
  have "u2be hi lo = push_bit 8 (ucast hi) + ucast lo"
    unfolding u2be_def
    by (rule disjunctive_add [symmetric])
       (auto simp: bit_push_bit_iff bit_ucast_iff dest: bit_imp_le_length)
  also have "unat \<dots> = 256 * unat hi + unat lo"
    using unat_u8_less [of hi] unat_u8_less [of lo]
    by (simp add: unat_word_ariths push_bit_eq_mult)
  finally show ?thesis .
qed

lemma rd_block_append [simp]: "n = length xs \<Longrightarrow> rd_block n (xs @ ys) = Some (xs, ys)"
  by (simp add: rd_block_def)

lemma rd_block_Some:
  "rd_block n xs = Some (x, ys) \<longleftrightarrow> length x = n \<and> xs = x @ ys"
  by (auto simp: rd_block_def)

lemma rd_sized1_enc: "length x < 256 \<Longrightarrow> rd_sized1 (enc_sized1 x @ ys) = Some (x, ys)"
  by (simp add: enc_sized1_def unat_of_nat_u8)

lemma rd_sized1_inv:
  "rd_sized1 xs = Some (x, ys) \<Longrightarrow> length x < 256 \<and> xs = enc_sized1 x @ ys"
  by (cases xs) (auto simp: enc_sized1_def rd_block_Some unat_u8_less)

lemma rd_sized2_enc: "length x < 65536 \<Longrightarrow> rd_sized2 (enc_sized2 x @ ys) = Some (x, ys)"
  by (simp add: enc_sized2_def unat_u2be unat_of_nat_u8)

lemma rd_sized2_inv:
  assumes "rd_sized2 xs = Some (x, ys)"
  shows "length x < 65536 \<and> xs = enc_sized2 x @ ys"
proof -
  from assms obtain hi lo where xs: "xs = hi # lo # x @ ys"
    and len: "length x = 256 * unat hi + unat lo"
    by (cases xs rule: rd_sized2.cases) (auto simp: rd_block_Some unat_u2be)
  have "length x div 256 = unat hi" "length x mod 256 = unat lo"
    using len unat_u8_less [of lo] by simp_all
  with xs len unat_u8_less [of hi] unat_u8_less [of lo] show ?thesis
    by (simp add: enc_sized2_def)
qed

section \<open>The contract of a reader\<close>

locale wire_field =
  fixes wf :: "'a \<Rightarrow> bool"
    and enc :: "'a \<Rightarrow> u8 list"
    and rd :: "u8 list \<Rightarrow> ('a \<times> u8 list) option"
    and dec :: "cptr \<Rightarrow> u16 \<Rightarrow> u16 \<Rightarrow> ('b \<times> u16) option"
    and view :: "'b \<Rightarrow> 'a"
    and valid :: "'b \<Rightarrow> bool"
  assumes rd_enc: "wf x \<Longrightarrow> rd (enc x @ ys) = Some (x, ys)"
    and rd_inv: "rd xs = Some (x, ys) \<Longrightarrow> wf x \<and> xs = enc x @ ys"
    and dec_None: "ptr_ok p (unat n) \<Longrightarrow> unat off \<le> unat n \<Longrightarrow> dec p n off = None \<Longrightarrow>
      rd (drop (unat off) (ptr_bytes p (unat n))) = None"
    and dec_Some: "ptr_ok p (unat n) \<Longrightarrow> unat off \<le> unat n \<Longrightarrow> dec p n off = Some (b, off') \<Longrightarrow>
      unat off' \<le> unat n \<and> valid b \<and>
      rd (drop (unat off) (ptr_bytes p (unat n))) = Some (view b, drop (unat off') (ptr_bytes p (unat n)))"
begin

lemma dec_sound:
  assumes "ptr_ok p (unat n)" and "unat off \<le> unat n" and "dec p n off = Some (b, off')"
  shows "wf (view b)"
    and "drop (unat off) (ptr_bytes p (unat n)) =
         enc (view b) @ drop (unat off') (ptr_bytes p (unat n))"
    and "unat off' = unat off + length (enc (view b))"
    and "unat off' \<le> unat n"
    and "valid b"
proof -
  let ?w = "ptr_bytes p (unat n)"
  from dec_Some [OF assms] have off': "unat off' \<le> unat n" and b: "valid b"
    and rd: "rd (drop (unat off) ?w) = Some (view b, drop (unat off') ?w)"
    by auto
  from rd_inv [OF rd] show wf: "wf (view b)"
    and eq: "drop (unat off) ?w = enc (view b) @ drop (unat off') ?w"
    by auto
  from arg_cong [OF eq, of length] off' assms(1,2)
  show "unat off' = unat off + length (enc (view b))"
    by (simp add: length_ptr_bytes)
  show "unat off' \<le> unat n" by (rule off')
  show "valid b" by (rule b)
qed

lemma dec_complete:
  assumes "ptr_ok p (unat n)" and "unat off \<le> unat n" and "wf x"
    and "drop (unat off) (ptr_bytes p (unat n)) = enc x @ ys"
  shows "\<exists>b off'. dec p n off = Some (b, off') \<and> view b = x \<and>
           unat off' = unat off + length (enc x)"
proof (cases "dec p n off")
  case None
  with assms dec_None [OF assms(1,2)] rd_enc [OF assms(3)] show ?thesis by simp
next
  case (Some r)
  obtain b off' where r: "r = (b, off')" by fastforce
  with Some have dec: "dec p n off = Some (b, off')" by simp
  from dec_Some [OF assms(1,2) dec] rd_enc [OF assms(3), of ys] assms(4)
  have "view b = x" by simp
  with dec dec_sound(3) [OF assms(1,2) dec] show ?thesis by auto
qed

text \<open>The reader fails exactly where no encoding starts.\<close>

lemma dec_None_iff:
  assumes "ptr_ok p (unat n)" and "unat off \<le> unat n"
  shows "dec p n off = None \<longleftrightarrow>
    \<not> (\<exists>x ys. wf x \<and> drop (unat off) (ptr_bytes p (unat n)) = enc x @ ys)"
  using dec_sound(1,2) [OF assms] dec_complete [OF assms]
  by (cases "dec p n off") fastforce+

end

section \<open>The readers satisfy the contract\<close>

lemma drop_ptr_bytes_read:
  "ptr_ok p n \<Longrightarrow> i < n \<Longrightarrow> drop i (ptr_bytes p n) = ptr_read p i # drop (Suc i) (ptr_bytes p n)"
  by (simp add: ptr_read_nth length_ptr_bytes Cons_nth_drop_Suc)

lemma pop_uint8_refines:
  assumes "ptr_ok p (unat n)" and "unat off \<le> unat n"
  shows "case pop_uint8_from_buffer p n off of
      None \<Rightarrow> rd_byte (drop (unat off) (ptr_bytes p (unat n))) = None
    | Some (b, off') \<Rightarrow> unat off' \<le> unat n \<and>
        rd_byte (drop (unat off) (ptr_bytes p (unat n))) =
          Some (b, drop (unat off') (ptr_bytes p (unat n)))"
proof (cases "unat off + 1 > unat n")
  case True
  with assms have "unat off = unat n" by simp
  with True show ?thesis
    by (simp add: pop_uint8_from_buffer_def length_ptr_bytes [OF assms(1)])
next
  case False
  have "unat (off + 1) = Suc (unat off)"
    using False unat_u16_less [of n] by (subst unat_add_u16) auto
  with False show ?thesis
    by (simp add: pop_uint8_from_buffer_def drop_ptr_bytes_read [OF assms(1)])
qed

interpretation byte_field: wire_field "\<lambda>_. True" "\<lambda>b. [b]" rd_byte
    pop_uint8_from_buffer "\<lambda>b. b" "\<lambda>_. True"
proof unfold_locales
  fix xs :: "u8 list" and x ys
  assume "rd_byte xs = Some (x, ys)"
  then show "True \<and> xs = [x] @ ys" by (cases xs) auto
next
  fix p n off
  assume "ptr_ok p (unat n)" "unat off \<le> unat n" "pop_uint8_from_buffer p n off = None"
  then show "rd_byte (drop (unat off) (ptr_bytes p (unat n))) = None"
    using pop_uint8_refines [of p n off] by simp
next
  fix p n off b off'
  assume "ptr_ok p (unat n)" "unat off \<le> unat n" "pop_uint8_from_buffer p n off = Some (b, off')"
  then show "unat off' \<le> unat n \<and> True \<and>
      rd_byte (drop (unat off) (ptr_bytes p (unat n))) =
        Some (b, drop (unat off') (ptr_bytes p (unat n)))"
    using pop_uint8_refines [of p n off] by simp
qed simp

text \<open>
  The part shared by the two widths of the length field: once \<open>sz\<close> is read and the offset
  is past it, the rest of the function is \<open>rd_block\<close>.
\<close>

definition take_buffer :: "cptr \<Rightarrow> u16 \<Rightarrow> u16 \<Rightarrow> u16 \<Rightarrow> (buf_t \<times> u16) option" where
  "take_buffer p n sz off =
     (if (ucast off :: u32) + ucast sz > ucast n then None
      else Some (\<lparr>bptr = (if sz \<noteq> 0 then ptr_add p (unat off) else NULL), bsize = sz\<rparr>, off + sz))"

lemma u32_sum_exceeds:
  "(ucast (a :: u16) :: u32) + ucast (b :: u16) > ucast (c :: u16) \<longleftrightarrow> unat a + unat b > unat c"
proof -
  have "unat ((ucast a :: u32) + ucast b) = unat a + unat b"
    using unat_u16_less [of a] unat_u16_less [of b] by (simp add: unat_word_ariths)
  then show ?thesis by (simp add: word_less_nat_alt)
qed

lemma take_buffer_refines:
  assumes "ptr_ok p (unat n)" and "unat off \<le> unat n"
  shows "case take_buffer p n sz off of
      None \<Rightarrow> rd_block (unat sz) (drop (unat off) (ptr_bytes p (unat n))) = None
    | Some (b, off') \<Rightarrow> unat off' \<le> unat n \<and> buf_ok b \<and>
        rd_block (unat sz) (drop (unat off) (ptr_bytes p (unat n))) =
          Some (buf_bytes b, drop (unat off') (ptr_bytes p (unat n)))"
proof (cases "unat off + unat sz > unat n")
  case True
  then show ?thesis
    by (simp add: take_buffer_def u32_sum_exceeds rd_block_def length_ptr_bytes [OF assms(1)])
       (use assms(2) True in linarith)
next
  case False
  then have off': "unat (off + sz) = unat off + unat sz"
    using unat_u16_less [of n] by (subst unat_add_u16) auto
  from False assms(1) have "ptr_bytes (ptr_add p (unat off)) (unat sz) =
      take (unat sz) (drop (unat off) (ptr_bytes p (unat n)))"
    by (simp add: ptr_bytes_add mread_def)
  moreover from False assms(1) have "ptr_ok (ptr_add p (unat off)) (unat sz)"
    by (simp add: ptr_ok_add)
  ultimately show ?thesis using False
    by (auto simp: take_buffer_def u32_sum_exceeds rd_block_def off' buf_ok_def buf_bytes_def
        length_ptr_bytes [OF assms(1)] add.commute)
qed

lemma parse_to_sized_buffer_1_refines:
  assumes "ptr_ok p (unat n)" and "unat off \<le> unat n"
  shows "case parse_to_sized_buffer p n 1 off of
      None \<Rightarrow> rd_sized1 (drop (unat off) (ptr_bytes p (unat n))) = None
    | Some (b, off') \<Rightarrow> unat off' \<le> unat n \<and> buf_ok b \<and>
        rd_sized1 (drop (unat off) (ptr_bytes p (unat n))) =
          Some (buf_bytes b, drop (unat off') (ptr_bytes p (unat n)))"
proof (cases "unat off + 1 > unat n")
  case True
  with assms show ?thesis
    by (simp add: parse_to_sized_buffer_def length_ptr_bytes)
next
  case False
  have off1: "unat (off + 1) = Suc (unat off)"
    using False unat_u16_less [of n] by (subst unat_add_u16) auto
  let ?sz = "ucast (ptr_read p (unat off)) :: u16" and ?w = "ptr_bytes p (unat n)"
  have eq: "parse_to_sized_buffer p n 1 off = take_buffer p n ?sz (off + 1)"
    using False by (simp add: parse_to_sized_buffer_def take_buffer_def Let_def)
  have rd: "rd_sized1 (drop (unat off) ?w) = rd_block (unat ?sz) (drop (unat (off + 1)) ?w)"
    using False by (simp add: off1 drop_ptr_bytes_read [OF assms(1)])
  have le: "unat (off + 1) \<le> unat n"
    using False by (simp add: off1)
  show ?thesis
    unfolding eq rd by (rule take_buffer_refines [OF assms(1) le])
qed

lemma parse_to_sized_buffer_2_refines:
  assumes "ptr_ok p (unat n)" and "unat off \<le> unat n"
  shows "case parse_to_sized_buffer p n 2 off of
      None \<Rightarrow> rd_sized2 (drop (unat off) (ptr_bytes p (unat n))) = None
    | Some (b, off') \<Rightarrow> unat off' \<le> unat n \<and> buf_ok b \<and>
        rd_sized2 (drop (unat off) (ptr_bytes p (unat n))) =
          Some (buf_bytes b, drop (unat off') (ptr_bytes p (unat n)))"
proof (cases "unat off + 2 > unat n")
  case True
  then have "length (drop (unat off) (ptr_bytes p (unat n))) < 2"
    using length_ptr_bytes [OF assms(1)] by simp
  then have "rd_sized2 (drop (unat off) (ptr_bytes p (unat n))) = None"
    by (cases "drop (unat off) (ptr_bytes p (unat n))" rule: rd_sized2.cases) auto
  with True show ?thesis
    by (simp add: parse_to_sized_buffer_def)
next
  case False
  let ?sz = "u2be (ptr_read p (unat off)) (ptr_read p (unat off + 1))"
    and ?w = "ptr_bytes p (unat n)"
  have off2: "unat (off + 2) = Suc (Suc (unat off))"
    using False unat_u16_less [of n] by (subst unat_add_u16) auto
  have eq: "parse_to_sized_buffer p n 2 off = take_buffer p n ?sz (off + 2)"
    using False by (simp add: parse_to_sized_buffer_def take_buffer_def Let_def)
  have rd: "rd_sized2 (drop (unat off) ?w) = rd_block (unat ?sz) (drop (unat (off + 2)) ?w)"
    using False by (simp add: off2 drop_ptr_bytes_read [OF assms(1)])
  have le: "unat (off + 2) \<le> unat n"
    using False by (simp add: off2)
  show ?thesis
    unfolding eq rd by (rule take_buffer_refines [OF assms(1) le])
qed

interpretation sized1_field: wire_field "\<lambda>x. length x < 256" enc_sized1 rd_sized1
    "\<lambda>p n. parse_to_sized_buffer p n 1" buf_bytes buf_ok
proof unfold_locales
  fix p n off
  assume "ptr_ok p (unat n)" "unat off \<le> unat n" "parse_to_sized_buffer p n 1 off = None"
  then show "rd_sized1 (drop (unat off) (ptr_bytes p (unat n))) = None"
    using parse_to_sized_buffer_1_refines [of p n off] by simp
next
  fix p n off b off'
  assume "ptr_ok p (unat n)" "unat off \<le> unat n" "parse_to_sized_buffer p n 1 off = Some (b, off')"
  then show "unat off' \<le> unat n \<and> buf_ok b \<and>
      rd_sized1 (drop (unat off) (ptr_bytes p (unat n))) =
        Some (buf_bytes b, drop (unat off') (ptr_bytes p (unat n)))"
    using parse_to_sized_buffer_1_refines [of p n off] by simp
qed (simp_all add: rd_sized1_enc rd_sized1_inv)

interpretation sized2_field: wire_field "\<lambda>x. length x < 65536" enc_sized2 rd_sized2
    "\<lambda>p n. parse_to_sized_buffer p n 2" buf_bytes buf_ok
proof unfold_locales
  fix p n off
  assume "ptr_ok p (unat n)" "unat off \<le> unat n" "parse_to_sized_buffer p n 2 off = None"
  then show "rd_sized2 (drop (unat off) (ptr_bytes p (unat n))) = None"
    using parse_to_sized_buffer_2_refines [of p n off] by simp
next
  fix p n off b off'
  assume "ptr_ok p (unat n)" "unat off \<le> unat n" "parse_to_sized_buffer p n 2 off = Some (b, off')"
  then show "unat off' \<le> unat n \<and> buf_ok b \<and>
      rd_sized2 (drop (unat off) (ptr_bytes p (unat n))) =
        Some (buf_bytes b, drop (unat off') (ptr_bytes p (unat n)))"
    using parse_to_sized_buffer_2_refines [of p n off] by simp
qed (simp_all add: rd_sized2_enc rd_sized2_inv)

text \<open>What the callers need of a buffer that was read.\<close>

lemma parse_to_sized_buffer_width:
  "k \<noteq> 1 \<Longrightarrow> k \<noteq> 2 \<Longrightarrow> parse_to_sized_buffer p n k off = None"
  by (simp add: parse_to_sized_buffer_def)

end
