(* ===== verification/Base64.thy ===== *)
theory Base64
  imports Prelude
begin

text \<open>
  \<^verbatim>\<open>src/base64.c\<close>: the decoder of the URL alphabet used for SELL, FUND and unified
  payloads. \<open>base64_decode\<close> is the C function, with the bytes it stores returned as the new
  contents of \<open>bufplain\<close>; \<open>base64url_encode\<close> is the encoding of RFC 4648 (section 5, with
  or without padding) that the partner's side uses, the specification it is checked against.
\<close>

section \<open>The decoder\<close>

definition pr2six :: "u8 list" where
  "pr2six =
    [64, 64, 64, 64, 64, 64, 64, 64, 64, 64, 64, 64, 64, 64, 64, 64,
     64, 64, 64, 64, 64, 64, 64, 64, 64, 64, 64, 64, 64, 64, 64, 64,
     64, 64, 64, 64, 64, 64, 64, 64, 64, 64, 64, 64, 64, 62, 64, 63,
     52, 53, 54, 55, 56, 57, 58, 59, 60, 61, 64, 64, 64, 64, 64, 64,
     64, 0,  1,  2,  3,  4,  5,  6,  7,  8,  9,  10, 11, 12, 13, 14,
     15, 16, 17, 18, 19, 20, 21, 22, 23, 24, 25, 64, 64, 64, 64, 63,
     64, 26, 27, 28, 29, 30, 31, 32, 33, 34, 35, 36, 37, 38, 39, 40,
     41, 42, 43, 44, 45, 46, 47, 48, 49, 50, 51, 64, 64, 64, 64, 64,
     64, 64, 64, 64, 64, 64, 64, 64, 64, 64, 64, 64, 64, 64, 64, 64,
     64, 64, 64, 64, 64, 64, 64, 64, 64, 64, 64, 64, 64, 64, 64, 64,
     64, 64, 64, 64, 64, 64, 64, 64, 64, 64, 64, 64, 64, 64, 64, 64,
     64, 64, 64, 64, 64, 64, 64, 64, 64, 64, 64, 64, 64, 64, 64, 64,
     64, 64, 64, 64, 64, 64, 64, 64, 64, 64, 64, 64, 64, 64, 64, 64,
     64, 64, 64, 64, 64, 64, 64, 64, 64, 64, 64, 64, 64, 64, 64, 64,
     64, 64, 64, 64, 64, 64, 64, 64, 64, 64, 64, 64, 64, 64, 64, 64,
     64, 64, 64, 64, 64, 64, 64, 64, 64, 64, 64, 64, 64, 64, 64, 64]"

definition six :: "u8 list \<Rightarrow> nat \<Rightarrow> u8" where
  "six bufin i = pr2six ! unat (bufin ! i)"

text \<open>The three output bytes of a group of four characters.\<close>

definition plain0 :: "u8 list \<Rightarrow> u8" where
  "plain0 bufin = push_bit 2 (six bufin 0) OR drop_bit 4 (six bufin 1)"

definition plain1 :: "u8 list \<Rightarrow> u8" where
  "plain1 bufin = push_bit 4 (six bufin 1) OR drop_bit 2 (six bufin 2)"

definition plain2 :: "u8 list \<Rightarrow> u8" where
  "plain2 bufin = push_bit 6 (six bufin 2) OR six bufin 3"

text \<open>
  The \<open>while\<close> loop: the input left, the counters, and the bytes stored so far. The first
  component is \<open>None\<close> where the C code returns \<open>-1\<close>.
\<close>

function base64_quads ::
    "u8 list \<Rightarrow> nat \<Rightarrow> nat \<Rightarrow> u8 list \<Rightarrow> (u8 list \<times> nat \<times> nat) option \<times> u8 list" where
  "base64_quads bufin nprbytes maxsize out =
     (if nprbytes > 4 then
        if maxsize < 3 then (None, out)
        else base64_quads (drop 4 bufin) (nprbytes - 4) (maxsize - 3)
               (out @ [plain0 bufin, plain1 bufin, plain2 bufin])
      else (Some (bufin, nprbytes, maxsize), out))"
  by pat_completeness auto
termination
  by (relation "measure (\<lambda>(bufin, nprbytes, maxsize, out). nprbytes)") auto

declare base64_quads.simps [simp del]

text \<open>The last group, of at most four characters: each further byte needs one more.\<close>

definition base64_last ::
    "u8 list \<Rightarrow> nat \<Rightarrow> nat \<Rightarrow> u8 list \<Rightarrow> int \<times> u8 list" where
  "base64_last bufin nprbytes maxsize out =
     (if \<not> nprbytes > 1 then (int (length out), out)
      else if maxsize < 1 then (-1, out)
      else
        let out = out @ [plain0 bufin]; maxsize = maxsize - 1 in
        if \<not> nprbytes > 2 then (int (length out), out)
        else if maxsize < 1 then (-1, out)
        else
          let out = out @ [plain1 bufin]; maxsize = maxsize - 1 in
          if \<not> nprbytes > 3 then (int (length out), out)
          else if maxsize < 1 then (-1, out)
          else
            let out = out @ [plain2 bufin] in (int (length out), out))"

definition base64_body :: "u8 list \<Rightarrow> nat \<Rightarrow> nat \<Rightarrow> u8 list \<Rightarrow> int \<times> u8 list" where
  "base64_body bufin nprbytes maxsize out =
     (case base64_quads bufin nprbytes maxsize out of
        (None, out) \<Rightarrow> (-1, out)
      | (Some (bufin, nprbytes, maxsize), out) \<Rightarrow> base64_last bufin nprbytes maxsize out)"

text \<open>At most two \<open>=\<close> are dropped from the end of the input.\<close>

definition strip_pad :: "u8 list \<Rightarrow> nat \<Rightarrow> nat" where
  "strip_pad bufin nprbytes =
     (if bufin ! (nprbytes - 1) = 0x3D then nprbytes - 1 else nprbytes)"

definition base64_decode :: "mem \<Rightarrow> nat \<Rightarrow> u8 list \<Rightarrow> nat \<Rightarrow> int \<times> mem" where
  "base64_decode bufplain maxsize bufcoded len =
     (if len mod 4 = 1 then (-1, bufplain)
      else if len = 0 then (0, bufplain)
      else
        let nprbytes = strip_pad bufcoded (strip_pad bufcoded len);
            (ret, out) = base64_body bufcoded nprbytes maxsize []
        in (ret, mwrite 0 out bufplain))"

section \<open>The reference encoding\<close>

definition b64url_alphabet :: "u8 list" where
  "b64url_alphabet =
     ascii ''ABCDEFGHIJKLMNOPQRSTUVWXYZabcdefghijklmnopqrstuvwxyz0123456789-_''"

definition b64url_char :: "u8 \<Rightarrow> u8" where
  "b64url_char s = b64url_alphabet ! unat s"

text \<open>The four sextets of three bytes; missing bytes count as zero.\<close>

definition sext0 :: "u8 \<Rightarrow> u8" where
  "sext0 a = drop_bit 2 a"

definition sext1 :: "u8 \<Rightarrow> u8 \<Rightarrow> u8" where
  "sext1 a b = push_bit 4 (a AND 3) OR drop_bit 4 b"

definition sext2 :: "u8 \<Rightarrow> u8 \<Rightarrow> u8" where
  "sext2 b c = push_bit 2 (b AND 15) OR drop_bit 6 c"

definition sext3 :: "u8 \<Rightarrow> u8" where
  "sext3 c = c AND 63"

fun base64url_encode :: "u8 list \<Rightarrow> u8 list" where
  "base64url_encode [] = []"
| "base64url_encode [a] = map b64url_char [sext0 a, sext1 a 0]"
| "base64url_encode [a, b] = map b64url_char [sext0 a, sext1 a b, sext2 b 0]"
| "base64url_encode (a # b # c # xs) =
     map b64url_char [sext0 a, sext1 a b, sext2 b c, sext3 c] @ base64url_encode xs"

definition base64url_pad :: "u8 list \<Rightarrow> u8 list" where
  "base64url_pad xs =
     base64url_encode xs @
     (if length xs mod 3 = 1 then [0x3D, 0x3D] else if length xs mod 3 = 2 then [0x3D] else [])"

section \<open>Decoding inverts the encoding\<close>

lemma sextet_bounds:
  "unat (sext0 a) < 64" "unat (sext1 a b) < 64" "unat (sext2 b c) < 64" "unat (sext3 c) < 64"
  unfolding sext0_def sext1_def sext2_def sext3_def
  by (rule unat_u8_less_64; simp add: bit_simps)+

lemma pr2six_alphabet: "\<forall>i<64. pr2six ! unat (b64url_alphabet ! i) = of_nat i"
  by code_simp

lemma pr2six_char: "unat s < 64 \<Longrightarrow> pr2six ! unat (b64url_char s) = s"
  using pr2six_alphabet by (simp add: b64url_char_def)

lemma alphabet_no_pad: "\<forall>i<64. b64url_alphabet ! i \<noteq> 0x3D"
  by code_simp

lemma b64url_char_no_pad: "unat s < 64 \<Longrightarrow> b64url_char s \<noteq> 0x3D"
  using alphabet_no_pad by (simp add: b64url_char_def)

lemmas sextet_simps =
  sextet_bounds [THEN pr2six_char] sextet_bounds [THEN b64url_char_no_pad]

lemma set_base64url_encode: "0x3D \<notin> set (base64url_encode xs)"
  by (induction xs rule: base64url_encode.induct) (simp_all add: sextet_simps(5-8) [THEN not_sym])

text \<open>Each output byte is rebuilt from the sextets around it.\<close>

lemma sextets_rebuild:
  "push_bit 2 (sext0 a) OR drop_bit 4 (sext1 a b) = a"
  "push_bit 4 (sext1 a b) OR drop_bit 2 (sext2 b c) = b"
  "push_bit 6 (sext2 b c) OR sext3 c = c"
  unfolding sext0_def sext1_def sext2_def sext3_def
  by (rule u8_eqI; simp add: bit_simps; fail)+

lemmas plain_defs = plain0_def plain1_def plain2_def six_def

lemmas encode_simps = plain_defs sextet_simps sextets_rebuild

lemma length_base64url_encode:
  "length (base64url_encode xs) =
     4 * (length xs div 3) + (if length xs mod 3 = 0 then 0 else Suc (length xs mod 3))"
  by (induction xs rule: base64url_encode.induct) (auto simp: div_add_self1)

lemma base64_quads_exit:
  "nprbytes \<le> 4 \<Longrightarrow> base64_quads bufin nprbytes maxsize out = (Some (bufin, nprbytes, maxsize), out)"
  by (simp add: base64_quads.simps)

lemma base64_quads_step:
  "nprbytes > 4 \<Longrightarrow> maxsize \<ge> 3 \<Longrightarrow>
   base64_quads bufin nprbytes maxsize out =
     base64_quads (drop 4 bufin) (nprbytes - 4) (maxsize - 3)
       (out @ [plain0 bufin, plain1 bufin, plain2 bufin])"
  by (subst base64_quads.simps) simp

lemma base64_quads_full:
  "nprbytes > 4 \<Longrightarrow> maxsize < 3 \<Longrightarrow> base64_quads bufin nprbytes maxsize out = (None, out)"
  by (subst base64_quads.simps) simp

text \<open>
  The loop and the last group together, on an encoding followed by anything: every byte is
  rebuilt and appended to what was stored before.
\<close>

lemma base64_body_encode:
  "xs \<noteq> [] \<Longrightarrow> length xs \<le> maxsize \<Longrightarrow>
   base64_body (base64url_encode xs @ ys) (length (base64url_encode xs)) maxsize out =
     (int (length out + length xs), out @ xs)"
proof (induction xs arbitrary: maxsize out rule: base64url_encode.induct)
  case 1
  then show ?case by simp
next
  case (2 a)
  then show ?case
    by (simp add: base64_body_def base64_quads_exit base64_last_def encode_simps)
next
  case (3 a b)
  then show ?case
    by (simp add: base64_body_def base64_quads_exit base64_last_def encode_simps)
next
  case (4 a b c xs)
  show ?case
  proof (cases "xs = []")
    case True
    with 4 show ?thesis
      by (simp add: base64_body_def base64_quads_exit base64_last_def encode_simps)
  next
    case False
    then have "length (base64url_encode xs) > 0"
      by (cases xs rule: base64url_encode.cases) auto
    then have "base64_body (base64url_encode (a # b # c # xs) @ ys)
          (length (base64url_encode (a # b # c # xs))) maxsize out =
        base64_body (base64url_encode xs @ ys) (length (base64url_encode xs)) (maxsize - 3)
          (out @ [a, b, c])"
      using 4 by (simp add: base64_body_def base64_quads_step encode_simps)
    also have "\<dots> = (int (length out + length (a # b # c # xs)), out @ a # b # c # xs)"
      using 4 False by (subst "4.IH") auto
    finally show ?thesis .
  qed
qed

lemma length_encode_mod4: "length (base64url_encode xs) mod 4 \<noteq> 1"
proof -
  have "length xs mod 3 = 0 \<or> length xs mod 3 = 1 \<or> length xs mod 3 = 2" by arith
  then show ?thesis by (auto simp: length_base64url_encode)
qed

lemma encode_empty_iff: "base64url_encode xs = [] \<longleftrightarrow> xs = []"
  by (cases xs rule: base64url_encode.cases) auto

lemma strip_pad_encode:
  assumes "k \<le> 2"
  shows "strip_pad (base64url_encode xs @ replicate k 0x3D)
           (strip_pad (base64url_encode xs @ replicate k 0x3D) (length (base64url_encode xs) + k)) =
         length (base64url_encode xs)"
proof (cases "xs = []")
  case True
  from assms have "k = 0 \<or> k = 1 \<or> k = 2" by arith
  with True show ?thesis by (auto simp: strip_pad_def nth_append eval_nat_numeral)
next
  case False
  let ?e = "base64url_encode xs"
  from False have ne: "length ?e > 0" by (simp add: encode_empty_iff)
  then have "?e ! (length ?e - 1) \<in> set ?e" by simp
  with set_base64url_encode [of xs] have last: "?e ! (length ?e - 1) \<noteq> 0x3D" by metis
  from assms have "k = 0 \<or> k = 1 \<or> k = 2" by arith
  with ne last show ?thesis
    by (auto simp: strip_pad_def nth_append numeral_2_eq_2)
qed

lemma base64url_pad_replicate:
  "\<exists>k \<le> 2. base64url_pad xs = base64url_encode xs @ replicate k 0x3D \<and>
     (length (base64url_encode xs) + k) mod 4 = 0"
proof -
  have "length xs mod 3 = 0 \<or> length xs mod 3 = 1 \<or> length xs mod 3 = 2" by arith
  then show ?thesis
    by (auto simp: base64url_pad_def length_base64url_encode mod_simps
        intro: exI [of _ 0] exI [of _ 1] exI [of _ 2] simp: numeral_2_eq_2)
qed

lemma base64_decode_padded:
  assumes "length xs \<le> maxsize" and "k \<le> 2" and "(length (base64url_encode xs) + k) mod 4 \<noteq> 1"
    and "k = 0 \<or> xs \<noteq> []"
  shows "base64_decode buf maxsize (base64url_encode xs @ replicate k 0x3D) (length (base64url_encode xs) + k) =
    (int (length xs), mwrite 0 xs buf)"
proof (cases "xs = []")
  case True
  with assms show ?thesis by (simp add: base64_decode_def mwrite_def)
next
  case False
  with assms strip_pad_encode [OF assms(2), of xs] base64_body_encode [OF False assms(1)]
  show ?thesis
    by (simp add: base64_decode_def encode_empty_iff Let_def)
qed

section \<open>Bounds of the writes\<close>

lemma base64_quads_out:
  "base64_quads bufin nprbytes maxsize out = (r, out') \<Longrightarrow>
   length out' \<le> length out + maxsize \<and>
   (\<forall>bufin' n' m'. r = Some (bufin', n', m') \<longrightarrow> length out' + m' = length out + maxsize)"
proof (induction bufin nprbytes maxsize out rule: base64_quads.induct)
  case (1 bufin nprbytes maxsize out)
  show ?case
  proof (cases "nprbytes > 4 \<and> \<not> maxsize < 3")
    case True
    with 1 show ?thesis by (fastforce simp: base64_quads_step)
  next
    case False
    with "1.prems" show ?thesis
      by (cases "nprbytes > 4") (auto simp: base64_quads_full base64_quads_exit)
  qed
qed

lemma base64_last_out:
  "base64_last bufin nprbytes maxsize out = (ret, out') \<Longrightarrow>
   length out' \<le> length out + maxsize \<and> (ret = -1 \<or> ret = int (length out'))"
  by (auto simp: base64_last_def Let_def split: if_splits)

lemma base64_body_out:
  "base64_body bufin nprbytes maxsize out = (ret, out') \<Longrightarrow>
   length out' \<le> length out + maxsize \<and> (ret = -1 \<or> ret = int (length out'))"
  by (auto simp: base64_body_def split: prod.splits option.splits
      dest!: base64_quads_out base64_last_out)

section \<open>Properties\<close>

lemma base64_decode_encoded:
  assumes "length xs \<le> maxsize"
  shows "base64_decode buf maxsize (base64url_encode xs) (length (base64url_encode xs)) =
           (int (length xs), mwrite 0 xs buf) \<and>
         base64_decode buf maxsize (base64url_pad xs) (length (base64url_pad xs)) =
           (int (length xs), mwrite 0 xs buf)"
proof
  show "base64_decode buf maxsize (base64url_encode xs) (length (base64url_encode xs)) =
      (int (length xs), mwrite 0 xs buf)"
    using base64_decode_padded [OF assms, of 0] length_encode_mod4 [of xs] by simp
  obtain k where "k \<le> 2" and pad: "base64url_pad xs = base64url_encode xs @ replicate k 0x3D"
    and "(length (base64url_encode xs) + k) mod 4 = 0"
    using base64url_pad_replicate [of xs] by auto
  moreover have "k = 0 \<or> xs \<noteq> []"
    using pad by (auto simp: base64url_pad_def)
  ultimately show "base64_decode buf maxsize (base64url_pad xs) (length (base64url_pad xs)) =
      (int (length xs), mwrite 0 xs buf)"
    using base64_decode_padded [OF assms, of k] by simp
qed

text \<open>
  C24: decoding what a partner encoded gives back the payload: for every byte string that
  fits the destination, \<open>base64_decode\<close> applied to its URL-safe base 64 encoding, without
  or with the trailing \<open>=\<close> padding, returns its length and stores exactly its bytes.
\<close>

theorem base64_decode_encode:
  assumes "length xs \<le> maxsize"
  shows "base64_decode buf maxsize (base64url_encode xs) (length (base64url_encode xs)) =
           (int (length xs), mwrite 0 xs buf) \<and>
         base64_decode buf maxsize (base64url_pad xs) (length (base64url_pad xs)) =
           (int (length xs), mwrite 0 xs buf)"
  by (rule base64_decode_encoded [OF assms])

theorem base64_decode_encode_witness:
  "base64_decode (replicate 8 0) 8 (base64url_encode [0xFB, 0xEF, 0xFF, 0x00]) 6 =
     (4, [0xFB, 0xEF, 0xFF, 0x00, 0, 0, 0, 0])"
  using base64_decode_encode [of "[0xFB, 0xEF, 0xFF, 0x00]" 8 "replicate 8 0"]
  by (simp add: mwrite_def length_base64url_encode eval_nat_numeral)

lemma base64_decode_bounds:
  assumes "maxsize \<le> length buf" and "base64_decode buf maxsize coded len = (ret, buf')"
  shows "same_outside 0 maxsize buf buf' \<and> (ret = -1 \<or> 0 \<le> ret \<and> ret \<le> int maxsize)"
proof (cases "len mod 4 = 1 \<or> len = 0")
  case True
  with assms(2) show ?thesis by (auto simp: base64_decode_def split: if_splits)
next
  case False
  then obtain out where "base64_body coded (strip_pad coded (strip_pad coded len)) maxsize [] = (ret, out)"
    and "buf' = mwrite 0 out buf"
    using assms(2) by (auto simp: base64_decode_def Let_def split: prod.splits)
  with base64_body_out [of coded _ maxsize "[]" ret out] assms(1)
  have "length out \<le> maxsize" "ret = -1 \<or> ret = int (length out)" "buf' = mwrite 0 out buf"
    by auto
  with assms(1) show ?thesis
    by (auto intro: same_outside_mwrite)
qed

text \<open>
  C25: whatever the input, \<open>base64_decode\<close> stores only into the first \<open>maxsize\<close> bytes of its
  destination, and its result is \<open>-1\<close> or a count between \<open>0\<close> and \<open>maxsize\<close>.
\<close>

theorem base64_decode_in_bounds:
  assumes "maxsize \<le> length buf" and "base64_decode buf maxsize coded len = (ret, buf')"
  shows "same_outside 0 maxsize buf buf' \<and> (ret = -1 \<or> 0 \<le> ret \<and> ret \<le> int maxsize)"
  by (rule base64_decode_bounds [OF assms])

theorem base64_decode_in_bounds_witness:
  "base64_decode [0, 0, 0] 2 [0x2D, 0x2D, 0x5F, 0x5F] 4 = (-1, [0xFB, 0xEF, 0]) \<and>
   same_outside 0 2 [0, 0, 0 :: u8] [0xFB, 0xEF, 0]"
proof -
  have run: "base64_decode [0, 0, 0] 2 [0x2D, 0x2D, 0x5F, 0x5F] 4 = (-1, [0xFB, 0xEF, 0])"
    by code_simp
  with base64_decode_in_bounds [OF _ run] show ?thesis by simp
qed

end
