(* ===== verification/Der.thy ===== *)
theory Der
  imports Prelude
begin

text \<open>
  \<^verbatim>\<open>src/der.c\<close>: the DER encoder that turns an \<open>(R,S)\<close> signature into the form the SDK
  verifies. The output is the memory object \<open>sig\<close>, the C pointer \<open>*p\<close> an offset into it
  and \<open>lim\<close> the offset it must not pass; an insertion returns whether it succeeded, the new
  contents and the advanced offset.
\<close>

section \<open>Sizes\<close>

definition asn1_get_encoded_length_size :: "nat \<Rightarrow> nat" where
  "asn1_get_encoded_length_size len =
     (if len < 0x80 then 1 else if len < 0x100 then 2 else if len < 0x10000 then 3 else 0)"

text \<open>The loop that both the size computation and the insertion start with.\<close>

fun skip_zeros :: "u8 list \<Rightarrow> nat \<Rightarrow> u8 list \<times> nat" where
  "skip_zeros (v # val) (Suc len) = (if v = 0 then skip_zeros val len else (v # val, Suc len))"
| "skip_zeros val len = (val, len)"

definition asn1_get_encoded_integer_size :: "u8 list \<Rightarrow> nat \<Rightarrow> nat" where
  "asn1_get_encoded_integer_size val len =
     (let (val, len) = skip_zeros val len;
          len = (if len = 0 then 1 else if val ! 0 AND 0x80 \<noteq> 0 then len + 1 else len);
          l0 = asn1_get_encoded_length_size len
      in if l0 = 0 then 0 else 1 + l0 + len)"

section \<open>Insertions\<close>

definition asn1_insert_tag :: "mem \<Rightarrow> nat \<Rightarrow> nat \<Rightarrow> u8 \<Rightarrow> bool \<times> mem \<times> nat" where
  "asn1_insert_tag sig p lim tag =
     (if int lim - int p < 1 then (False, sig, p)
      else (True, mwrite p [tag] sig, p + 1))"

definition asn1_insert_len :: "mem \<Rightarrow> nat \<Rightarrow> nat \<Rightarrow> nat \<Rightarrow> bool \<times> mem \<times> nat" where
  "asn1_insert_len sig p lim len =
     (if len < 0x80 then
        if int lim - int p < 1 then (False, sig, p)
        else (True, mwrite p [of_nat len AND 0xFF] sig, p + 1)
      else if len < 0x100 then
        if int lim - int p < 2 then (False, sig, p)
        else (True, mwrite p [0x81, of_nat len AND 0xFF] sig, p + 2)
      else if len < 0x10000 then
        if int lim - int p < 3 then (False, sig, p)
        else (True, mwrite p [0x82, of_nat (drop_bit 8 len) AND 0xFF, of_nat len AND 0xFF] sig, p + 3)
      else (False, sig, p))"

definition asn1_insert_integer ::
    "mem \<Rightarrow> nat \<Rightarrow> nat \<Rightarrow> u8 list \<Rightarrow> nat \<Rightarrow> bool \<times> mem \<times> nat" where
  "asn1_insert_integer sig p lim val len =
     (let (val, len) = skip_zeros val len;
          (ok, sig, p) = asn1_insert_tag sig p lim 0x02
      in if \<not> ok then (False, sig, p)
      else if len = 0 then
        if int lim - int p < 2 then (False, sig, p)
        else (True, mwrite p [0x01, 0x00] sig, p + 2)
      else
        let msb = (val ! 0 AND 0x80 \<noteq> 0);
            (ok, sig, p) = asn1_insert_len sig p lim (if len \<noteq> 0 \<and> msb then len + 1 else len)
        in if \<not> ok then (False, sig, p)
        else if len \<noteq> 0 \<and> msb \<and> int lim - int p < 1 then (False, sig, p)
        else
          let (sig, p) = (if len \<noteq> 0 \<and> msb then (mwrite p [0] sig, p + 1) else (sig, p))
          in if int lim - int p < int len then (False, sig, p)
             else (True, mwrite p (take len val) sig, p + len))"

definition encode_sig_der ::
    "mem \<Rightarrow> nat \<Rightarrow> u8 list \<Rightarrow> nat \<Rightarrow> u8 list \<Rightarrow> nat \<Rightarrow> int \<times> mem" where
  "encode_sig_der sig sig_len r r_len s s_len =
     (let sig_end = sig_len;
          lr = asn1_get_encoded_integer_size r r_len;
          ls = asn1_get_encoded_integer_size s s_len
      in if lr = 0 then (0, sig)
      else if ls = 0 then (0, sig)
      else
        let len = lr + ls;
            (ok, sig, p) = asn1_insert_tag sig 0 sig_end 0x30
        in if \<not> ok then (0, sig)
        else let (ok, sig, p) = asn1_insert_len sig p sig_end len
        in if \<not> ok then (0, sig)
        else let (ok, sig, p) = asn1_insert_integer sig p sig_end r r_len
        in if \<not> ok then (0, sig)
        else let (ok, sig, p) = asn1_insert_integer sig p sig_end s s_len
        in if \<not> ok then (0, sig)
        else (int sig_len - (int sig_end - int p), sig))"

section \<open>The reference encoding: X.690 definite lengths and minimal unsigned integers\<close>

definition der_len :: "nat \<Rightarrow> u8 list" where
  "der_len n =
     (if n < 0x80 then [of_nat n]
      else if n < 0x100 then [0x81, of_nat n]
      else [0x82, of_nat (n div 256), of_nat (n mod 256)])"

definition strip0 :: "u8 list \<Rightarrow> u8 list" where
  "strip0 xs = dropWhile (\<lambda>b. b = 0) xs"

definition der_content :: "u8 list \<Rightarrow> u8 list" where
  "der_content xs =
     (case strip0 xs of
        [] \<Rightarrow> [0]
      | v # vs \<Rightarrow> if unat v \<ge> 128 then 0 # v # vs else v # vs)"

definition der_tlv :: "u8 \<Rightarrow> u8 list \<Rightarrow> u8 list" where
  "der_tlv tag content = tag # der_len (length content) @ content"

definition der_integer :: "u8 list \<Rightarrow> u8 list" where
  "der_integer xs = der_tlv 0x02 (der_content xs)"

definition der_signature :: "u8 list \<Rightarrow> u8 list \<Rightarrow> u8 list" where
  "der_signature r s = der_tlv 0x30 (der_integer r @ der_integer s)"

section \<open>Insertions emit the reference encodings\<close>

text \<open>
  The contract of an insertion: where the output fits, it succeeds, stores \<open>out\<close> and
  advances past it.
\<close>

locale emitter =
  fixes ins :: "mem \<Rightarrow> nat \<Rightarrow> nat \<Rightarrow> bool \<times> mem \<times> nat"
    and out :: "u8 list"
  assumes emits: "p + length out \<le> lim \<Longrightarrow> lim \<le> length sig \<Longrightarrow>
    ins sig p lim = (True, mwrite p out sig, p + length out)"

lemma mask_byte: "(x :: u8) AND 0xFF = x"
  by (rule u8_eqI) (simp_all add: bit_simps)

interpretation tag_emitter: emitter "\<lambda>sig p lim. asn1_insert_tag sig p lim tag" "[tag]" for tag
  by unfold_locales (auto simp: asn1_insert_tag_def)

lemma of_nat_mod_byte [simp]: "(of_nat (n mod 256) :: u8) = of_nat n"
  by (rule word_unat_eq_iff [THEN iffD2]) (simp add: unat_of_nat take_bit_eq_mod)

lemma room: "p + n \<le> lim \<Longrightarrow> \<not> int lim - int p < int n"
  by simp

lemma insert_len_emits:
  assumes "len < 0x10000" and "p + length (der_len len) \<le> lim" and "lim \<le> length sig"
  shows "asn1_insert_len sig p lim len = (True, mwrite p (der_len len) sig, p + length (der_len len))"
proof -
  consider "len < 128" | "\<not> len < 128" "len < 256" | "\<not> len < 128" "\<not> len < 256" by blast
  then show ?thesis
    using assms
    by cases (simp_all add: asn1_insert_len_def der_len_def mask_byte drop_bit_eq_div)
qed

interpretation len_emitter: emitter "\<lambda>sig p lim. asn1_insert_len sig p lim (len mod 0x10000)"
    "der_len (len mod 0x10000)" for len
  by unfold_locales (rule insert_len_emits; simp)

text \<open>The integer loop drops exactly the leading zeros.\<close>

lemma strip0_Nil [simp]: "strip0 [] = []"
  and strip0_Cons [simp]: "strip0 (x # xs) = (if x = 0 then strip0 xs else x # xs)"
  by (simp_all add: strip0_def)

lemma length_strip0: "length (strip0 xs) \<le> length xs"
  by (simp add: strip0_def length_dropWhile_le)

lemma be_value_strip0 [simp]: "be_value (strip0 xs) = be_value xs"
  by (simp add: strip0_def)

lemma skip_zeros_strip0: "skip_zeros val (length val) = (strip0 val, length (strip0 val))"
  by (induction val) auto

lemma odd_iff_one: "q < 2 \<Longrightarrow> odd q \<longleftrightarrow> q = 1" for q :: nat
  by presburger

lemma msb_iff: "(v :: u8) AND 0x80 \<noteq> 0 \<longleftrightarrow> unat v \<ge> 128"
proof -
  have "v AND 0x80 = (if bit v 7 then 0x80 else 0)"
    by (rule u8_eqI) (simp_all add: bit_simps)
  moreover have "bit v 7 \<longleftrightarrow> unat v \<ge> 128"
  proof -
    have "bit v 7 \<longleftrightarrow> bit (unat v) 7"
      by (simp add: bit_unsigned_iff)
    also have "\<dots> \<longleftrightarrow> odd (unat v div 128)"
      by (simp add: bit_iff_odd)
    also have "\<dots> \<longleftrightarrow> unat v div 128 = 1"
      using odd_iff_one [of "unat v div 128"] unat_u8_less [of v] by auto
    also have "\<dots> \<longleftrightarrow> unat v \<ge> 128"
      using unat_u8_less [of v] by auto
    finally show ?thesis .
  qed
  ultimately show ?thesis by simp
qed

definition pads :: "u8 list \<Rightarrow> bool" where
  "pads ys \<longleftrightarrow> ys \<noteq> [] \<and> unat (hd ys) \<ge> 128"

lemma der_content_eq:
  "der_content xs =
     (let ys = strip0 xs in if ys = [] then [0] else if pads ys then 0 # ys else ys)"
  by (auto simp: der_content_def pads_def Let_def split: list.splits)

lemma length_der_content: "length (der_content xs) \<le> length xs + 1"
  using length_strip0 [of xs]
  by (auto simp: der_content_eq Let_def)

lemma integer_size_eq:
  assumes "length xs < 0xFFFF"
  shows "asn1_get_encoded_integer_size xs (length xs) = length (der_integer xs)"
proof -
  let ?ys = "strip0 xs"
  have "length ?ys < 0xFFFF"
    using assms length_strip0 [of xs] by simp
  moreover have "(?ys ! 0 AND 0x80 \<noteq> 0) \<longleftrightarrow> pads ?ys" if "?ys \<noteq> []"
    using that by (simp add: msb_iff pads_def hd_conv_nth)
  ultimately show ?thesis
    by (auto simp: asn1_get_encoded_integer_size_def skip_zeros_strip0 der_integer_def
        der_tlv_def der_content_eq asn1_get_encoded_length_size_def der_len_def Let_def pads_def)
qed

lemma insert_integer_emits:
  assumes len: "length xs < 0xFFFF" and fits: "p + length (der_integer xs) \<le> lim" "lim \<le> length sig"
  shows "asn1_insert_integer sig p lim xs (length xs) =
    (True, mwrite p (der_integer xs) sig, p + length (der_integer xs))"
proof -
  let ?ys = "strip0 xs"
  have short: "length ?ys < 0xFFFF"
    using len length_strip0 [of xs] by simp
  have msb: "(?ys ! 0 AND 0x80 \<noteq> 0) \<longleftrightarrow> pads ?ys" if "?ys \<noteq> []"
    using that by (simp add: msb_iff pads_def hd_conv_nth)
  note emit = tag_emitter.emits [simplified] insert_len_emits
  show ?thesis
  proof (cases "?ys = []")
    case True
    with fits show ?thesis
      by (simp add: asn1_insert_integer_def skip_zeros_strip0 der_integer_def der_tlv_def
          der_content_eq der_len_def emit mwrite_mwrite_adjacent length_mwrite Let_def)
  next
    case False
    let ?n = "length (der_content xs)"
    have n: "?n = (if pads ?ys then length ?ys + 1 else length ?ys)"
      using False by (simp add: der_content_eq Let_def)
    have room: "p + 1 + length (der_len ?n) + ?n \<le> lim" "?n < 0x10000"
      using fits short n by (auto simp: der_integer_def der_tlv_def)
    show ?thesis
      using False fits room
      apply (cases "pads ?ys")
       apply (simp_all add: asn1_insert_integer_def skip_zeros_strip0 der_integer_def der_tlv_def
          der_content_eq msb emit mwrite_mwrite_adjacent length_mwrite Let_def)
      done
  qed
qed

section \<open>The whole signature\<close>

lemma length_der_integer_32: "length xs = 32 \<Longrightarrow> length (der_integer xs) \<le> 35"
  using length_der_content [of xs] by (simp add: der_integer_def der_tlv_def der_len_def)

lemma der_integer_nonempty: "der_integer xs \<noteq> []"
  by (simp add: der_integer_def der_tlv_def)

lemma der_signature_short:
  "length r = 32 \<Longrightarrow> length s = 32 \<Longrightarrow>
   der_signature r s = 0x30 # of_nat (length (der_integer r @ der_integer s)) # der_integer r @ der_integer s"
  using length_der_integer_32 [of r] length_der_integer_32 [of s]
  by (simp add: der_signature_def der_tlv_def der_len_def)

text \<open>A reader of DER written after X.690, independent of the encoder.\<close>

fun der_read_len :: "u8 list \<Rightarrow> (nat \<times> u8 list) option" where
  "der_read_len [] = None"
| "der_read_len (b # bs) =
     (if unat b < 128 then Some (unat b, bs)
      else if b = 0x81 then (case bs of x # bs \<Rightarrow> Some (unat x, bs) | _ \<Rightarrow> None)
      else if b = 0x82 then (case bs of x # y # bs \<Rightarrow> Some (256 * unat x + unat y, bs) | _ \<Rightarrow> None)
      else None)"

definition der_read_tlv :: "u8 \<Rightarrow> u8 list \<Rightarrow> (u8 list \<times> u8 list) option" where
  "der_read_tlv tag bs =
     (case bs of
        [] \<Rightarrow> None
      | t # bs \<Rightarrow>
          if t \<noteq> tag then None
          else case der_read_len bs of
                 None \<Rightarrow> None
               | Some (n, bs) \<Rightarrow> if n \<le> length bs then Some (take n bs, drop n bs) else None)"

text \<open>A positive integer is at least one byte, and its first bit is its sign.\<close>

definition der_read_positive :: "u8 list \<Rightarrow> (nat \<times> u8 list) option" where
  "der_read_positive bs =
     (case der_read_tlv 0x02 bs of
        Some (v # vs, rest) \<Rightarrow> if unat v < 128 then Some (be_value (v # vs), rest) else None
      | _ \<Rightarrow> None)"

definition der_read_signature :: "u8 list \<Rightarrow> (nat \<times> nat) option" where
  "der_read_signature bs =
     (case der_read_tlv 0x30 bs of
        Some (body, []) \<Rightarrow>
          (case der_read_positive body of
             Some (r, rest) \<Rightarrow> (case der_read_positive rest of Some (s, []) \<Rightarrow> Some (r, s) | _ \<Rightarrow> None)
           | None \<Rightarrow> None)
      | _ \<Rightarrow> None)"

lemma der_read_len_der_len: "n < 0x10000 \<Longrightarrow> der_read_len (der_len n @ rest) = Some (n, rest)"
  by (auto simp: der_len_def unat_of_nat take_bit_eq_mod)

lemma der_read_tlv_der_tlv:
  "length content < 0x10000 \<Longrightarrow> der_read_tlv tag (der_tlv tag content @ rest) = Some (content, rest)"
  by (simp add: der_read_tlv_def der_tlv_def der_read_len_der_len)

lemma strip0_hd: "strip0 xs = v # vs \<Longrightarrow> v \<noteq> 0"
  by (induction xs) (auto split: if_splits)

lemma der_read_positive_der_integer:
  assumes "length xs < 0xFFFF"
  shows "der_read_positive (der_integer xs @ rest) = Some (be_value xs, rest)"
proof -
  have "length (der_content xs) < 0x10000"
    using assms length_der_content [of xs] by simp
  moreover have "\<exists>v vs. der_content xs = v # vs \<and> unat v < 128 \<and> be_value (v # vs) = be_value xs"
    using be_value_strip0 [of xs]
    by (auto simp: der_content_eq pads_def Let_def neq_Nil_conv be_value_Cons simp del: be_value_strip0)
  ultimately show ?thesis
    by (auto simp: der_read_positive_def der_integer_def der_read_tlv_der_tlv)
qed

lemma der_read_signature_der_signature:
  assumes "length r = 32" and "length s = 32"
  shows "der_read_signature (der_signature r s) = Some (be_value r, be_value s)"
proof -
  have "length (der_integer r @ der_integer s) < 0x10000"
    using assms length_der_integer_32 [of r] length_der_integer_32 [of s] by simp
  then show ?thesis
    using assms der_read_tlv_der_tlv [of "der_integer r @ der_integer s" "0x30" "[]"]
      der_read_positive_der_integer [of s "[]"]
    by (simp add: der_read_signature_def der_signature_def der_read_positive_der_integer)
qed

lemma encode_sig_der_emits:
  assumes "length r = 32" and "length s = 32" and "n = length (der_signature r s)" and "n \<le> length sig"
  shows "encode_sig_der sig n r 32 s 32 = (int n, mwrite 0 (der_signature r s) sig)"
proof -
  let ?body = "der_integer r @ der_integer s"
  have short: "length ?body < 128"
    using assms length_der_integer_32 [of r] length_der_integer_32 [of s] by simp
  have n: "n = 2 + length ?body"
    using assms by (simp add: der_signature_short)
  have len: "der_len (length ?body) = [of_nat (length ?body)]"
    using short by (simp add: der_len_def)
  note emit = tag_emitter.emits [simplified] insert_len_emits
    insert_integer_emits [of r, unfolded assms(1)] insert_integer_emits [of s, unfolded assms(2)]
    integer_size_eq [of r, unfolded assms(1)] integer_size_eq [of s, unfolded assms(2)]
  have "sig \<noteq> []" using assms(4) n by auto
  then show ?thesis
    using assms(4) n len short
    by (simp add: encode_sig_der_def emit length_mwrite mwrite_mwrite_adjacent der_integer_nonempty
        der_signature_short assms(1,2) Let_def)
qed

section \<open>Properties\<close>

lemma encode_sig_der_encodes:
  assumes "length r = 32" and "length s = 32" and "length sig = 76"
    and "sz = asn1_get_encoded_integer_size r 32 + asn1_get_encoded_integer_size s 32 + 2"
  shows "sz \<le> 72 \<and>
    encode_sig_der sig sz r 32 s 32 = (int sz, der_signature r s @ drop sz sig)"
proof -
  have n: "sz = length (der_signature r s)"
    using assms integer_size_eq [of r] integer_size_eq [of s] by (simp add: der_signature_short)
  moreover have "sz \<le> 72"
    using n assms length_der_integer_32 [of r] length_der_integer_32 [of s]
    by (simp add: der_signature_short)
  ultimately show ?thesis
    using encode_sig_der_emits [OF assms(1,2) n, of sig] assms(3) by (simp add: mwrite_def)
qed

text \<open>
  C26: a signature received as \<open>(R,S)\<close> is always re-encoded: for every two 32-byte integers the
  size computed from \<open>asn1_get_encoded_integer_size\<close> is at most 72 and so fits the 76-byte
  buffer, \<open>encode_sig_der\<close> does not fail, returns that size, stores exactly the DER encoding
  of the pair and leaves the rest of the buffer as it was.
\<close>

theorem encode_sig_der_correct:
  assumes "length r = 32" and "length s = 32" and "length sig = 76"
    and "sz = asn1_get_encoded_integer_size r 32 + asn1_get_encoded_integer_size s 32 + 2"
  shows "sz \<le> 72 \<and>
    encode_sig_der sig sz r 32 s 32 = (int sz, der_signature r s @ drop sz sig)"
  by (rule encode_sig_der_encodes [OF assms])

text \<open>
  C27: the re-encoding keeps the signature: a DER reader applied to what \<open>encode_sig_der\<close> stored
  gives back the two numbers that the 32-byte big-endian \<open>r\<close> and \<open>s\<close> denote, whatever their
  leading zeros and top bits.
\<close>

theorem encode_sig_der_roundtrip:
  assumes "length r = 32" and "length s = 32" and "length sig = 76"
    and "encode_sig_der sig (asn1_get_encoded_integer_size r 32 + asn1_get_encoded_integer_size s 32 + 2)
           r 32 s 32 = (ret, sig')"
  shows "der_read_signature (take (nat ret) sig') = Some (be_value r, be_value s)"
proof -
  have n: "asn1_get_encoded_integer_size r 32 + asn1_get_encoded_integer_size s 32 + 2 =
      length (der_signature r s)" (is "?n = _")
    using assms integer_size_eq [of r] integer_size_eq [of s] by (simp add: der_signature_short)
  moreover have "?n \<le> 72"
    using n assms length_der_integer_32 [of r] length_der_integer_32 [of s]
    by (simp add: der_signature_short)
  ultimately have "ret = int (length (der_signature r s))" "sig' = mwrite 0 (der_signature r s) sig"
    using encode_sig_der_emits [OF assms(1,2) n, of sig] assms(3,4) by auto
  then show ?thesis
    using der_read_signature_der_signature [OF assms(1,2)] by (simp add: mwrite_def)
qed

theorem encode_sig_der_correct_witness:
  "encode_sig_der (replicate 76 9) 70 (0x80 # replicate 31 1) 32 (0 # replicate 31 2) 32 =
     (70, der_signature (0x80 # replicate 31 1) (0 # replicate 31 2) @ replicate 6 9)"
proof -
  have "70 = asn1_get_encoded_integer_size (0x80 # replicate 31 1) 32 +
      asn1_get_encoded_integer_size (0 # replicate 31 2) 32 + 2"
    by code_simp
  from encode_sig_der_correct [OF _ _ _ this, of "replicate 76 9"] show ?thesis
    by (simp add: drop_replicate)
qed

theorem encode_sig_der_roundtrip_witness:
  "\<exists>sig'. encode_sig_der (replicate 76 0) 70 (0x80 # replicate 31 1) 32 (0 # replicate 31 2) 32 = (70, sig') \<and>
     der_read_signature (take 70 sig') =
       Some (be_value (0x80 # replicate 31 1), be_value (0 # replicate 31 2))"
proof -
  let ?r = "0x80 # replicate 31 1 :: u8 list" and ?s = "0 # replicate 31 2 :: u8 list"
  have n: "asn1_get_encoded_integer_size ?r 32 + asn1_get_encoded_integer_size ?s 32 + 2 = 70"
    by code_simp
  obtain ret sig' where run: "encode_sig_der (replicate 76 0) 70 ?r 32 ?s 32 = (ret, sig')"
    by fastforce
  moreover have "ret = 70"
    using encode_sig_der_emits [of ?r ?s 70 "replicate 76 0"] run n integer_size_eq [of ?r] integer_size_eq [of ?s]
    by (simp add: der_signature_short)
  ultimately show ?thesis
    using encode_sig_der_roundtrip [of ?r ?s "replicate 76 0" ret sig'] n by simp
qed

end
