(* ===== verification/Coin_Config.thy ===== *)
theory Coin_Config
  imports Commands Buf
begin

text \<open>
  The two messages about coins: \<^verbatim>\<open>src/parse_check_address_message.c\<close> splits the payload of
  an address check into its coin configuration, the DER signature of Ledger over it and the
  derivation parameters, \<^verbatim>\<open>src/parse_coin_config.c\<close> splits the configuration into ticker,
  application name and sub configuration, and \<^verbatim>\<open>src/checks.h\<close> has the length checks. Each
  parser is characterised by the byte strings it accepts and what it reads from them.
\<close>

section \<open>Length checks\<close>

definition check_der_signature_length :: "buf_t \<Rightarrow> bool" where
  "check_der_signature_length der =
     (if unat (bsize der) < MIN_DER_SIGNATURE_LENGTH \<or> unat (bsize der) > MAX_DER_SIGNATURE_LENGTH
      then False else True)"

definition check_ticker_length :: "buf_t \<Rightarrow> bool" where
  "check_ticker_length ticker =
     (if unat (bsize ticker) < TICKER_MIN_SIZE_B \<or> unat (bsize ticker) > TICKER_MAX_SIZE_B
      then False else True)"

definition check_app_name_length :: "buf_t \<Rightarrow> bool" where
  "check_app_name_length app_name =
     (if unat (bsize app_name) < APPNAME_MIN_SIZE_B \<or> unat (bsize app_name) > BOLOS_APPNAME_MAX_SIZE_B
      then False else True)"

lemmas check_length_defs =
  check_der_signature_length_def check_ticker_length_def check_app_name_length_def

section \<open>The coin configuration\<close>

definition appnames_aliases :: "(u8 list \<times> u8 list) list" where
  "appnames_aliases =
     [(ascii ''Tezos'', ascii ''Tezos Wallet''),
      (ascii ''bsc'', ascii ''Binance Smart Chain''),
      (ascii ''Bsc'', ascii ''Binance Smart Chain'')]"

fun alias_app_name :: "(u8 list \<times> u8 list) list \<Rightarrow> buf_t \<Rightarrow> buf_t" where
  "alias_app_name [] application_name = application_name"
| "alias_app_name ((foreign_name, app_name) # aliases) application_name =
     (if cstrlen (foreign_name @ [0]) = unat (bsize application_name) \<and>
         strncmp_eq (buf_bytes application_name) (foreign_name @ [0]) (unat (bsize application_name))
      then \<lparr>bptr = Ptr (app_name @ [0]) 0, bsize = of_nat (cstrlen (app_name @ [0]))\<rparr>
      else alias_app_name aliases application_name)"

definition parse_coin_config :: "buf_t \<Rightarrow> (buf_t \<times> buf_t \<times> buf_t) option" where
  "parse_coin_config input =
     (case parse_to_sized_buffer (bptr input) (bsize input) 1 0 of
        None \<Rightarrow> None
      | Some (ticker, total_read) \<Rightarrow>
          if \<not> check_ticker_length ticker then None
          else case parse_to_sized_buffer (bptr input) (bsize input) 1 total_read of
            None \<Rightarrow> None
          | Some (application_name, total_read) \<Rightarrow>
              if \<not> check_app_name_length application_name then None
              else case parse_to_sized_buffer (bptr input) (bsize input) 1 total_read of
                None \<Rightarrow> None
              | Some (sub_configuration, total_read) \<Rightarrow>
                  if unat (bsize sub_configuration) > MAX_COIN_SUB_CONFIG_SIZE then None
                  else if bsize input \<noteq> total_read then None
                  else Some (ticker, alias_app_name appnames_aliases application_name,
                             sub_configuration))"

section \<open>The message of an address check\<close>

definition parse_der_signature :: "cptr \<Rightarrow> u16 \<Rightarrow> u16 \<Rightarrow> (buf_t \<times> u16) option" where
  "parse_der_signature in_buffer in_size offset =
     (if in_size < 3 then None
      else case parse_to_sized_buffer in_buffer in_size 1 (offset + 1) of
        None \<Rightarrow> None
      | Some (der, offset) \<Rightarrow>
          Some (\<lparr>bptr = ptr_sub (bptr der) 2, bsize = bsize der + 2\<rparr>, offset))"

definition parse_check_address_message ::
    "cptr \<Rightarrow> u16 \<Rightarrow> (buf_t \<times> buf_t \<times> buf_t) option" where
  "parse_check_address_message data_bytes data_size =
     (case parse_to_sized_buffer data_bytes data_size 1 0 of
        None \<Rightarrow> None
      | Some (config, read) \<Rightarrow>
          if bsize config < 1 then None
          else case parse_der_signature data_bytes data_size read of
            None \<Rightarrow> None
          | Some (der, read) \<Rightarrow>
              if \<not> check_der_signature_length der then None
              else case parse_to_sized_buffer data_bytes data_size 1 read of
                None \<Rightarrow> None
              | Some (address_parameters, read) \<Rightarrow>
                  if bsize address_parameters < 1 then None
                  else if data_size \<noteq> read then None
                  else Some (config, der, address_parameters))"

section \<open>Application names\<close>

text \<open>The specification of the renaming: by the whole name.\<close>

definition ledger_app_name :: "u8 list \<Rightarrow> u8 list" where
  "ledger_app_name a =
     (if a = ascii ''Tezos'' then ascii ''Tezos Wallet''
      else if a = ascii ''bsc'' \<or> a = ascii ''Bsc'' then ascii ''Binance Smart Chain''
      else a)"

lemma strncmp_eq_whole:
  assumes "length a = length f" and "0 \<notin> set f"
  shows "strncmp_eq a (f @ [0]) (length f) \<longleftrightarrow> a = f"
  using assms
proof (induction a f rule: list_induct2)
  case (Cons x xs y ys)
  then show ?case by (cases "x = 0") auto
qed simp

lemma cstrlen_literal: "0 \<notin> set f \<Longrightarrow> cstrlen (f @ [0]) = length f"
  by (simp add: cstrlen_def cstr_append_zero cstr_id)

lemma alias_entry:
  assumes "buf_ok b" and "0 \<notin> set f"
  shows "cstrlen (f @ [0]) = unat (bsize b) \<and> strncmp_eq (buf_bytes b) (f @ [0]) (unat (bsize b)) \<longleftrightarrow>
    buf_bytes b = f"
  using strncmp_eq_whole [OF _ assms(2), of "buf_bytes b"] assms
  by (auto simp: cstrlen_literal length_buf_bytes)

lemma buf_bytes_literal:
  "0 \<notin> set f \<Longrightarrow> length f < 65536 \<Longrightarrow>
   buf_bytes \<lparr>bptr = Ptr (f @ [0]) 0, bsize = of_nat (cstrlen (f @ [0]))\<rparr> = f"
  by (simp add: buf_bytes_def cstrlen_literal unat_of_nat_u16 mread_def)

lemma alias_app_name_eq:
  assumes "buf_ok b"
  shows "buf_bytes (alias_app_name appnames_aliases b) = ledger_app_name (buf_bytes b)"
proof -
  have nz: "0 \<notin> set (ascii ''Tezos'')" "0 \<notin> set (ascii ''Tezos Wallet'')" "0 \<notin> set (ascii ''bsc'')"
    "0 \<notin> set (ascii ''Bsc'')" "0 \<notin> set (ascii ''Binance Smart Chain'')"
    by code_simp+
  show ?thesis
    unfolding appnames_aliases_def alias_app_name.simps alias_entry [OF assms nz(1)]
      alias_entry [OF assms nz(3)] alias_entry [OF assms nz(4)] ledger_app_name_def
    by (simp add: buf_bytes_literal nz)
qed

section \<open>What the parsers accept\<close>

text \<open>The contracts of the reader of byte-sized fields, at an input \<open>p\<close> of \<open>n\<close> bytes.\<close>

lemmas sized1_sound = sized1_field.dec_sound
lemmas sized1_complete = sized1_field.dec_complete

lemma drop_at_end: "ptr_ok p (unat n) \<Longrightarrow> drop (unat n) (ptr_bytes p (unat n)) = []"
  by (simp add: length_ptr_bytes)

lemma bsize_length: "buf_ok b \<Longrightarrow> unat (bsize b) = length (buf_bytes b)"
  by (simp add: length_buf_bytes)

lemma length_enc_sized1 [simp]: "length (enc_sized1 x) = Suc (length x)"
  by (simp add: enc_sized1_def)

lemma buf_empty_iff: "buf_ok b \<Longrightarrow> bsize b = 0 \<longleftrightarrow> buf_bytes b = []"
  using length_buf_bytes [of b] by (metis length_0_conv unat_eq_zero)

lemma parse_coin_config_sound:
  assumes ok: "buf_ok input" and run: "parse_coin_config input = Some (t, a, s)"
  shows "\<exists>name. buf_bytes input = enc_sized1 (buf_bytes t) @ enc_sized1 name @ enc_sized1 (buf_bytes s) \<and>
      buf_bytes a = ledger_app_name name \<and> 1 \<le> length (buf_bytes t) \<and> length (buf_bytes t) \<le> 9 \<and>
      3 \<le> length name \<and> length name \<le> 32 \<and> length (buf_bytes s) \<le> 64"
proof -
  let ?p = "bptr input" and ?n = "bsize input"
  from run obtain a0 o1 o2 where
    r1: "parse_to_sized_buffer ?p ?n 1 0 = Some (t, o1)" and ct: "check_ticker_length t"
    and r2: "parse_to_sized_buffer ?p ?n 1 o1 = Some (a0, o2)" and ca: "check_app_name_length a0"
    and r3: "parse_to_sized_buffer ?p ?n 1 o2 = Some (s, ?n)"
    and cs: "unat (bsize s) \<le> MAX_COIN_SUB_CONFIG_SIZE" and a: "a = alias_app_name appnames_aliases a0"
    by (auto simp: parse_coin_config_def split: option.splits if_splits)
  have p: "ptr_ok ?p (unat ?n)" using ok by (simp add: buf_ok_def)
  note s1 = sized1_sound [OF p _ r1, simplified]
  note s2 = sized1_sound [OF p s1(4) r2]
  note s3 = sized1_sound [OF p s2(4) r3]
  have "buf_bytes input = enc_sized1 (buf_bytes t) @ enc_sized1 (buf_bytes a0) @ enc_sized1 (buf_bytes s)"
    using s1(2) s2(2) s3(2) drop_at_end [OF p] by (simp add: buf_bytes_def)
  with ct ca cs a s1(5) s2(5) s3(5) show ?thesis
    by (intro exI [of _ "buf_bytes a0"])
      (simp add: check_length_defs size_defs bsize_length alias_app_name_eq split: if_splits)
qed

lemma parse_coin_config_complete:
  assumes ok: "buf_ok input"
    and bytes: "buf_bytes input = enc_sized1 ticker @ enc_sized1 name @ enc_sized1 sub"
    and len: "1 \<le> length ticker" "length ticker \<le> 9" "3 \<le> length name" "length name \<le> 32" "length sub \<le> 64"
  shows "\<exists>t a s. parse_coin_config input = Some (t, a, s) \<and> buf_bytes t = ticker \<and>
      buf_bytes a = ledger_app_name name \<and> buf_bytes s = sub"
proof -
  let ?p = "bptr input" and ?n = "bsize input"
  have p: "ptr_ok ?p (unat ?n)" using ok by (simp add: buf_ok_def)
  have w: "ptr_bytes ?p (unat ?n) = enc_sized1 ticker @ enc_sized1 name @ enc_sized1 sub"
    using bytes by (simp add: buf_bytes_def)
  have n: "unat ?n = Suc (length ticker) + Suc (length name) + Suc (length sub)"
    using length_ptr_bytes [OF p] w by simp
  obtain t o1 where r1: "parse_to_sized_buffer ?p ?n 1 0 = Some (t, o1)" "buf_bytes t = ticker"
      "unat o1 = Suc (length ticker)"
    using sized1_complete [OF p, of 0 ticker "enc_sized1 name @ enc_sized1 sub"] w len by auto
  obtain a0 o2 where r2: "parse_to_sized_buffer ?p ?n 1 o1 = Some (a0, o2)" "buf_bytes a0 = name"
      "unat o2 = Suc (length ticker) + Suc (length name)"
    using sized1_complete [OF p, of o1 name "enc_sized1 sub"] w len r1 n by auto
  obtain s o3 where r3: "parse_to_sized_buffer ?p ?n 1 o2 = Some (s, o3)" "buf_bytes s = sub"
      "unat o3 = Suc (length ticker) + Suc (length name) + Suc (length sub)"
    using sized1_complete [OF p, of o2 sub "[]"] w len r2 n by auto
  have oks: "buf_ok t" "buf_ok a0" "buf_ok s"
    using sized1_sound(5) [OF p _ r1(1)] sized1_sound(5) [OF p _ r2(1)] sized1_sound(5) [OF p _ r3(1)]
      r1(3) r2(3) n by auto
  have "?n = o3" using n r3(3) by (simp add: word_unat_eq_iff)
  with r1 r2 r3 oks len show ?thesis
    by (simp add: parse_coin_config_def check_length_defs size_defs bsize_length alias_app_name_eq)
qed

lemma der_buffer:
  assumes p: "ptr_ok p (unat n)" and o: "unat o1 + 1 < unat n"
    and r: "parse_to_sized_buffer p n 1 (o1 + 1) = Some (b, o2)" "bsize b \<noteq> 0"
  shows "bptr b = ptr_add p (unat o1 + 2)"
proof -
  have "unat (o1 + 1) = unat o1 + 1" "unat (o1 + 1 + 1) = unat o1 + 2"
    using o unat_u16_less [of n] by (simp_all add: unat_word_ariths)
  with r show ?thesis
    by (auto simp: parse_to_sized_buffer_def Let_def split: if_splits)
qed

lemma ptr_sub_add: "ptr_sub (ptr_add p (Suc (Suc k))) 2 = ptr_add p k"
  by (cases p) auto

text \<open>What \<open>parse_der_signature\<close> reads: any byte, a size and that many bytes.\<close>

lemma parse_der_signature_sound:
  assumes p: "ptr_ok p (unat n)" and n: "unat n < 65535" and o: "unat o1 \<le> unat n"
    and run: "parse_der_signature p n o1 = Some (d, o2)" and len: "check_der_signature_length d"
  shows "\<exists>b body. drop (unat o1) (ptr_bytes p (unat n)) = (b # enc_sized1 body) @ drop (unat o2) (ptr_bytes p (unat n)) \<and>
    buf_bytes d = b # enc_sized1 body \<and> length body < 256 \<and> buf_ok d \<and> unat o2 \<le> unat n"
proof -
  let ?w = "ptr_bytes p (unat n)"
  from run obtain c where r: "parse_to_sized_buffer p n 1 (o1 + 1) = Some (c, o2)"
    and d: "d = \<lparr>bptr = ptr_sub (bptr c) 2, bsize = bsize c + 2\<rparr>"
    by (auto simp: parse_der_signature_def split: option.splits if_splits)
  have o1: "unat (o1 + 1) = unat o1 + 1"
    using o n by (simp add: unat_word_ariths)
  with r have o1n: "unat o1 + 2 \<le> unat n"
    by (auto simp: parse_to_sized_buffer_def split: if_splits)
  have "unat (o1 + 1) \<le> unat n" using o1 o1n by simp
  note s = sized1_sound [OF p this r]
  have c: "length (buf_bytes c) = unat (bsize c)" by (simp add: length_buf_bytes s(5))
  have size_d: "unat (bsize d) = unat (bsize c) + 2"
    using s(1) c d by (simp add: unat_word_ariths)
  with len have c0: "bsize c \<noteq> 0"
    by (auto simp: check_length_defs size_defs split: if_splits)
  have "bptr c = ptr_add p (unat o1 + 2)"
    using der_buffer [OF p _ r c0] o1n by simp
  with d have bptr: "bptr d = ptr_add p (unat o1)" by (simp add: ptr_sub_add)
  have w: "drop (unat o1) ?w = (ptr_read p (unat o1) # enc_sized1 (buf_bytes c)) @ drop (unat o2) ?w"
    using drop_ptr_bytes_read [OF p, of "unat o1"] s(2) o1 o1n by simp
  have room: "unat o1 + unat (bsize d) \<le> unat n"
    using s(3,4) o1 size_d c by simp
  then have "buf_bytes d = take (unat (bsize d)) (drop (unat o1) ?w)" and "buf_ok d"
    using ptr_bytes_add [OF p, of "unat o1" "unat (bsize d)"] ptr_ok_add [OF p, of "unat o1" "unat (bsize d)"]
    by (auto simp: buf_bytes_def buf_ok_def bptr mread_def)
  then have "buf_bytes d = ptr_read p (unat o1) # enc_sized1 (buf_bytes c)"
    using w size_d c by simp
  with w s(1,4) \<open>buf_ok d\<close> show ?thesis by blast
qed

lemma parse_der_signature_complete:
  assumes p: "ptr_ok p (unat n)" and n: "unat n < 65535" and o: "unat o1 \<le> unat n"
    and w: "drop (unat o1) (ptr_bytes p (unat n)) = (b # enc_sized1 body) @ ys" and len: "65 \<le> length body" "length body < 256"
  shows "\<exists>d o2. parse_der_signature p n o1 = Some (d, o2) \<and> buf_bytes d = b # enc_sized1 body \<and>
    unat o2 = unat o1 + length body + 2 \<and> unat (bsize d) = length body + 2"
proof -
  have o1: "unat (o1 + 1) = unat o1 + 1"
    using o n by (simp add: unat_word_ariths)
  have total: "unat o1 + length body + 2 + length ys = unat n"
    using arg_cong [OF w, of length] len o length_ptr_bytes [OF p] by simp
  have w1: "drop (unat (o1 + 1)) (ptr_bytes p (unat n)) = enc_sized1 body @ ys"
    using arg_cong [OF w, of "drop 1"] o1 by simp
  have "unat (o1 + 1) \<le> unat n" using o1 total by simp
  from sized1_complete [OF p this len(2) w1] obtain c o2
    where r: "parse_to_sized_buffer p n 1 (o1 + 1) = Some (c, o2)" and c: "buf_bytes c = body"
      and o2: "unat o2 = unat o1 + length body + 2"
    using o1 by auto
  have okc: "buf_ok c" using sized1_sound(5) [OF p _ r] o1 total by simp
  then have sc: "unat (bsize c) = length body" using c by (simp add: bsize_length)
  with len have c0: "bsize c \<noteq> 0" by auto
  let ?d = "\<lparr>bptr = ptr_sub (bptr c) 2, bsize = bsize c + 2\<rparr>"
  have run: "parse_der_signature p n o1 = Some (?d, o2)"
    using r total len by (simp add: parse_der_signature_def word_less_nat_alt)
  have size_d: "unat (bsize ?d) = length body + 2"
    using sc len by (simp add: unat_word_ariths)
  have "bptr c = ptr_add p (unat o1 + 2)"
    using der_buffer [OF p _ r c0] total len by simp
  then have "buf_bytes ?d = take (length body + 2) (drop (unat o1) (ptr_bytes p (unat n)))"
    using size_d ptr_bytes_add [OF p, of "unat o1" "length body + 2"] total
    by (simp add: buf_bytes_def ptr_sub_add mread_def)
  then have "buf_bytes ?d = b # enc_sized1 body" using w by simp
  with run size_d o2 show ?thesis by blast
qed

lemma parse_check_address_message_sound:
  assumes p: "ptr_ok p (unat n)" and n: "unat n < 65535"
    and run: "parse_check_address_message p n = Some (config, der, params)"
  shows "\<exists>b body. ptr_bytes p (unat n) =
      enc_sized1 (buf_bytes config) @ (b # enc_sized1 body) @ enc_sized1 (buf_bytes params) \<and>
      buf_bytes der = b # enc_sized1 body \<and> 65 \<le> length body \<and> length body \<le> 71 \<and>
      1 \<le> length (buf_bytes config) \<and> length (buf_bytes config) < 256 \<and>
      1 \<le> length (buf_bytes params) \<and> length (buf_bytes params) < 256 \<and>
      buf_ok config \<and> buf_ok der \<and> buf_ok params"
proof -
  from run obtain o1 o2 where
    r1: "parse_to_sized_buffer p n 1 0 = Some (config, o1)" and c1: "\<not> bsize config < 1"
    and r2: "parse_der_signature p n o1 = Some (der, o2)" and c2: "check_der_signature_length der"
    and r3: "parse_to_sized_buffer p n 1 o2 = Some (params, n)" and c3: "\<not> bsize params < 1"
    by (auto simp: parse_check_address_message_def split: option.splits if_splits)
  note s1 = sized1_sound [OF p _ r1, simplified]
  from parse_der_signature_sound [OF p n s1(4) r2 c2] obtain b body where
    w2: "drop (unat o1) (ptr_bytes p (unat n)) = (b # enc_sized1 body) @ drop (unat o2) (ptr_bytes p (unat n))"
    and d: "buf_bytes der = b # enc_sized1 body" "length body < 256" "buf_ok der" "unat o2 \<le> unat n"
    by blast
  note s3 = sized1_sound [OF p d(4) r3]
  have "ptr_bytes p (unat n) =
      enc_sized1 (buf_bytes config) @ (b # enc_sized1 body) @ enc_sized1 (buf_bytes params)"
    using s1(2) w2 s3(2) drop_at_end [OF p] by simp
  moreover have "65 \<le> length body" "length body \<le> 71"
    using c2 d bsize_length [OF d(3)]
    by (auto simp: check_length_defs size_defs split: if_splits)
  ultimately show ?thesis
    using c1 c3 s1(1,5) s3(1,5) d
    by (intro exI [of _ b] exI [of _ body]) (simp add: buf_empty_iff)
qed

lemma parse_check_address_message_complete:
  assumes p: "ptr_ok p (unat n)" and n: "unat n < 65535"
    and w: "ptr_bytes p (unat n) = enc_sized1 c @ (b # enc_sized1 body) @ enc_sized1 a"
    and len: "1 \<le> length c" "length c < 256" "65 \<le> length body" "length body \<le> 71"
      "1 \<le> length a" "length a < 256"
  shows "\<exists>config der params. parse_check_address_message p n = Some (config, der, params) \<and>
    buf_bytes config = c \<and> buf_bytes der = b # enc_sized1 body \<and> buf_bytes params = a"
proof -
  have total: "unat n = Suc (length c) + (length body + 2) + Suc (length a)"
    using length_ptr_bytes [OF p] w by simp
  obtain config o1 where r1: "parse_to_sized_buffer p n 1 0 = Some (config, o1)" "buf_bytes config = c"
      "unat o1 = Suc (length c)"
    using sized1_complete [OF p, of 0 c "(b # enc_sized1 body) @ enc_sized1 a"] w len by auto
  obtain der o2 where r2: "parse_der_signature p n o1 = Some (der, o2)"
      "buf_bytes der = b # enc_sized1 body" "unat o2 = Suc (length c) + (length body + 2)"
      "unat (bsize der) = length body + 2"
    using parse_der_signature_complete [OF p n, of o1 b body "enc_sized1 a"] w len r1 total by auto
  obtain params o3 where r3: "parse_to_sized_buffer p n 1 o2 = Some (params, o3)" "buf_bytes params = a"
      "unat o3 = Suc (length c) + (length body + 2) + Suc (length a)"
    using sized1_complete [OF p, of o2 a "[]"] w len r2 total by auto
  have "buf_ok config" "buf_ok params"
    using sized1_sound(5) [OF p _ r1(1)] sized1_sound(5) [OF p _ r3(1)] r2(3) total by auto
  moreover have "n = o3" using total r3(3) by (simp add: word_unat_eq_iff)
  ultimately show ?thesis
    using r1 r2 r3 len
    by (simp add: parse_check_address_message_def check_length_defs size_defs buf_empty_iff bsize_length)
qed

section \<open>Properties\<close>

text \<open>
  C28: \<open>parse_coin_config\<close> accepts exactly the coin configurations: on an input buffer it
  returns a ticker \<open>T\<close>, an application name \<open>A\<close> and a sub configuration \<open>C\<close> if and only if the
  whole input is \<open>|T|, T, |N|, N, |C|, C\<close> with 1 to 9 bytes of ticker, a name \<open>N\<close> of 3 to 32 bytes
  that Ledger calls \<open>A\<close>, and at most 64 bytes of sub configuration.
\<close>

theorem parse_coin_config_iff:
  assumes "buf_ok input"
  shows "(\<exists>t a s. parse_coin_config input = Some (t, a, s) \<and>
            buf_bytes t = T \<and> buf_bytes a = A \<and> buf_bytes s = C) \<longleftrightarrow>
         (\<exists>N. buf_bytes input = enc_sized1 T @ enc_sized1 N @ enc_sized1 C \<and> A = ledger_app_name N \<and>
            1 \<le> length T \<and> length T \<le> 9 \<and> 3 \<le> length N \<and> length N \<le> 32 \<and> length C \<le> 64)"
  using parse_coin_config_sound [OF assms] parse_coin_config_complete [OF assms] by metis

text \<open>
  \<open>parse_check_address_message\<close> accepts exactly its messages: it returns a configuration, a
  signature and address parameters if and only if the whole payload is a non-empty length-prefixed
  configuration, the signature (one byte, a length, and that many bytes: 67 to 73 in all, prefix
  included in what is returned) and non-empty length-prefixed parameters.
\<close>

theorem parse_check_address_message_iff:
  assumes "ptr_ok p (unat n)" and "unat n < 65535"
  shows "(\<exists>config der params. parse_check_address_message p n = Some (config, der, params) \<and>
            buf_bytes config = c \<and> buf_bytes der = d \<and> buf_bytes params = a) \<longleftrightarrow>
         (ptr_bytes p (unat n) = enc_sized1 c @ d @ enc_sized1 a \<and>
            1 \<le> length c \<and> length c < 256 \<and> 1 \<le> length a \<and> length a < 256 \<and>
            67 \<le> length d \<and> length d \<le> 73 \<and> (\<exists>b body. d = b # enc_sized1 body))"
    (is "?parsed \<longleftrightarrow> ?message")
proof
  assume ?parsed
  then show ?message
    using parse_check_address_message_sound [OF assms] by fastforce
next
  assume message: ?message
  then obtain b body where d: "d = b # enc_sized1 body" "65 \<le> length body" "length body \<le> 71" by auto
  with message show ?parsed
    using parse_check_address_message_complete [OF assms, of c b body a] by metis
qed

theorem parse_coin_config_iff_witness:
  "\<exists>t a s. parse_coin_config
       \<lparr>bptr = Ptr (9 # ascii [CHR 3, CHR ''X'', CHR ''T'', CHR ''Z'', CHR 5] @ ascii ''Tezos'' @ [0]) 1,
        bsize = 11\<rparr> = Some (t, a, s) \<and>
     buf_bytes t = ascii ''XTZ'' \<and> buf_bytes a = ascii ''Tezos Wallet'' \<and> buf_bytes s = []"
proof -
  let ?input = "\<lparr>bptr = Ptr (9 # ascii [CHR 3, CHR ''X'', CHR ''T'', CHR ''Z'', CHR 5] @ ascii ''Tezos'' @ [0]) 1,
      bsize = 11\<rparr>"
  have ok: "buf_ok ?input" by code_simp
  have "buf_bytes ?input = enc_sized1 (ascii ''XTZ'') @ enc_sized1 (ascii ''Tezos'') @ enc_sized1 []"
    by code_simp
  then show ?thesis
    unfolding parse_coin_config_iff [OF ok]
    by (intro exI [of _ "ascii ''Tezos''"]) (simp add: ledger_app_name_def)
qed

text \<open>A small message: a one-byte configuration, a 67-byte signature, one byte of parameters.\<close>

definition sample_message :: mem where
  "sample_message = [1, 7, 0x30, 65] @ replicate 65 2 @ [1, 9]"

theorem parse_check_address_message_iff_witness:
  "\<exists>config der params. parse_check_address_message (Ptr sample_message 0) 71 = Some (config, der, params) \<and>
     buf_bytes config = [7] \<and> buf_bytes der = [0x30, 65] @ replicate 65 2 \<and> buf_bytes params = [9]"
proof -
  have ok: "ptr_ok (Ptr sample_message 0) (unat (71 :: u16))" "unat (71 :: u16) < 65535"
    by (simp_all add: sample_message_def)
  have bytes: "ptr_bytes (Ptr sample_message 0) (unat (71 :: u16)) =
      enc_sized1 [7] @ ([0x30, 65] @ replicate 65 2) @ enc_sized1 [9]"
    by code_simp
  have sig: "[0x30, 65] @ replicate 65 2 = 0x30 # enc_sized1 (replicate 65 2)"
    by code_simp
  then have "\<exists>b body. [0x30, 65] @ replicate 65 2 = b # enc_sized1 body" by blast
  then show ?thesis
    unfolding parse_check_address_message_iff [OF ok] bytes by simp
qed

end
