(* ===== verification/Tickers.thy ===== *)
theory Tickers
  imports Commands Buf
begin

text \<open>
  \<^verbatim>\<open>src/ticker_normalization.c\<close>: the tickers of transactions and coin configurations are
  compared after conversion to upper case and to Ledger's names. \<open>ledger_ticker\<close> is the
  specification: a function of the C string alone, whatever buffer holds it.
\<close>

section \<open>The code\<close>

definition currencies_aliases :: "(u8 list \<times> u8 list) list" where
  "currencies_aliases = [(ascii ''USDT20'', ascii ''USDT''), (ascii ''REP'', ascii ''REPv2'')]"

text \<open>The loop of \<open>to_uppercase\<close>: at most \<open>sz\<close> characters, and none from the first zero on.\<close>

fun to_uppercase_loop :: "mem \<Rightarrow> nat \<Rightarrow> mem" where
  "to_uppercase_loop (c # str) (Suc sz) =
     (if c \<noteq> 0
      then (if c \<ge> 0x61 \<and> c \<le> 0x7A then c - (0x61 - 0x41) else c) # to_uppercase_loop str sz
      else c # str)"
| "to_uppercase_loop str sz = str"

definition to_uppercase :: "mem \<Rightarrow> u8 \<Rightarrow> mem" where
  "to_uppercase str sz = to_uppercase_loop str (unat sz)"

fun set_ledger_currency_name_loop :: "(u8 list \<times> u8 list) list \<Rightarrow> mem \<Rightarrow> nat \<Rightarrow> mem" where
  "set_ledger_currency_name_loop [] currency currency_size = currency"
| "set_ledger_currency_name_loop ((foreign_name, ledger_name) # aliases) currency currency_size =
     (if strncmp_eq currency (foreign_name @ [0]) (cstrlen (foreign_name @ [0]))
      then strlcpy currency (ledger_name @ [0]) currency_size
      else set_ledger_currency_name_loop aliases currency currency_size)"

definition set_ledger_currency_name :: "mem \<Rightarrow> nat \<Rightarrow> mem" where
  "set_ledger_currency_name currency currency_size =
     set_ledger_currency_name_loop currencies_aliases currency currency_size"

text \<open>
  \<open>init\<close> is what the stack holds where \<open>normalized_ticker_name\<close> is allocated; the verdict is
  shown below not to depend on it. The first comparison of the C function only traces.
\<close>

definition check_matching_ticker_from :: "mem \<Rightarrow> buf_t \<Rightarrow> u8 list \<Rightarrow> bool" where
  "check_matching_ticker_from init ticker reference_ticker =
     (let name = mwrite 0 (buf_bytes ticker) init;
          name = name[unat (bsize ticker) := 0];
          name = to_uppercase name (ucast (bsize ticker));
          name = set_ledger_currency_name name (TICKER_MAX_SIZE_B + 1);
          len = (of_nat (cstrlen name) :: u8)
      in if cstrlen reference_ticker \<noteq> unat len \<or> \<not> strncmp_eq reference_ticker name (unat len)
         then False else True)"

definition check_matching_ticker :: "buf_t \<Rightarrow> u8 list \<Rightarrow> bool" where
  "check_matching_ticker ticker reference_ticker =
     check_matching_ticker_from (replicate (TICKER_MAX_SIZE_B + 1) 0) ticker reference_ticker"

section \<open>The specification\<close>

definition upper_char :: "u8 \<Rightarrow> u8" where
  "upper_char c = (if c \<ge> 0x61 \<and> c \<le> 0x7A then c - 0x20 else c)"

definition ledger_ticker :: "u8 list \<Rightarrow> u8 list" where
  "ledger_ticker t =
     (let u = map upper_char t in
      if take 6 u = ascii ''USDT20'' then ascii ''USDT''
      else if take 3 u = ascii ''REP'' then ascii ''REPv2''
      else u)"

section \<open>The code computes it\<close>

lemma upper_char_zero: "upper_char c = 0 \<longleftrightarrow> c = 0"
proof
  assume h: "upper_char c = 0"
  show "c = 0"
  proof (rule ccontr)
    assume "c \<noteq> 0"
    with h have "c \<ge> 0x61" "c - 0x20 = 0" by (auto simp: upper_char_def split: if_splits)
    then show False by (auto simp: word_le_nat_alt)
  qed
qed (simp add: upper_char_def word_le_nat_alt)

lemma to_uppercase_loop_eq:
  "to_uppercase_loop str n = map upper_char (take n (cstr str)) @ drop (min n (cstrlen str)) str"
  by (induction str n rule: to_uppercase_loop.induct) (auto simp: upper_char_def cstrlen_def)

lemma length_to_uppercase_loop [simp]: "length (to_uppercase_loop str n) = length str"
  by (induction str n rule: to_uppercase_loop.induct) auto

lemma cstr_map_upper: "0 \<notin> set xs \<Longrightarrow> 0 \<notin> set (map upper_char xs)"
  by (auto simp: upper_char_zero)

lemma cstr_to_uppercase_loop:
  "cstrlen str \<le> n \<Longrightarrow> cstr (to_uppercase_loop str n) = map upper_char (cstr str)"
  by (induction str n rule: to_uppercase_loop.induct)
    (auto simp: upper_char_def upper_char_zero [unfolded upper_char_def] cstrlen_def)

lemma strncmp_eq_prefix:
  "0 \<notin> set f \<Longrightarrow> strncmp_eq m (f @ [0]) (cstrlen (f @ [0])) \<longleftrightarrow> take (length f) (cstr m) = f"
  by (simp add: strncmp_eq_cstr cstrlen_def cstr_append_zero cstr_id)

lemma cstr_strlcpy:
  "length src < n \<Longrightarrow> 0 \<notin> set src \<Longrightarrow> cstr (strlcpy dst (src @ [0]) n) = src"
  by (simp add: strlcpy_def mwrite_def cstr_append_zero cstr_id cstr_append_no_zero)

lemma length_strlcpy:
  "n \<le> length dst \<Longrightarrow> length (strlcpy dst src n) = length dst"
  by (auto simp: strlcpy_def length_mwrite)

lemma cstr_set_ledger_currency_name:
  assumes "6 \<le> n"
  shows "cstr (set_ledger_currency_name m n) =
    (if take 6 (cstr m) = ascii ''USDT20'' then ascii ''USDT''
     else if take 3 (cstr m) = ascii ''REP'' then ascii ''REPv2'' else cstr m)"
proof -
  have nz: "0 \<notin> set (ascii ''USDT20'')" "0 \<notin> set (ascii ''USDT'')" "0 \<notin> set (ascii ''REP'')"
    "0 \<notin> set (ascii ''REPv2'')" by code_simp+
  have prefixes: "strncmp_eq m (ascii ''USDT20'' @ [0]) (cstrlen (ascii ''USDT20'' @ [0])) \<longleftrightarrow>
        take 6 (cstr m) = ascii ''USDT20''"
      "strncmp_eq m (ascii ''REP'' @ [0]) (cstrlen (ascii ''REP'' @ [0])) \<longleftrightarrow> take 3 (cstr m) = ascii ''REP''"
    using strncmp_eq_prefix [OF nz(1), of m] strncmp_eq_prefix [OF nz(3), of m]
    by (simp_all add: eval_nat_numeral)
  show ?thesis
    using assms
    by (simp add: set_ledger_currency_name_def currencies_aliases_def prefixes nz cstr_strlcpy)
qed

lemma length_set_ledger_currency_name:
  "n \<le> length m \<Longrightarrow> length (set_ledger_currency_name m n) = length m"
  by (simp add: set_ledger_currency_name_def currencies_aliases_def length_strlcpy)

lemma normalized_ticker:
  assumes "cstrlen m \<le> unat k" and "6 \<le> n"
  shows "cstr (set_ledger_currency_name (to_uppercase m k) n) = ledger_ticker (cstr m)"
  using assms
  by (simp add: cstr_set_ledger_currency_name to_uppercase_def cstr_to_uppercase_loop ledger_ticker_def Let_def)

lemma length_ledger_ticker: "length (ledger_ticker t) \<le> max 5 (length t)"
  by (simp add: ledger_ticker_def Let_def le_max_iff_disj)

lemma strncmp_whole:
  "cstrlen a = cstrlen b \<Longrightarrow> strncmp_eq a b (cstrlen b) \<longleftrightarrow> cstr a = cstr b"
  by (simp add: strncmp_eq_cstr cstrlen_def)

lemma check_matching_ticker_eq:
  assumes "buf_ok ticker" and "unat (bsize ticker) \<le> 9" and "length init = 10"
  shows "check_matching_ticker_from init ticker reference \<longleftrightarrow>
    cstr reference = ledger_ticker (cstr (buf_bytes ticker))"
proof -
  let ?n = "unat (bsize ticker)"
  let ?m = "(mwrite 0 (buf_bytes ticker) init)[?n := 0]"
  have len: "length (buf_bytes ticker) = ?n" using assms by (simp add: length_buf_bytes)
  have m: "?m = buf_bytes ticker @ 0 # drop (Suc ?n) init"
    using assms len Cons_nth_drop_Suc [of ?n init, symmetric]
    by (simp add: mwrite_def list_update_append)
  have c: "cstr ?m = cstr (buf_bytes ticker)"
    by (simp add: m cstr_append_zero)
  have small: "unat (ucast (bsize ticker) :: u8) = ?n"
    using assms by (simp add: unsigned_ucast_eq take_bit_nat_eq_self_iff)
  let ?name = "set_ledger_currency_name (to_uppercase ?m (ucast (bsize ticker))) (TICKER_MAX_SIZE_B + 1)"
  have "cstrlen ?m \<le> ?n" using cstrlen_le [of "buf_bytes ticker"] len c by (simp add: cstrlen_def)
  then have name: "cstr ?name = ledger_ticker (cstr (buf_bytes ticker))"
    using normalized_ticker [of ?m "ucast (bsize ticker)" "TICKER_MAX_SIZE_B + 1"] small c
    by (simp add: TICKER_MAX_SIZE_B_def)
  have "cstrlen ?name \<le> 9"
    using length_ledger_ticker [of "cstr (buf_bytes ticker)"] cstrlen_le [of "buf_bytes ticker"] len assms name
    by (simp add: cstrlen_def)
  then have u: "unat (of_nat (cstrlen ?name) :: u8) = cstrlen ?name"
    by (simp add: unat_of_nat_u8)
  show ?thesis
    unfolding check_matching_ticker_from_def Let_def u name [symmetric]
    using strncmp_whole [of reference ?name] by (auto simp: cstrlen_def)
qed

section \<open>Properties\<close>

text \<open>
  C29: a coin configuration is accepted for a transaction exactly when their currencies are the
  same for Ledger: with the transaction's currency field normalised as \<open>normalize_currencies\<close> does,
  \<open>check_matching_ticker\<close> answers true if and only if the two tickers, read as C strings, have the
  same upper-case Ledger name; whatever the stack held in its local buffer.
\<close>

theorem check_matching_ticker_iff:
  assumes "buf_ok ticker" and "unat (bsize ticker) \<le> TICKER_MAX_SIZE_B"
    and "length init = TICKER_MAX_SIZE_B + 1"
    and "cstrlen currency \<le> unat k" and "6 \<le> n"
  shows "check_matching_ticker_from init ticker (set_ledger_currency_name (to_uppercase currency k) n) \<longleftrightarrow>
    ledger_ticker (cstr currency) = ledger_ticker (cstr (buf_bytes ticker))"
  using check_matching_ticker_eq [of ticker init] normalized_ticker [of currency k n] assms
  by (simp add: TICKER_MAX_SIZE_B_def)

theorem check_matching_ticker_iff_witness:
  "check_matching_ticker_from (replicate 10 7) \<lparr>bptr = Ptr (ascii ''usdt'') 0, bsize = 4\<rparr>
     (set_ledger_currency_name (to_uppercase (ascii ''usdt20'' @ [0, 0, 0, 0]) 10) 10)"
proof -
  let ?t = "\<lparr>bptr = Ptr (ascii ''usdt'') 0, bsize = 4\<rparr>"
  have ok: "buf_ok ?t" "unat (bsize ?t) \<le> TICKER_MAX_SIZE_B" "length (replicate 10 7 :: mem) = TICKER_MAX_SIZE_B + 1"
    "cstrlen (ascii ''usdt20'' @ [0, 0, 0, 0]) \<le> unat (10 :: u8)" "6 \<le> (10 :: nat)"
    by code_simp+
  have "ledger_ticker (cstr (ascii ''usdt20'' @ [0, 0, 0, 0])) = ledger_ticker (cstr (buf_bytes ?t))"
    by code_simp
  then show ?thesis using check_matching_ticker_iff [OF ok] by simp
qed

text \<open>The renaming goes by prefix: every ticker that starts like an alias is taken for it.\<close>

lemma renaming_by_prefix:
  "ledger_ticker (ascii ''REPUBLIC'') = ascii ''REPv2''"
  "ledger_ticker (ascii ''USDT20X'') = ascii ''USDT''"
  by code_simp+

end
