(* ===== verification/Printable_Amount.thy ===== *)
theory Printable_Amount
  imports Prelude "HOL-Library.Signed_Division"
begin

text \<open>
  \<^verbatim>\<open>src/printable_amount.c\<close>: the text of the fiat amount of a SELL. The amount is read into
  64 bits, converted to decimal as a signed number and a point is put before its last
  \<open>decimals\<close> digits. \<open>fiat_text\<close> is the text a reader expects and \<open>read_fiat\<close> reads a text
  back; the property says for exactly which amounts the code prints it.
\<close>

section \<open>The code\<close>

definition uint64_from_BEarray :: "u8 list \<Rightarrow> u64" where
  "uint64_from_BEarray data = foldl (\<lambda>result b. push_bit 8 result + ucast b) 0 data"

text \<open>The digits in the order the loop stores them in \<open>temp\<close>, least significant first.\<close>

function int64_digits :: "int \<Rightarrow> int \<Rightarrow> u8 list" where
  "int64_digits sign num =
     (if num \<noteq> 0 then of_int (48 + (num smod 10) * sign) # int64_digits sign (num sdiv 10) else [])"
  by pat_completeness auto
termination
  by (relation "measure (\<lambda>(sign, num). nat \<bar>num\<bar>)")
    (auto simp: signed_divide_int_def abs_mult sgn_if)

declare int64_digits.simps [simp del]

definition int64_to_str :: "mem \<Rightarrow> nat \<Rightarrow> int \<Rightarrow> int \<times> mem" where
  "int64_to_str data sz number =
     (let sign = (if number < 0 then -1 else 1);
          temp = int64_digits sign number;
          temp = (if number < 0 then temp @ ascii ''-''
                  else if number = 0 then temp @ ascii ''0'' else temp);
          distance = length temp + 1
      in if sz < distance then (-1, data)
         else (0, mwrite 0 (rev temp @ [0]) data))"

text \<open>
  \<open>dst\<close> is the destination from the pointer on; the signed view of \<open>value\<close> is what the call
  converts. The contents of the local \<open>buffer\<close> before the call do not matter: they are zeros here.
\<close>

definition fpuint64_to_str :: "mem \<Rightarrow> nat \<Rightarrow> u64 \<Rightarrow> u8 \<Rightarrow> int \<times> mem" where
  "fpuint64_to_str dst sz value decimals =
     (let (ret, buffer) = int64_to_str (replicate 30 0) 30 (sint value) in
      if ret < 0 then (-1, dst)
      else
        let digits = cstrlen buffer; decimals = unat decimals in
        if digits \<le> decimals then
          if sz \<le> 2 + decimals - digits then (-1, dst)
          else
            let dst = mwrite 0 (ascii ''0.'' @ replicate (decimals - digits) 0x30) dst;
                k = 2 + decimals - digits
            in (0, mwrite k (strncpy (drop k dst) buffer (sz - k)) dst)
        else
          if sz \<le> digits + 1 + decimals then (-1, dst)
          else
            let shift = digits - decimals;
                dst = mwrite 0 (take shift buffer) dst;
                dst = mwrite shift (ascii ''.'') dst
            in (0, mwrite (shift + 1) (strncpy (drop (shift + 1) dst) (drop shift buffer) decimals) dst))"

definition get_fiat_printable_amount :: "u8 list \<Rightarrow> u32 \<Rightarrow> mem \<Rightarrow> nat \<Rightarrow> int \<times> mem" where
  "get_fiat_printable_amount amount_be exponent printable_amount printable_amount_len =
     (let amount = uint64_from_BEarray amount_be
      in fpuint64_to_str printable_amount printable_amount_len amount (ucast exponent))"

section \<open>The specification\<close>

definition digit_char :: "nat \<Rightarrow> u8" where
  "digit_char k = of_nat (48 + k)"

function decimal :: "nat \<Rightarrow> u8 list" where
  "decimal n = (if n < 10 then [digit_char n] else decimal (n div 10) @ [digit_char (n mod 10)])"
  by pat_completeness auto
termination
  by (relation "measure id") auto

declare decimal.simps [simp del]

text \<open>A text with a point before its last \<open>d\<close> characters, and zeros before it when it is too short.\<close>

definition with_point :: "u8 list \<Rightarrow> nat \<Rightarrow> u8 list" where
  "with_point s d =
     (if length s \<le> d then ascii ''0.'' @ replicate (d - length s) 0x30 @ s
      else take (length s - d) s @ ascii ''.'' @ drop (length s - d) s)"

definition fiat_text :: "nat \<Rightarrow> nat \<Rightarrow> u8 list" where
  "fiat_text v d = with_point (decimal v) d"

text \<open>
  Reading a text: the number its digits make, and how many follow the point; nothing is read from a
  text that has other characters, as a sign.
\<close>

definition digits_value :: "u8 list \<Rightarrow> nat" where
  "digits_value xs = foldl (\<lambda>acc c. 10 * acc + (unat c - 48)) 0 xs"

definition digit :: "u8 \<Rightarrow> bool" where
  "digit c \<longleftrightarrow> 48 \<le> unat c \<and> unat c < 58"

definition read_fiat :: "u8 list \<Rightarrow> (nat \<times> nat) option" where
  "read_fiat t =
     (let whole = takeWhile (\<lambda>c. c \<noteq> 0x2E) t; frac = drop (length whole + 1) t
      in if list_all digit (whole @ frac) then Some (digits_value (whole @ frac), length frac) else None)"

section \<open>The conversions\<close>

lemma uint64_from_BEarray_eq: "unat (uint64_from_BEarray data) = be_value data mod 2 ^ 64"
proof -
  have "unat (foldl (\<lambda>result b. push_bit 8 result + ucast b) a data) =
      foldl (\<lambda>acc b. 256 * acc + unat (b :: u8)) (unat (a :: u64)) data mod 2 ^ 64" for a
  proof (induction data rule: rev_induct)
    case (snoc b data)
    have b: "unat (ucast b :: u64) = unat b" by (rule unat_ucast_up) simp
    let ?x = "foldl (\<lambda>result b. push_bit 8 result + ucast b) a data :: u64"
    have "unat (push_bit 8 ?x + ucast b) = (unat ?x * 256 + unat b) mod 2 ^ 64"
      by (simp add: unat_word_ariths push_bit_eq_mult b mod_simps mult.commute)
    moreover have "(256 * (k mod 2 ^ 64) + unat b) mod 2 ^ 64 = (256 * k + unat b) mod 2 ^ 64" for k
      by (metis mod_add_left_eq mod_mult_right_eq)
    ultimately show ?case using snoc by (simp add: mult.commute)
  qed (use unsigned_less [of a, where 'a = nat] in simp)
  from this [of 0] show ?thesis
    by (simp add: uint64_from_BEarray_def be_value_def)
qed

lemma int64_digits_nat:
  "int64_digits 1 (int n) = (if n = 0 then [] else rev (decimal n))"
proof (induction n rule: decimal.induct)
  case (1 n)
  have div: "int n sdiv 10 = int (n div 10)" "int n smod 10 = int (n mod 10)"
    by (simp_all add: signed_divide_int_def signed_modulo_int_def sgn_if zdiv_int zmod_int minus_mult_div_eq_mod)
  have step: "int64_digits 1 (int n) = (if n \<noteq> 0 then digit_char (n mod 10) # int64_digits 1 (int (n div 10)) else [])"
    by (subst int64_digits.simps) (simp add: div digit_char_def)
  show ?case
  proof (cases "n < 10")
    case True
    then show ?thesis
      by (subst step) (simp add: decimal.simps [of n] int64_digits.simps [of 1 0])
  next
    case False
    then show ?thesis
      using 1 by (subst step) (auto simp: decimal.simps [of n])
  qed
qed

lemma int64_digits_negative:
  "int64_digits (-1) (- int n) = (if n = 0 then [] else rev (decimal n))"
proof (induction n rule: decimal.induct)
  case (1 n)
  have div: "(- int n) sdiv 10 = - int (n div 10)" "((- int n) smod 10) * (- 1) = int (n mod 10)"
    by (simp_all add: signed_divide_int_def signed_modulo_int_def sgn_if zdiv_int zmod_int minus_mult_div_eq_mod)
  have step: "int64_digits (-1) (- int n) =
      (if n \<noteq> 0 then digit_char (n mod 10) # int64_digits (-1) (- int (n div 10)) else [])"
    by (subst int64_digits.simps) (simp only: div, simp add: digit_char_def)
  show ?case
  proof (cases "n < 10")
    case True
    then show ?thesis
      by (subst step) (simp add: decimal.simps [of n] int64_digits.simps [of "-1" 0])
  next
    case False
    then show ?thesis
      using 1 by (subst step) (auto simp: decimal.simps [of n])
  qed
qed

lemma unat_digit_char: "k < 10 \<Longrightarrow> unat (digit_char k) = 48 + k"
  unfolding digit_char_def by (rule unat_of_nat_u8) simp

lemma decimal_digits: "c \<in> set (decimal n) \<Longrightarrow> 48 \<le> unat c \<and> unat c < 58"
proof (induction n rule: decimal.induct)
  case (1 n)
  then show ?case
    by (subst (asm) (2) decimal.simps) (auto simp: unat_digit_char split: if_splits)
qed

lemma decimal_nonempty: "decimal n \<noteq> []"
  by (subst decimal.simps) auto

lemma digits_value_decimal: "digits_value (decimal n) = n"
proof (induction n rule: decimal.induct)
  case (1 n)
  then show ?case
    by (subst decimal.simps) (auto simp: digits_value_def unat_digit_char)
qed

lemma length_decimal: "n < 10 ^ k \<Longrightarrow> 0 < k \<Longrightarrow> length (decimal n) \<le> k"
proof (induction n arbitrary: k rule: decimal.induct)
  case (1 n)
  show ?case
  proof (cases "n < 10")
    case False
    with 1 obtain j where "k = Suc j" "0 < j" by (cases k; cases "k - 1") auto
    with 1 False show ?thesis by (subst decimal.simps) (auto simp: less_mult_imp_div_less)
  qed (use 1 in \<open>simp add: decimal.simps [of n]\<close>)
qed

section \<open>The printed text\<close>

lemma sint_small:
  assumes "unat (v :: u64) < 2 ^ 63"
  shows "sint v = int (unat v)"
proof -
  have "int (unat v) < int (2 ^ 63)" using assms by (simp only: of_nat_less_iff)
  then have "uint v < 2 ^ 63" by simp
  moreover have "- (2 ^ 63) \<le> uint v" by (rule order_trans [of _ 0]) simp_all
  ultimately have "signed_take_bit 63 (uint v) = uint v"
    by (intro signed_take_bit_int_eq_self)
  then show ?thesis by (simp add: sint_uint)
qed

lemma decimal_no_zero: "0 \<notin> set (decimal n)"
  using decimal_digits [of 0 n] by (metis not_numeral_le_zero unat_0)

text \<open>The text of a signed number, which is what the code makes of every amount.\<close>

definition signed_decimal :: "int \<Rightarrow> u8 list" where
  "signed_decimal i = (if i < 0 then ascii ''-'' @ decimal (nat (- i)) else decimal (nat i))"

lemma signed_decimal_length:
  assumes "- (2 ^ 63) \<le> i" and "i < 2 ^ 63"
  shows "length (signed_decimal i) \<le> 20" "0 \<le> i \<Longrightarrow> length (signed_decimal i) \<le> 19"
proof -
  have "nat \<bar>i\<bar> < 10 ^ 19" using assms by (simp add: nat_less_iff)
  then have "length (decimal (nat \<bar>i\<bar>)) \<le> 19" by (intro length_decimal) auto
  then show "length (signed_decimal i) \<le> 20" "0 \<le> i \<Longrightarrow> length (signed_decimal i) \<le> 19"
    by (auto simp: signed_decimal_def ascii_def)
qed

lemma signed_decimal_no_zero: "0 \<notin> set (signed_decimal i)"
  by (auto simp: signed_decimal_def ascii_def decimal_no_zero)

lemma int64_to_str_signed:
  assumes "- (2 ^ 63) \<le> i" and "i < 2 ^ 63"
  shows "int64_to_str (replicate 30 0) 30 i = (0, signed_decimal i @ replicate (30 - length (signed_decimal i)) 0)"
proof -
  have zero: "decimal 0 = ascii ''0''" by code_simp
  let ?s = "signed_decimal i"
  have len: "length ?s \<le> 20" by (rule signed_decimal_length(1) [OF assms])
  then have pad: "replicate (30 - length ?s) 0 = 0 # replicate (29 - length ?s) (0 :: u8)"
    by (simp flip: replicate_Suc add: Suc_diff_le)
  define temp where "temp = (let t = int64_digits (if i < 0 then -1 else 1) i in
    if i < 0 then t @ ascii ''-'' else if i = 0 then t @ ascii ''0'' else t)"
  have rev: "rev temp = ?s"
    using int64_digits_nat [of "nat i"] int64_digits_negative [of "nat (- i)"]
    by (auto simp: temp_def signed_decimal_def zero ascii_def Let_def)
  then have "length temp = length ?s" by (metis length_rev)
  moreover have "int64_to_str (replicate 30 0) 30 i =
      (if 30 < length temp + 1 then (-1, replicate 30 0) else (0, mwrite 0 (rev temp @ [0]) (replicate 30 0)))"
    by (simp add: int64_to_str_def temp_def Let_def)
  ultimately show ?thesis
    using len pad rev by (simp add: mwrite_def)
qed

text \<open>The two layouts, for any digit string \<open>s\<close> in the local buffer.\<close>

lemma strncpy_zeros:
  assumes "0 \<notin> set s" and "length s \<le> n"
  shows "strncpy (replicate n 0) (s @ replicate k 0) n = s @ replicate (n - length s) 0"
  using assms by (simp add: strncpy_def mwrite_def cstr_padded)

lemma layout_small:
  assumes s: "0 \<notin> set s" and p: "length p + length s < sz"
  shows "mwrite (length p) (strncpy (drop (length p) (mwrite 0 p (replicate sz 0))) (s @ replicate k 0) (sz - length p))
      (mwrite 0 p (replicate sz 0)) = p @ s @ replicate (sz - length p - length s) 0"
  using p by (simp add: strncpy_zeros [OF s] mwrite_def)

lemma layout_large:
  assumes s: "0 \<notin> set (a @ b)" and sz: "length a + 1 + length b < sz" "length b \<le> d" "d \<le> length b"
  shows "mwrite (length a + 1)
      (strncpy (drop (length a + 1) (mwrite (length a) [c] (mwrite 0 a (replicate sz 0)))) (b @ replicate k 0) d)
      (mwrite (length a) [c] (mwrite 0 a (replicate sz 0))) = a @ [c] @ b @ replicate (sz - length a - 1 - length b) 0"
  using s sz by (simp add: strncpy_def mwrite_def cstr_padded)

lemma fpuint64_to_str_layout:
  assumes buf: "int64_to_str (replicate 30 0) 30 (sint v) = (0, s @ replicate k 0)" and nz: "0 \<notin> set s"
    and sz: "unat d + 3 \<le> sz" and room: "unat d < length s \<Longrightarrow> length s + 1 + unat d < sz"
  shows "\<exists>dst. fpuint64_to_str (replicate sz 0) sz v d = (0, dst) \<and> length dst = sz \<and> 0 \<in> set dst \<and>
    cstr dst = with_point s (unat d)"
proof -
  have digits: "cstrlen (s @ replicate k 0) = length s"
    by (simp add: cstrlen_def cstr_padded nz)
  have padded: ?thesis
    if "fpuint64_to_str (replicate sz 0) sz v d = (0, with_point s (unat d) @ replicate n 0)" and "0 < n"
      and "length (with_point s (unat d)) + n = sz" and "0 \<notin> set (with_point s (unat d))" for n
    using that cstr_padded [of "with_point s (unat d)" n] by auto
  show ?thesis
  proof (cases "length s \<le> unat d")
    case True
    let ?p = "ascii ''0.'' @ replicate (unat d - length s) 0x30"
    have p: "length ?p = 2 + unat d - length s" using True by simp
    show ?thesis
    proof (rule padded)
      show "fpuint64_to_str (replicate sz 0) sz v d = (0, with_point s (unat d) @ replicate (sz - length ?p - length s) 0)"
        using layout_small [OF nz, of ?p sz k] True sz p
        by (simp add: fpuint64_to_str_def buf digits Let_def with_point_def del: length_append)
    qed (use True sz p nz in \<open>auto simp: with_point_def ascii_def\<close>)
  next
    case False
    define a b where "a = take (length s - unat d) s" and "b = drop (length s - unat d) s"
    have ab: "s = a @ b" "length b = unat d" "length a = length s - unat d"
      using False by (simp_all add: a_def b_def)
    have t: "with_point s (unat d) = a @ [0x2E] @ b"
      using False by (simp add: with_point_def a_def b_def ascii_def)
    have fits: "length s - unat d = length a" "\<not> sz \<le> length s + 1 + unat d"
      using ab(3) room False by linarith+
    have buffer: "take (length a) s = a" "drop (length a) s = b"
      by (simp_all add: ab(1))
    show ?thesis
    proof (rule padded)
      have "fpuint64_to_str (replicate sz 0) sz v d =
          (0, mwrite (length a + 1)
            (strncpy (drop (length a + 1) (mwrite (length a) [0x2E] (mwrite 0 a (replicate sz 0)))) (b @ replicate k 0) (unat d))
            (mwrite (length a) [0x2E] (mwrite 0 a (replicate sz 0))))"
        unfolding fpuint64_to_str_def buf Let_def prod.case digits
        using False fits by (simp add: buffer ascii_def)
      also have "\<dots> = (0, a @ [0x2E] @ b @ replicate (sz - length a - 1 - length b) 0)"
        using nz fits ab(2) by (subst layout_large) (auto simp: ab(1))
      finally show "fpuint64_to_str (replicate sz 0) sz v d =
          (0, with_point s (unat d) @ replicate (sz - length a - 1 - length b) 0)"
        by (simp add: t)
      show "0 < sz - length a - 1 - length b" "length (with_point s (unat d)) + (sz - length a - 1 - length b) = sz"
        using fits(2) ab(2,3) False by (simp_all add: t)
      from nz ab(1) have "0 \<notin> set a" "0 \<notin> set b" by auto
      then show "0 \<notin> set (with_point s (unat d))" by (simp add: t)
    qed
  qed
qed

text \<open>What is not laid out is refused, or left without its terminating zero.\<close>

lemma fpuint64_to_str_no_room:
  assumes buf: "int64_to_str (replicate 30 0) 30 (sint v) = (0, s @ replicate k 0)" and nz: "0 \<notin> set s"
    and short: "length s < sz"
    and no: "\<not> (unat d + 3 \<le> sz \<and> (unat d < length s \<longrightarrow> length s + 1 + unat d < sz))"
    and run: "fpuint64_to_str (replicate sz 0) sz v d = (0, dst)"
  shows "0 \<notin> set dst"
proof -
  have digits: "cstrlen (s @ replicate k 0) = length s"
    by (simp add: cstrlen_def cstr_padded nz)
  have small: "length s \<le> unat d"
    using run no unfolding fpuint64_to_str_def buf Let_def prod.case digits by (auto split: if_splits)
  let ?p = "ascii ''0.'' @ replicate (unat d - length s) 0x30"
  have p: "length ?p = 2 + unat d - length s" using small by simp
  have lens: "length ?p < sz" "sz \<le> length ?p + length s"
    using run small no p unfolding fpuint64_to_str_def buf Let_def prod.case digits by (auto split: if_splits)
  have "dst = mwrite (length ?p) (strncpy (drop (length ?p) (mwrite 0 ?p (replicate sz 0))) (s @ replicate k 0) (sz - length ?p))
      (mwrite 0 ?p (replicate sz 0))"
    using run small lens(1) p unfolding fpuint64_to_str_def buf Let_def prod.case digits
    by (auto simp del: length_append split: if_splits)
  also have "\<dots> = ?p @ take (sz - length ?p) s"
    using lens nz by (simp add: strncpy_def mwrite_def cstr_padded)
  finally have "set dst \<subseteq> set ?p \<union> set s" by (auto dest: in_set_takeD)
  then show ?thesis using nz by (auto simp: ascii_def)
qed

section \<open>Reading it back\<close>

lemma takeWhile_point:
  "0x2E \<notin> set a \<Longrightarrow> takeWhile (\<lambda>c. c \<noteq> 0x2E) (a @ 0x2E # b) = a"
  by (induction a) auto

lemma digits_value_zeros: "digits_value (replicate n 0x30 @ s) = digits_value s"
  by (induction n) (auto simp: digits_value_def)

lemma read_fiat_with_point:
  assumes "\<forall>c \<in> set s. digit c"
  shows "read_fiat (with_point s d) = Some (digits_value s, d)"
proof -
  have "unat (0x2E :: u8) = 46" by simp
  then have no_point: "0x2E \<notin> set s" using assms by (auto simp: digit_def)
  show ?thesis
  proof (cases "length s \<le> d")
    case True
    have "with_point s d = [0x30] @ 0x2E # (replicate (d - length s) 0x30 @ s)"
      using True by (simp add: with_point_def ascii_def)
    moreover have "digits_value ([0x30] @ replicate (d - length s) 0x30 @ s) = digits_value s"
      using digits_value_zeros [of "Suc (d - length s)" s] by simp
    moreover have "digit 0x30" by (simp add: digit_def)
    ultimately show ?thesis
      using True takeWhile_point [of "[0x30]"] assms by (auto simp: read_fiat_def list_all_iff Let_def)
  next
    case False
    let ?k = "length s - d"
    have "with_point s d = take ?k s @ 0x2E # drop ?k s"
      using False by (simp add: with_point_def ascii_def)
    moreover have "0x2E \<notin> set (take ?k s)" using no_point by (meson in_set_takeD)
    moreover have "list_all digit (take ?k s)" "list_all digit (drop ?k s)"
      using assms by (auto simp: list_all_iff dest: in_set_takeD in_set_dropD)
    ultimately show ?thesis using False by (simp add: read_fiat_def takeWhile_point Let_def)
  qed
qed

lemma set_with_point: "set s \<subseteq> set (with_point s d)"
proof -
  have "set s = set (take n s) \<union> set (drop n s)" for n by (metis append_take_drop_id set_append)
  then show ?thesis by (auto simp: with_point_def)
qed

lemma read_fiat_bad:
  assumes "c \<in> set t" and "\<not> digit c" and "c \<noteq> 0x2E"
  shows "read_fiat t = None"
proof -
  let ?w = "takeWhile (\<lambda>c. c \<noteq> 0x2E) t"
  let ?r = "dropWhile (\<lambda>c. c \<noteq> 0x2E) t"
  have rest: "drop (length ?w + 1) t = tl ?r" by (simp add: dropWhile_eq_drop drop_Suc tl_drop)
  have "c \<in> set ?w \<or> c \<in> set ?r" using assms(1) by (metis Un_iff set_append takeWhile_dropWhile_id)
  moreover have "c \<in> set ?r \<Longrightarrow> c \<in> set (tl ?r)"
    using assms(3) hd_dropWhile [of "\<lambda>c. c \<noteq> 0x2E" t] by (cases ?r) auto
  ultimately have "c \<in> set (?w @ drop (length ?w + 1) t)" unfolding rest set_append by blast
  with assms(2) show ?thesis by (auto simp: read_fiat_def list_all_iff Let_def)
qed

lemma digits_decimal: "\<forall>c \<in> set (decimal n). digit c"
  using decimal_digits by (auto simp: digit_def)


lemma sint_u64_range: "- (2 ^ 63) \<le> sint (v :: u64)" "sint (v :: u64) < 2 ^ 63"
  using sint_range_size [of v] by (simp_all add: word_size)

text \<open>A call that succeeds and leaves a terminated text in a zeroed destination.\<close>

definition fiat_shown :: "u8 list \<Rightarrow> u32 \<Rightarrow> nat \<Rightarrow> mem \<Rightarrow> bool" where
  "fiat_shown coefficient exponent sz dst \<longleftrightarrow>
     get_fiat_printable_amount coefficient exponent (replicate sz 0) sz = (0, dst) \<and> 0 \<in> set dst"

lemma fiat_shown_text:
  assumes "39 \<le> sz"
  shows "fiat_shown coefficient exponent sz dst \<Longrightarrow>
    cstr dst = with_point (signed_decimal (sint (uint64_from_BEarray coefficient))) (unat exponent mod 256) \<and>
    unat exponent mod 256 + 3 \<le> sz"
    and "0 \<le> sint (uint64_from_BEarray coefficient) \<Longrightarrow> unat exponent mod 256 + 3 \<le> sz \<Longrightarrow>
    \<exists>dst. fiat_shown coefficient exponent sz dst"
proof -
  let ?v = "uint64_from_BEarray coefficient"
  let ?s = "signed_decimal (sint ?v)"
  let ?d = "ucast exponent :: u8"
  have d: "unat ?d = unat exponent mod 256" by (simp add: unsigned_ucast_eq take_bit_eq_mod)
  note buf = int64_to_str_signed [OF sint_u64_range [of ?v]]
  note nz = signed_decimal_no_zero [of "sint ?v"]
  note len = signed_decimal_length [OF sint_u64_range [of ?v]]
  note lay = fpuint64_to_str_layout [OF buf nz, of ?d sz, unfolded d]
  {
    assume f: "fiat_shown coefficient exponent sz dst"
    then have run: "fpuint64_to_str (replicate sz 0) sz ?v ?d = (0, dst)" and z: "0 \<in> set dst"
      by (simp_all add: fiat_shown_def get_fiat_printable_amount_def)
    have "length ?s < sz" using len(1) assms by simp
    from fpuint64_to_str_no_room [OF buf nz this _ run] z
    have room: "unat exponent mod 256 + 3 \<le> sz"
      "unat exponent mod 256 < length ?s \<Longrightarrow> length ?s + 1 + unat exponent mod 256 < sz"
      unfolding d by blast+
    with lay run show "cstr dst = with_point ?s (unat exponent mod 256) \<and> unat exponent mod 256 + 3 \<le> sz" by auto
  next
    assume i: "0 \<le> sint ?v" and r: "unat exponent mod 256 + 3 \<le> sz"
    have "unat exponent mod 256 < length ?s \<Longrightarrow> length ?s + 1 + unat exponent mod 256 < sz"
      using len(2) [OF i] assms by linarith
    from lay [OF r this] show "\<exists>dst. fiat_shown coefficient exponent sz dst"
      by (auto simp: fiat_shown_def get_fiat_printable_amount_def)
  }
qed

section \<open>Properties\<close>

text \<open>
  C30: for which amounts of a SELL the text is the amount received. Into a zeroed destination of at
  least 39 bytes, the call leaves a terminated text that reads back as the coefficient with
  \<open>exponent\<close> decimals if and only if the coefficient is below \<open>2 ^ 63\<close>, the exponent is at most 255 and the
  destination has three bytes more than the exponent; and then the text is the usual one. Every other
  amount, though the transaction can hold it, is refused, cut, or shown as another amount.
\<close>

theorem get_fiat_printable_amount_exact:
  assumes "39 \<le> sz"
  shows "((\<exists>dst. get_fiat_printable_amount coefficient exponent (replicate sz 0) sz = (0, dst) \<and> 0 \<in> set dst \<and>
        read_fiat (cstr dst) = Some (be_value coefficient, unat exponent)) \<longleftrightarrow>
      be_value coefficient < 2 ^ 63 \<and> unat exponent < 256 \<and> unat exponent + 3 \<le> sz) \<and>
    (be_value coefficient < 2 ^ 63 \<and> unat exponent < 256 \<and> unat exponent + 3 \<le> sz \<longrightarrow>
      cstr (snd (get_fiat_printable_amount coefficient exponent (replicate sz 0) sz)) =
        fiat_text (be_value coefficient) (unat exponent))"
    (is "(?shown \<longleftrightarrow> ?range) \<and> (?range \<longrightarrow> ?plain)")
proof -
  let ?v = "uint64_from_BEarray coefficient"
  have good: "?shown \<and> ?plain" if r: ?range
  proof -
    have "unat ?v = be_value coefficient" using r by (simp add: uint64_from_BEarray_eq)
    then have v: "sint ?v = int (be_value coefficient)" using r sint_small [of ?v] by simp
    obtain dst where shown: "fiat_shown coefficient exponent sz dst"
      using fiat_shown_text(2) [OF assms] r v by fastforce
    from fiat_shown_text(1) [OF assms this] r
    have t: "cstr dst = fiat_text (be_value coefficient) (unat exponent)"
      by (simp add: v signed_decimal_def fiat_text_def)
    then have "read_fiat (cstr dst) = Some (be_value coefficient, unat exponent)"
      using read_fiat_with_point [OF digits_decimal] by (simp add: fiat_text_def digits_value_decimal)
    with shown t show ?thesis by (auto simp: fiat_shown_def)
  qed
  have "?range" if ?shown
  proof -
    from that obtain dst where shown: "fiat_shown coefficient exponent sz dst"
      and reads: "read_fiat (cstr dst) = Some (be_value coefficient, unat exponent)"
      by (auto simp: fiat_shown_def)
    note t = fiat_shown_text(1) [OF assms shown]
    have "0 \<le> sint ?v"
    proof (rule ccontr)
      assume "\<not> 0 \<le> sint ?v"
      then have "0x2D \<in> set (cstr dst)"
        using t set_with_point [of "signed_decimal (sint ?v)"] by (auto simp: signed_decimal_def ascii_def)
      then have "read_fiat (cstr dst) = None" by (rule read_fiat_bad) (simp_all add: digit_def)
      with reads show False by simp
    qed
    then have "read_fiat (cstr dst) = Some (nat (sint ?v), unat exponent mod 256)"
      using t read_fiat_with_point [OF digits_decimal] by (simp add: signed_decimal_def digits_value_decimal)
    with reads t sint_u64_range [of ?v] \<open>0 \<le> sint ?v\<close> show ?range
      using mod_less_divisor [of 256 "unat exponent"] by (auto simp: nat_less_iff)
  qed
  with good show ?thesis by blast
qed

lemma get_fiat_printable_amount_exact_witness:
  "read_fiat (cstr (snd (get_fiat_printable_amount [0x30, 0x39] 2 (replicate 50 0) 50))) = Some (12345, 2) \<and>
   (\<nexists>dst. get_fiat_printable_amount [255, 255, 255, 255, 255, 255, 255, 255] 0 (replicate 50 0) 50 = (0, dst) \<and> 0 \<in> set dst \<and>
      read_fiat (cstr dst) = Some (18446744073709551615, 0))"
proof -
  have v: "be_value [0x30, 0x39] = 12345" "be_value [255, 255, 255, 255, 255, 255, 255, 255] = 18446744073709551615"
    by (simp_all add: be_value_def)
  from get_fiat_printable_amount_exact [of 50 "[0x30, 0x39]" 2] v(1)
  have "read_fiat (cstr (snd (get_fiat_printable_amount [0x30, 0x39] 2 (replicate 50 0) 50))) = Some (12345, 2)"
    by fastforce
  moreover from get_fiat_printable_amount_exact [of 50 "[255, 255, 255, 255, 255, 255, 255, 255]" 0] v(2)
  have "\<nexists>dst. get_fiat_printable_amount [255, 255, 255, 255, 255, 255, 255, 255] 0 (replicate 50 0) 50 = (0, dst) \<and> 0 \<in> set dst \<and>
      read_fiat (cstr dst) = Some (18446744073709551615, 0)" by simp
  ultimately show ?thesis ..
qed

text \<open>
  What is shown outside those bounds: the first eight bytes of a longer coefficient
  are lost, a coefficient with its top bit set is printed as a negative number, and the exponent
  counts modulo 256.
\<close>

lemma fiat_amount_other_values:
  "cstr (snd (get_fiat_printable_amount [1, 0, 0, 0, 0, 0, 0, 0, 5] 0 (replicate 50 0) 50)) = ascii ''5.''"
  "cstr (snd (get_fiat_printable_amount (replicate 8 0xFF) 0 (replicate 50 0) 50)) = ascii ''-1.''"
  "get_fiat_printable_amount [5] 256 (replicate 50 0) 50 = get_fiat_printable_amount [5] 0 (replicate 50 0) 50"
  by code_simp+

end

