(* ===== verification/Pb_Stream.thy ===== *)
theory Pb_Stream
  imports Prelude
begin

text \<open>
  The input stream of nanopb (\<^verbatim>\<open>src/pb_decode.c\<close>, first half): a stream over a memory buffer,
  and the readers of variable-length integers, tags, strings to skip and substreams. A reader
  returns \<open>None\<close> where the C function returns \<open>false\<close>, and the stream it leaves in either case.

  \<open>pb_state\<close> is the rest of the buffer from the C pointer \<open>state\<close> on, \<open>bytes_left\<close> the count of
  bytes the stream may still take from it, so that \<open>stream_ok\<close> says no read leaves the buffer. The
  stream's callback is \<open>buf_read\<close>, which \<open>pb_istream_from_buffer\<close> sets and nothing changes.
\<close>

section \<open>Streams and their errors\<close>

record pb_istream =
  pb_state :: "u8 list"
  bytes_left :: nat
  errmsg :: "string option"

definition stream_ok :: "pb_istream \<Rightarrow> bool" where
  "stream_ok s \<longleftrightarrow> bytes_left s \<le> length (pb_state s)"

text \<open>The bytes a stream can still deliver.\<close>

definition pending :: "pb_istream \<Rightarrow> u8 list" where
  "pending s = take (bytes_left s) (pb_state s)"

text \<open>\<open>PB_SET_ERROR\<close>: the first error message is kept.\<close>

definition pb_set_error :: "string \<Rightarrow> pb_istream \<Rightarrow> pb_istream" where
  "pb_set_error msg s = s\<lparr>errmsg := Some (case errmsg s of Some m \<Rightarrow> m | None \<Rightarrow> msg)\<rparr>"

definition pb_istream_from_buffer :: "u8 list \<Rightarrow> nat \<Rightarrow> pb_istream" where
  "pb_istream_from_buffer buf bufsize = \<lparr>pb_state = buf, bytes_left = bufsize, errmsg = None\<rparr>"

section \<open>Raw reads\<close>

definition buf_read :: "pb_istream \<Rightarrow> nat \<Rightarrow> u8 list \<times> pb_istream" where
  "buf_read stream count = (take count (pb_state stream), stream\<lparr>pb_state := drop count (pb_state stream)\<rparr>)"

text \<open>
  The bytes read are returned; a call with a null destination drops them.
\<close>

definition pb_read :: "pb_istream \<Rightarrow> nat \<Rightarrow> u8 list option \<times> pb_istream" where
  "pb_read stream count =
     (if count = 0 then (Some [], stream)
      else if bytes_left stream < count then (None, pb_set_error ''end-of-stream'' stream)
      else let (buf, stream) = buf_read stream count
           in (Some buf, stream\<lparr>bytes_left := bytes_left stream - count\<rparr>))"

definition pb_readbyte :: "pb_istream \<Rightarrow> u8 option \<times> pb_istream" where
  "pb_readbyte stream =
     (if bytes_left stream = 0 then (None, pb_set_error ''end-of-stream'' stream)
      else let (buf, stream) = buf_read stream 1
           in (Some (hd buf), stream\<lparr>bytes_left := bytes_left stream - 1\<rparr>))"

section \<open>How a reader may change a stream\<close>

text \<open>
  \<open>s'\<close> is later in the same buffer than \<open>s\<close> by at most the number of bytes that were accounted for.
  A stream inside its buffer then stays inside.
\<close>

definition advances :: "pb_istream \<Rightarrow> pb_istream \<Rightarrow> bool" where
  "advances s s' \<longleftrightarrow>
     (\<exists>k. pb_state s' = drop k (pb_state s) \<and> bytes_left s' + k \<le> bytes_left s)"

lemma advances_refl [simp]: "advances s s"
  by (auto simp: advances_def intro: exI [of _ 0])

lemma advances_trans [trans]: "advances s s' \<Longrightarrow> advances s' s'' \<Longrightarrow> advances s s''"
  by (fastforce simp: advances_def)

lemma advances_error [simp]: "advances s (pb_set_error msg s') \<longleftrightarrow> advances s s'"
  by (simp add: advances_def pb_set_error_def)

lemma advances_left: "advances s s' \<Longrightarrow> bytes_left s' \<le> bytes_left s"
  by (auto simp: advances_def)

lemma advances_ok: "advances s s' \<Longrightarrow> stream_ok s \<Longrightarrow> stream_ok s'"
  by (auto simp: advances_def stream_ok_def)

lemma stream_ok_error [simp]: "stream_ok (pb_set_error msg s) = stream_ok s"
  by (simp add: stream_ok_def pb_set_error_def)

lemma pb_state_error [simp]: "pb_state (pb_set_error msg s) = pb_state s"
  by (simp add: pb_set_error_def)

lemma bytes_left_error [simp]: "bytes_left (pb_set_error msg s) = bytes_left s"
  by (simp add: pb_set_error_def)

text \<open>
  The contract of a reader: it advances its stream, and where it succeeds it takes at least
  \<open>least\<close> bytes. The facts are what the decoder's loops need to end and to stay in the buffer.
\<close>

locale stream_reader =
  fixes rd :: "pb_istream \<Rightarrow> 'a option \<times> pb_istream"
    and least :: nat
  assumes reads: "rd s = (r, s') \<Longrightarrow>
    advances s s' \<and> (r \<noteq> None \<longrightarrow> bytes_left s' + least \<le> bytes_left s)"
begin

lemma advances: "rd s = (r, s') \<Longrightarrow> advances s s'"
  using reads by blast

lemma takes: "rd s = (Some x, s') \<Longrightarrow> bytes_left s' + least \<le> bytes_left s"
  using reads by blast

lemma left_le: "rd s = (r, s') \<Longrightarrow> bytes_left s' \<le> bytes_left s"
  using reads advances_left by blast

lemma keeps_ok: "rd s = (r, s') \<Longrightarrow> stream_ok s \<Longrightarrow> stream_ok s'"
  using reads advances_ok by blast

end

lemma pb_readbyte_reads:
  "pb_readbyte s = (r, s') \<Longrightarrow> advances s s' \<and> (r \<noteq> None \<longrightarrow> bytes_left s' + 1 \<le> bytes_left s)"
  by (auto simp: pb_readbyte_def buf_read_def advances_def pb_set_error_def
      split: if_splits intro: exI [of _ 0])

lemma pb_read_reads:
  "pb_read s n = (r, s') \<Longrightarrow> advances s s' \<and> (r \<noteq> None \<longrightarrow> bytes_left s' + n \<le> bytes_left s)"
  by (auto simp: pb_read_def buf_read_def advances_def pb_set_error_def
      split: if_splits intro: exI [of _ 0])

interpretation readbyte: stream_reader pb_readbyte 1
  by unfold_locales (rule pb_readbyte_reads)

interpretation read: stream_reader "\<lambda>s. pb_read s n" n for n
  by unfold_locales (rule pb_read_reads)

lemma pb_readbyte_pending:
  assumes "stream_ok s"
  shows "pb_readbyte s = (Some b, s') \<Longrightarrow> pending s = b # pending s'"
    and "pending s = b # bs \<Longrightarrow>
      pb_readbyte s = (Some b, s\<lparr>pb_state := drop 1 (pb_state s), bytes_left := bytes_left s - 1\<rparr>)"
  using assms
  by (cases "pb_state s"; cases "bytes_left s";
      auto simp: pb_readbyte_def buf_read_def pending_def stream_ok_def)+

lemma pb_read_pending:
  assumes "stream_ok s" and "pb_read s n = (Some xs, s')"
  shows "pending s = xs @ pending s' \<and> length xs = n"
proof (cases "n = 0")
  case False
  with assms(2) have n: "n \<le> bytes_left s" and xs: "xs = take n (pb_state s)"
    and s': "pending s' = take (bytes_left s - n) (drop n (pb_state s))"
    by (auto simp: pb_read_def buf_read_def pending_def split: if_splits)
  show ?thesis
    using take_add [of n "bytes_left s - n" "pb_state s"] assms(1) n xs s'
    by (simp add: pending_def stream_ok_def)
qed (use assms in \<open>auto simp: pb_read_def\<close>)

section \<open>Variable-length integers\<close>

text \<open>
  The loop of \<open>pb_decode_varint32_eof\<close> after its first byte: \<open>bitpos\<close> is a \<open>uint_fast8_t\<close>,
  8 bits wide for the compiler in use. It ends because every turn takes a byte.
\<close>

function pb_varint32_more :: "pb_istream \<Rightarrow> u32 \<Rightarrow> u8 \<Rightarrow> (u32 \<times> u8 \<times> u8) option \<times> pb_istream" where
  "pb_varint32_more stream result bitpos =
     (case pb_readbyte stream of
        (None, stream) \<Rightarrow> (None, stream)
      | (Some byte, stream) \<Rightarrow>
          let sign_extension = (if bitpos < 63 then 0xFF else 0x01) in
          if bitpos \<ge> 32 \<and> byte AND 0x7F \<noteq> 0 \<and> (drop_bit 31 result = 0 \<or> byte \<noteq> sign_extension)
          then (None, pb_set_error ''varint overflow'' stream)
          else
            let result = (if bitpos \<ge> 32 then result
                          else result OR push_bit (unat bitpos) (ucast (byte AND 0x7F)));
                bitpos = bitpos + 7
            in if byte AND 0x80 \<noteq> 0 then pb_varint32_more stream result bitpos
               else (Some (result, bitpos, byte), stream))"
  by pat_completeness auto
termination
  by (relation "measure (\<lambda>(stream, result, bitpos). bytes_left stream)")
     (auto dest!: readbyte.takes [OF sym])

declare pb_varint32_more.simps [simp del]

text \<open>The last component is the caller's \<open>eof\<close> flag.\<close>

definition pb_decode_varint32_eof :: "pb_istream \<Rightarrow> bool \<Rightarrow> u32 option \<times> pb_istream \<times> bool" where
  "pb_decode_varint32_eof stream eof =
     (case pb_readbyte stream of
        (None, stream) \<Rightarrow> (None, stream, if bytes_left stream = 0 then True else eof)
      | (Some byte, stream) \<Rightarrow>
          if byte AND 0x80 = 0 then (Some (ucast byte), stream, eof)
          else
            case pb_varint32_more stream (ucast (byte AND 0x7F)) 7 of
              (None, stream) \<Rightarrow> (None, stream, eof)
            | (Some (result, bitpos, byte), stream) \<Rightarrow>
                if bitpos = 35 \<and> byte AND 0x70 \<noteq> 0
                then (None, pb_set_error ''varint overflow'' stream, eof)
                else (Some result, stream, eof))"

definition pb_decode_varint32 :: "pb_istream \<Rightarrow> u32 option \<times> pb_istream" where
  "pb_decode_varint32 stream =
     (case pb_decode_varint32_eof stream False of (r, stream, eof) \<Rightarrow> (r, stream))"

function pb_varint_loop :: "pb_istream \<Rightarrow> u8 \<Rightarrow> u64 \<Rightarrow> u64 option \<times> pb_istream" where
  "pb_varint_loop stream bitpos result =
     (if bitpos \<ge> 64 then (None, pb_set_error ''varint overflow'' stream)
      else case pb_readbyte stream of
        (None, stream) \<Rightarrow> (None, stream)
      | (Some byte, stream) \<Rightarrow>
          let result = result OR push_bit (unat bitpos) (ucast (byte AND 0x7F));
              bitpos = bitpos + 7
          in if byte AND 0x80 \<noteq> 0 then pb_varint_loop stream bitpos result
             else (Some result, stream))"
  by pat_completeness auto
termination
  by (relation "measure (\<lambda>(stream, bitpos, result). bytes_left stream)")
     (auto dest!: readbyte.takes [OF sym])

declare pb_varint_loop.simps [simp del]

definition pb_decode_varint :: "pb_istream \<Rightarrow> u64 option \<times> pb_istream" where
  "pb_decode_varint stream = pb_varint_loop stream 0 0"

function pb_skip_varint :: "pb_istream \<Rightarrow> unit option \<times> pb_istream" where
  "pb_skip_varint stream =
     (case pb_read stream 1 of
        (None, stream) \<Rightarrow> (None, stream)
      | (Some buf, stream) \<Rightarrow>
          if hd buf AND 0x80 \<noteq> 0 then pb_skip_varint stream else (Some (), stream))"
  by pat_completeness auto
termination
  by (relation "measure bytes_left") (auto dest!: read.takes [OF sym])

declare pb_skip_varint.simps [simp del]

definition pb_skip_string :: "pb_istream \<Rightarrow> unit option \<times> pb_istream" where
  "pb_skip_string stream =
     (case pb_decode_varint32 stream of
        (None, stream) \<Rightarrow> (None, stream)
      | (Some len, stream) \<Rightarrow>
          (case pb_read stream (unat len) of (r, stream) \<Rightarrow> (map_option (\<lambda>_. ()) r, stream)))"

section \<open>Tags, fields to skip, substreams\<close>

definition PB_WT_VARINT :: nat where "PB_WT_VARINT = 0"
definition PB_WT_64BIT :: nat where "PB_WT_64BIT = 1"
definition PB_WT_STRING :: nat where "PB_WT_STRING = 2"
definition PB_WT_32BIT :: nat where "PB_WT_32BIT = 5"

lemmas wire_type_defs = PB_WT_VARINT_def PB_WT_64BIT_def PB_WT_STRING_def PB_WT_32BIT_def

text \<open>The wire type and the tag, and the \<open>eof\<close> flag.\<close>

definition pb_decode_tag :: "pb_istream \<Rightarrow> (nat \<times> nat) option \<times> pb_istream \<times> bool" where
  "pb_decode_tag stream =
     (case pb_decode_varint32_eof stream False of
        (None, stream, eof) \<Rightarrow> (None, stream, eof)
      | (Some temp, stream, eof) \<Rightarrow>
          if temp = 0 then (None, stream, True)
          else (Some (unat (temp AND 7), unat (drop_bit 3 temp)), stream, eof))"

definition pb_skip_field :: "pb_istream \<Rightarrow> nat \<Rightarrow> unit option \<times> pb_istream" where
  "pb_skip_field stream wire_type =
     (let skip = (\<lambda>n. case pb_read stream n of (r, stream) \<Rightarrow> (map_option (\<lambda>_. ()) r, stream)) in
      if wire_type = PB_WT_VARINT then pb_skip_varint stream
      else if wire_type = PB_WT_64BIT then skip 8
      else if wire_type = PB_WT_STRING then pb_skip_string stream
      else if wire_type = PB_WT_32BIT then skip 4
      else (None, pb_set_error ''invalid wire_type'' stream))"

text \<open>The substream and the stream after it.\<close>

definition pb_make_string_substream :: "pb_istream \<Rightarrow> pb_istream option \<times> pb_istream" where
  "pb_make_string_substream stream =
     (case pb_decode_varint32 stream of
        (None, stream) \<Rightarrow> (None, stream)
      | (Some sz, stream) \<Rightarrow>
          if bytes_left stream < unat sz then (None, pb_set_error ''parent stream too short'' stream)
          else (Some (stream\<lparr>bytes_left := unat sz\<rparr>),
                stream\<lparr>bytes_left := bytes_left stream - unat sz\<rparr>))"

text \<open>
  The remaining bytes are skipped; whether it worked, and the parent stream. The substream is
  not used after.
\<close>

definition pb_close_string_substream :: "pb_istream \<Rightarrow> pb_istream \<Rightarrow> bool \<times> pb_istream" where
  "pb_close_string_substream stream substream =
     (let (r, substream) =
        (if bytes_left substream \<noteq> 0 then pb_read substream (bytes_left substream) else (Some [], substream))
      in if r = None then (False, stream)
         else (True, stream\<lparr>pb_state := pb_state substream, errmsg := errmsg substream\<rparr>))"

section \<open>The readers keep the contract\<close>

lemma pb_varint32_more_reads:
  "pb_varint32_more s result bitpos = (r, s') \<Longrightarrow>
   advances s s' \<and> (r \<noteq> None \<longrightarrow> bytes_left s' + 1 \<le> bytes_left s)"
proof (induction s result bitpos arbitrary: r s' rule: pb_varint32_more.induct)
  case (1 s result bitpos)
  obtain b t where b: "pb_readbyte s = (b, t)" by fastforce
  note step = pb_readbyte_reads [OF b]
  show ?case
  proof (cases b)
    case None
    with "1.prems" b step show ?thesis by (subst (asm) pb_varint32_more.simps) auto
  next
    case (Some byte)
    show ?thesis
      using "1.prems" "1.IH" [OF b [symmetric] Some refl] step Some
      by (subst (asm) pb_varint32_more.simps)
        (fastforce simp: b Let_def split: if_splits intro: advances_trans)
  qed
qed

lemma pb_decode_varint32_eof_reads:
  "pb_decode_varint32_eof s e = (r, s', e') \<Longrightarrow>
   advances s s' \<and> (r \<noteq> None \<longrightarrow> bytes_left s' + 1 \<le> bytes_left s)"
  by (auto simp: pb_decode_varint32_eof_def split: prod.splits option.splits if_splits
      dest!: pb_readbyte_reads pb_varint32_more_reads intro: advances_trans)

interpretation varint32: stream_reader pb_decode_varint32 1
  by unfold_locales
    (auto simp: pb_decode_varint32_def split: prod.splits dest: pb_decode_varint32_eof_reads)

lemma pb_varint_loop_reads:
  "pb_varint_loop s bitpos result = (r, s') \<Longrightarrow>
   advances s s' \<and> (r \<noteq> None \<longrightarrow> bytes_left s' + 1 \<le> bytes_left s)"
proof (induction s bitpos result arbitrary: r s' rule: pb_varint_loop.induct)
  case (1 s bitpos result)
  obtain b t where b: "pb_readbyte s = (b, t)" by fastforce
  note step = pb_readbyte_reads [OF b]
  show ?case
  proof (cases "bitpos \<ge> 64 \<or> b = None")
    case True
    with "1.prems" b step show ?thesis by (subst (asm) pb_varint_loop.simps) (auto split: if_splits)
  next
    case False
    then obtain byte where "\<not> bitpos \<ge> 64" "b = Some byte" by auto
    then show ?thesis
      using "1.prems" "1.IH" [OF _ b [symmetric]] step
      by (subst (asm) pb_varint_loop.simps)
        (fastforce simp: b Let_def split: if_splits intro: advances_trans)
  qed
qed

interpretation varint: stream_reader pb_decode_varint 1
  by unfold_locales (unfold pb_decode_varint_def, rule pb_varint_loop_reads)

interpretation skip_varint: stream_reader pb_skip_varint 1
proof unfold_locales
  fix s r s'
  show "pb_skip_varint s = (r, s') \<Longrightarrow> advances s s' \<and> (r \<noteq> None \<longrightarrow> bytes_left s' + 1 \<le> bytes_left s)"
  proof (induction s arbitrary: r s' rule: pb_skip_varint.induct)
    case (1 s)
    obtain b t where b: "pb_read s 1 = (b, t)" by fastforce
    note step = pb_read_reads [OF b]
    show ?case
    proof (cases b)
      case None
      with "1.prems" b step show ?thesis
        by (subst (asm) pb_skip_varint.simps) (auto simp del: One_nat_def)
    next
      case (Some buf)
      then show ?thesis
        using "1.prems" "1.IH" [OF b [symmetric] Some] step
        by (subst (asm) pb_skip_varint.simps)
          (fastforce simp: b simp del: One_nat_def split: if_splits intro: advances_trans)
    qed
  qed
qed

interpretation skip_string: stream_reader pb_skip_string 1
  by unfold_locales
    (fastforce simp: pb_skip_string_def split: prod.splits option.splits
      dest!: varint32.reads pb_read_reads intro: advances_trans)

interpretation skip_field: stream_reader "\<lambda>s. pb_skip_field s wire_type" 0 for wire_type
  by unfold_locales
    (auto simp: pb_skip_field_def Let_def split: prod.splits option.splits if_splits
      dest!: skip_varint.reads skip_string.reads pb_read_reads)

lemma pb_decode_tag_reads:
  "pb_decode_tag s = (r, s', eof) \<Longrightarrow> advances s s' \<and> (r \<noteq> None \<longrightarrow> bytes_left s' + 1 \<le> bytes_left s)"
  by (auto simp: pb_decode_tag_def split: prod.splits option.splits if_splits
      dest!: pb_decode_varint32_eof_reads)

text \<open>
  A substream shares the buffer of its parent and is bounded by what the parent had left; closing
  it after whatever was read from it leaves an advanced parent.
\<close>

lemma make_substream_None: "pb_make_string_substream s = (None, s1) \<Longrightarrow> advances s s1"
  by (auto simp: pb_make_string_substream_def split: prod.splits option.splits if_splits
      dest!: varint32.reads)

lemma make_substream_Some:
  assumes "pb_make_string_substream s = (Some sub, s1)"
  shows "advances s s1" and "advances s sub" and "bytes_left sub + bytes_left s1 + 1 \<le> bytes_left s"
    and "pb_state sub = pb_state s1" and "advances s (s1\<lparr>bytes_left := bytes_left s1 + bytes_left sub\<rparr>)"
  using assms
  by (auto simp: pb_make_string_substream_def advances_def split: prod.splits option.splits if_splits
      dest!: varint32.reads; fastforce)+

lemma close_substream:
  assumes mk: "pb_make_string_substream s = (Some sub, s1)" and sub: "advances sub sub'"
    and cl: "pb_close_string_substream s1 sub' = (ok, s2)"
  shows "advances s s2" and "bytes_left s2 = bytes_left s1"
proof -
  note m = make_substream_Some [OF mk]
  obtain k0 where k0: "pb_state s1 = drop k0 (pb_state s)" "bytes_left s1 + bytes_left sub + k0 \<le> bytes_left s"
    using m(5) by (auto simp: advances_def)
  obtain k1 where k1: "pb_state sub' = drop k1 (pb_state s1)" "bytes_left sub' + k1 \<le> bytes_left sub"
    using sub m(4) by (auto simp: advances_def)
  show "bytes_left s2 = bytes_left s1"
    using cl by (auto simp: pb_close_string_substream_def split: prod.splits if_splits)
  show "advances s s2"
  proof (cases ok)
    case False
    with cl m(1) show ?thesis by (auto simp: pb_close_string_substream_def split: prod.splits if_splits)
  next
    case True
    then have "pb_state s2 = drop (bytes_left sub' + k1 + k0) (pb_state s)" "bytes_left s2 = bytes_left s1"
      using cl k0 k1 by (auto simp: pb_close_string_substream_def pb_read_def buf_read_def Let_def ac_simps
          split: prod.splits if_splits)
    then show ?thesis
      using k0(2) k1(2) by (auto simp: advances_def intro!: exI [of _ "bytes_left sub' + k1 + k0"])
  qed
qed

section \<open>The integers that are read\<close>

text \<open>The base 128 encoding of protocol buffers, least significant group first.\<close>

function enc_varint :: "nat \<Rightarrow> u8 list" where
  "enc_varint n = (if n < 128 then [of_nat n] else (of_nat (n mod 128) OR 0x80) # enc_varint (n div 128))"
  by pat_completeness auto
termination
  by (relation "measure id") auto

declare enc_varint.simps [simp del]

text \<open>The low seven bits of the byte that encodes \<open>m\<close>, and whether another byte follows.\<close>

definition varint_byte :: "nat \<Rightarrow> u8" where
  "varint_byte m = (if m < 128 then of_nat m else of_nat (m mod 128) OR 0x80)"

lemma enc_varint_unfold:
  "enc_varint n = varint_byte n # (if n < 128 then [] else enc_varint (n div 128))"
  by (subst enc_varint.simps) (simp add: varint_byte_def)

lemma of_nat_mod_128: "(of_nat (m mod 128) :: u8) = take_bit 7 (of_nat m)"
proof -
  have "m mod 128 = take_bit 7 m" by (simp add: take_bit_eq_mod)
  then show ?thesis by (simp only: take_bit_of_nat)
qed

lemma and_low7: "(x :: u8) AND 0x7F = take_bit 7 x"
  by (rule u8_eqI) (simp_all add: bit_simps)

lemma low7_or_top: "take_bit 7 (take_bit 7 x OR 0x80) = take_bit 7 (x :: u8)"
  by (rule u8_eqI) (simp_all add: bit_simps)

lemma top_of_or: "(x OR 0x80) AND 0x80 \<noteq> (0 :: u8)"
proof
  assume "(x OR 0x80) AND 0x80 = (0 :: u8)"
  then have "bit ((x OR 0x80) AND 0x80) 7 = bit (0 :: u8) 7" by simp
  then show False by (simp add: bit_simps)
qed

lemma top_of_low7: "take_bit 7 x AND 0x80 = (0 :: u8)"
  by (rule u8_eqI) (simp_all add: bit_simps)

lemma varint_byte_low: "varint_byte m AND 0x7F = take_bit 7 (of_nat m)"
  using of_nat_mod_128 [of m]
  by (cases "m < 128") (simp_all add: varint_byte_def and_low7 low7_or_top)

lemma varint_byte_top: "varint_byte m AND 0x80 = 0 \<longleftrightarrow> m < 128"
proof (cases "m < 128")
  case True
  then have "varint_byte m = take_bit 7 (of_nat m)"
    using of_nat_mod_128 [of m] by (simp add: varint_byte_def)
  with True show ?thesis by (simp add: top_of_low7)
next
  case False
  then show ?thesis using top_of_or by (simp add: varint_byte_def)
qed

text \<open>One group of seven bits is put at its place.\<close>

lemma varint_group:
  "take_bit j (of_nat N :: 'a::len word) OR push_bit j (ucast (take_bit 7 (of_nat (drop_bit j N)) :: u8)) =
   take_bit (j + 7) (of_nat N)"
  by (rule bit_word_eqI)
    (auto simp: bit_simps bit_of_nat_iff drop_bit_eq_div simp flip: drop_bit_eq_div)

text \<open>\<open>s'\<close> is \<open>s\<close> after its first pending bytes \<open>xs\<close>: what a reader leaves when it succeeds.\<close>

definition after_bytes :: "u8 list \<Rightarrow> pb_istream \<Rightarrow> pb_istream" where
  "after_bytes xs s = s\<lparr>pb_state := drop (length xs) (pb_state s), bytes_left := bytes_left s - length xs\<rparr>"

lemma after_bytes_Nil [simp]: "after_bytes [] s = s"
  by (simp add: after_bytes_def)

lemma after_bytes_after [simp]: "after_bytes ys (after_bytes xs s) = after_bytes (xs @ ys) s"
  by (simp add: after_bytes_def add.commute)

lemma stream_ok_after: "stream_ok s \<Longrightarrow> stream_ok (after_bytes xs s)"
  by (auto simp: after_bytes_def stream_ok_def)

lemma pending_after: "pending s = xs @ ys \<Longrightarrow> pending (after_bytes xs s) = ys"
  by (simp add: pending_def after_bytes_def) (metis append_eq_conv_conj drop_take)

lemma errmsg_after [simp]: "errmsg (after_bytes xs s) = errmsg s"
  by (simp add: after_bytes_def)

lemma length_pending: "stream_ok s \<Longrightarrow> length (pending s) = bytes_left s"
  by (simp add: pending_def stream_ok_def)

lemma pb_readbyte_Cons:
  "stream_ok s \<Longrightarrow> pending s = b # bs \<Longrightarrow> pb_readbyte s = (Some b, after_bytes [b] s)"
  using pb_readbyte_pending(2) [of s b bs] by (simp add: after_bytes_def)

lemma pb_read_append:
  assumes "stream_ok s" and "pending s = xs @ ys" and "n = length xs"
  shows "pb_read s n = (Some xs, after_bytes xs s)"
proof -
  have n: "n \<le> bytes_left s"
    using assms length_pending [of s] by simp
  then have "take n (pb_state s) = take n (pending s)"
    by (simp add: pending_def min_def)
  then have "take n (pb_state s) = xs"
    using assms by simp
  then show ?thesis
    using assms(3) n by (auto simp: pb_read_def buf_read_def after_bytes_def)
qed

lemma varint_end: "N < 2 ^ k \<Longrightarrow> take_bit k (of_nat N :: 'a::len word) = of_nat N"
  by (metis take_bit_nat_eq_self take_bit_of_nat)

lemma group_below: "drop_bit j N < 128 \<Longrightarrow> (N :: nat) < 2 ^ (j + 7)"
  by (simp add: drop_bit_eq_div power_add div_less_iff_less_mult mult.commute)

lemma group_above:
  assumes "\<not> drop_bit j N < 128" and "(N :: nat) < 2 ^ n"
  shows "j + 7 < n"
proof -
  have "2 ^ (j + 7) \<le> N"
    using assms(1) by (simp add: drop_bit_eq_div power_add not_less less_eq_div_iff_mult_less_eq mult.commute)
  from this assms(2) have "(2 :: nat) ^ (j + 7) < 2 ^ n" by (rule le_less_trans)
  then show ?thesis by (rule power_less_imp_less_exp [rotated]) simp
qed

lemma drop_bit_7: "drop_bit j N div 128 = drop_bit (j + 7) (N :: nat)"
  by (simp add: drop_bit_eq_div power_add div_mult2_eq)

lemma last_group_fits:
  assumes "N < 2 ^ 32" and "j < 32" and "of_nat (j + 7) = (35 :: u8)"
  shows "varint_byte (drop_bit j N) AND 0x70 = 0"
proof -
  have "unat (of_nat (j + 7) :: u8) = 35" using assms(3) by simp
  then have "j = 28" using assms(2) unat_of_nat_u8 [of "j + 7"] by simp
  then have m: "drop_bit j N < 16" using assms(1) by (simp add: drop_bit_eq_div div_less_iff_less_mult)
  then have "take_bit 4 (drop_bit j N) = drop_bit j N"
    by (simp add: take_bit_nat_eq_self_iff)
  then have "varint_byte (drop_bit j N) = take_bit 4 (of_nat (drop_bit j N))"
    using m by (simp add: varint_byte_def) (metis take_bit_of_nat)
  moreover have "take_bit 4 x AND 0x70 = 0" for x :: u8
    by (rule u8_eqI) (simp_all add: bit_simps)
  ultimately show ?thesis by simp
qed

lemma pb_varint32_more_enc:
  assumes "N < 2 ^ 32" and "j < 32" and "stream_ok s" and "pending s = enc_varint (drop_bit j N) @ rest"
  shows "\<exists>p byte. pb_varint32_more s (take_bit j (of_nat N)) (of_nat j) =
      (Some (of_nat N, p, byte), after_bytes (enc_varint (drop_bit j N)) s) \<and> \<not> (p = 35 \<and> byte AND 0x70 \<noteq> 0)"
  using assms(2-)
proof (induction "drop_bit j N" arbitrary: j s rule: enc_varint.induct)
  case (1 j)
  let ?m = "drop_bit j N"
  have rd: "pb_readbyte s = (Some (varint_byte ?m), after_bytes [varint_byte ?m] s)"
    using 1(3,4) enc_varint_unfold [of ?m] by (simp add: pb_readbyte_Cons)
  have j: "unat (of_nat j :: u8) = j" "\<not> (of_nat j :: u8) \<ge> 32"
    using 1(2) by (simp_all add: unat_of_nat_u8 word_le_nat_alt)
  have group: "take_bit j (of_nat N) OR push_bit j (ucast (varint_byte ?m AND 0x7F)) = (take_bit (j + 7) (of_nat N) :: u32)"
    by (simp add: varint_byte_low varint_group)
  have unfold: "pb_varint32_more s (take_bit j (of_nat N)) (of_nat j) =
      (if varint_byte ?m AND 0x80 \<noteq> 0
       then pb_varint32_more (after_bytes [varint_byte ?m] s) (take_bit (j + 7) (of_nat N)) (of_nat (j + 7))
       else (Some (take_bit (j + 7) (of_nat N), of_nat (j + 7), varint_byte ?m), after_bytes [varint_byte ?m] s))"
    by (subst pb_varint32_more.simps) (use j group in \<open>simp add: rd Let_def\<close>)
  show ?case
  proof (cases "?m < 128")
    case True
    have "\<not> (of_nat (j + 7) = (35 :: u8) \<and> varint_byte ?m AND 0x70 \<noteq> 0)"
      using last_group_fits [OF assms(1) 1(2)] by blast
    then show ?thesis
      using True unfold varint_end [OF group_below [OF True]] enc_varint_unfold [of ?m]
      by (simp add: varint_byte_top)
  next
    case False
    have "j + 7 < 32" using group_above [OF False assms(1)] .
    then show ?thesis
      using False unfold 1(1) [OF False, of "j + 7" "after_bytes [varint_byte ?m] s"] 1(3,4) enc_varint_unfold [of ?m]
      by (simp add: varint_byte_top drop_bit_7 stream_ok_after pending_after)
  qed
qed

lemma ucast_varint_byte:
  "m < 128 \<Longrightarrow> (ucast (varint_byte m) :: 'a::len word) = take_bit 7 (of_nat m)"
  using varint_group [of 0 m, where 'a = 'a] of_nat_mod_128 [of m]
  by (simp add: varint_byte_def)

lemma pb_decode_varint32_eof_enc:
  assumes "N < 2 ^ 32" and "stream_ok s" and "pending s = enc_varint N @ rest"
  shows "pb_decode_varint32_eof s eof = (Some (of_nat N), after_bytes (enc_varint N) s, eof)"
proof -
  let ?b = "varint_byte N"
  have rd: "pb_readbyte s = (Some ?b, after_bytes [?b] s)"
    using assms(2,3) enc_varint_unfold [of N] by (simp add: pb_readbyte_Cons)
  show ?thesis
  proof (cases "N < 128")
    case True
    then have "(ucast ?b :: u32) = of_nat N"
      using varint_end [of N 7] by (simp add: ucast_varint_byte)
    with True show ?thesis
      by (simp add: pb_decode_varint32_eof_def rd varint_byte_top enc_varint_unfold [of N])
  next
    case False
    have "N div 128 = drop_bit 7 N" by (simp add: drop_bit_eq_div)
    moreover have "pending (after_bytes [?b] s) = enc_varint (N div 128) @ rest"
      using assms(3) False enc_varint_unfold [of N] by (simp add: pending_after)
    moreover have "(ucast (?b AND 0x7F) :: u32) = take_bit 7 (of_nat N)"
      using varint_group [of 0 N, where 'a = 32] by (simp add: varint_byte_low)
    ultimately show ?thesis
      using False pb_varint32_more_enc [OF assms(1), of 7 "after_bytes [?b] s" rest] assms(2)
      by (auto simp: pb_decode_varint32_eof_def rd varint_byte_top stream_ok_after enc_varint_unfold [of N])
  qed
qed

lemma pb_decode_varint32_enc:
  "N < 2 ^ 32 \<Longrightarrow> stream_ok s \<Longrightarrow> pending s = enc_varint N @ rest \<Longrightarrow>
   pb_decode_varint32 s = (Some (of_nat N), after_bytes (enc_varint N) s)"
  by (simp add: pb_decode_varint32_def pb_decode_varint32_eof_enc)

lemma pb_varint_loop_enc:
  assumes "N < 2 ^ 64" and "j < 64" and "stream_ok s" and "pending s = enc_varint (drop_bit j N) @ rest"
  shows "pb_varint_loop s (of_nat j) (take_bit j (of_nat N)) =
      (Some (of_nat N), after_bytes (enc_varint (drop_bit j N)) s)"
  using assms(2-)
proof (induction "drop_bit j N" arbitrary: j s rule: enc_varint.induct)
  case (1 j)
  let ?m = "drop_bit j N"
  have rd: "pb_readbyte s = (Some (varint_byte ?m), after_bytes [varint_byte ?m] s)"
    using 1(3,4) enc_varint_unfold [of ?m] by (simp add: pb_readbyte_Cons)
  have j: "unat (of_nat j :: u8) = j" "\<not> (of_nat j :: u8) \<ge> 64"
    using 1(2) by (simp_all add: unat_of_nat_u8 word_le_nat_alt)
  have group: "take_bit j (of_nat N) OR push_bit j (ucast (varint_byte ?m AND 0x7F)) = (take_bit (j + 7) (of_nat N) :: u64)"
    by (simp add: varint_byte_low varint_group)
  have unfold: "pb_varint_loop s (of_nat j) (take_bit j (of_nat N)) =
      (if varint_byte ?m AND 0x80 \<noteq> 0
       then pb_varint_loop (after_bytes [varint_byte ?m] s) (of_nat (j + 7)) (take_bit (j + 7) (of_nat N))
       else (Some (take_bit (j + 7) (of_nat N)), after_bytes [varint_byte ?m] s))"
    by (subst pb_varint_loop.simps) (use j group in \<open>simp add: rd Let_def\<close>)
  show ?case
  proof (cases "?m < 128")
    case True
    then show ?thesis
      using unfold varint_end [OF group_below [OF True]] enc_varint_unfold [of ?m]
      by (simp add: varint_byte_top)
  next
    case False
    have "j + 7 < 64" using group_above [OF False assms(1)] .
    then show ?thesis
      using False unfold 1(1) [OF False, of "j + 7" "after_bytes [varint_byte ?m] s"] 1(3,4) enc_varint_unfold [of ?m]
      by (simp add: varint_byte_top drop_bit_7 stream_ok_after pending_after)
  qed
qed

lemma pb_decode_varint_enc:
  "N < 2 ^ 64 \<Longrightarrow> stream_ok s \<Longrightarrow> pending s = enc_varint N @ rest \<Longrightarrow>
   pb_decode_varint s = (Some (of_nat N), after_bytes (enc_varint N) s)"
  using pb_varint_loop_enc [of N 0 s rest] by (simp add: pb_decode_varint_def)

text \<open>Tags, and length-prefixed data.\<close>

definition enc_tag :: "nat \<Rightarrow> nat \<Rightarrow> u8 list" where
  "enc_tag wire_type tag = enc_varint (8 * tag + wire_type)"

lemma pb_decode_tag_enc:
  assumes "wt < 8" and "0 < tag" and "tag < 2 ^ 29" and "stream_ok s" and "pending s = enc_tag wt tag @ rest"
  shows "pb_decode_tag s = (Some (wt, tag), after_bytes (enc_tag wt tag) s, False)"
proof -
  let ?n = "8 * tag + wt"
  have n: "?n < 2 ^ 32" using assms(1,3) by simp
  then have u: "unat (of_nat ?n :: u32) = ?n" by (intro unat_of_nat_u32) simp
  have "unat ((of_nat ?n :: u32) AND 7) = wt"
  proof -
    have "(7 :: u32) = mask 3" by (simp add: mask_eq_exp_minus_1)
    then have "(of_nat ?n :: u32) AND 7 = take_bit 3 (of_nat ?n)"
      by (simp only: take_bit_eq_mask)
    then have "unat ((of_nat ?n :: u32) AND 7) = take_bit 3 ?n"
      by (simp only: unsigned_take_bit_eq u)
    then show ?thesis using assms(1) by (simp only: take_bit_eq_mod) simp
  qed
  moreover have "unat (drop_bit 3 (of_nat ?n :: u32)) = tag"
  proof -
    have "take_bit (LENGTH(32) - 3) tag = tag"
      using assms(3) by (simp add: take_bit_nat_eq_self_iff)
    moreover have "drop_bit 3 ?n = tag" using assms(1) by (simp add: drop_bit_eq_div)
    ultimately show ?thesis
      by (simp only: unsigned_drop_bit_eq u) (metis drop_bit_take_bit take_bit_nat_eq_self_iff unsigned_take_bit_eq)
  qed
  moreover have "(of_nat ?n :: u32) \<noteq> 0"
    using u assms(2) by (metis add_is_0 mult_is_0 neq0_conv unat_0 zero_neq_numeral)
  moreover have "pb_decode_varint32_eof s False = (Some (of_nat ?n), after_bytes (enc_tag wt tag) s, False)"
    using pb_decode_varint32_eof_enc [OF n assms(4)] assms(5) by (simp add: enc_tag_def)
  ultimately show ?thesis
    unfolding pb_decode_tag_def by simp
qed

lemma make_substream_enc:
  assumes "length xs < 2 ^ 32" and "stream_ok s" and "pending s = enc_varint (length xs) @ xs @ rest"
  shows "pb_make_string_substream s =
    (Some (after_bytes (enc_varint (length xs)) s\<lparr>bytes_left := length xs\<rparr>),
     after_bytes (enc_varint (length xs)) s\<lparr>bytes_left := length rest\<rparr>)"
proof -
  let ?t = "after_bytes (enc_varint (length xs)) s"
  have "pending ?t = xs @ rest" using assms(3) by (simp add: pending_after)
  then have "bytes_left ?t = length xs + length rest"
    using length_pending [OF stream_ok_after [OF assms(2)], of "enc_varint (length xs)"] by simp
  then show ?thesis
    using pb_decode_varint32_enc [OF assms] assms(1)
    by (simp add: pb_make_string_substream_def unat_of_nat_u32)
qed

section \<open>Property\<close>

text \<open>
  The variable-length integers of a message are read back: where the bytes of a stream start
  with the base 128 encoding of \<open>N\<close>, \<open>pb_decode_varint\<close> returns \<open>N\<close> for every \<open>N\<close> of 64 bits and
  \<open>pb_decode_varint32\<close> for every \<open>N\<close> of 32 bits, and each leaves the stream just after the encoding.
\<close>

theorem varint_roundtrip:
  assumes "N < 2 ^ 64" and "stream_ok s" and "pending s = enc_varint N @ rest"
  shows "pb_decode_varint s = (Some (of_nat N), after_bytes (enc_varint N) s) \<and>
    (N < 2 ^ 32 \<longrightarrow> pb_decode_varint32 s = (Some (of_nat N), after_bytes (enc_varint N) s)) \<and>
    pending (after_bytes (enc_varint N) s) = rest"
  using pb_decode_varint_enc [OF assms] pb_decode_varint32_enc [OF _ assms(2,3)] assms(3)
  by (simp add: pending_after)

theorem varint_roundtrip_witness:
  "pb_decode_varint32 (pb_istream_from_buffer [0xAC, 0x02, 0x07] 3) =
     (Some 300, \<lparr>pb_state = [0x07], bytes_left = 1, errmsg = None\<rparr>)"
proof -
  let ?s = "pb_istream_from_buffer [0xAC, 0x02, 0x07] 3"
  have enc: "enc_varint 300 = [0xAC, 0x02]" by (simp add: enc_varint.simps)
  then have "pending ?s = enc_varint 300 @ [0x07]"
    by (simp add: pending_def pb_istream_from_buffer_def)
  then show ?thesis
    using varint_roundtrip [of 300 ?s "[0x07]"]
    by (simp add: enc stream_ok_def after_bytes_def pb_istream_from_buffer_def)
qed

end
