(* ===== verification/Pb_Fields.thy ===== *)
theory Pb_Fields
  imports Prelude
begin

text \<open>
  Field descriptors of nanopb and the iterator over a message's fields (\<^verbatim>\<open>src/pb.h\<close>,
  \<^verbatim>\<open>src/pb_common.c\<close>). A descriptor table is the list of its entries without the terminator, which
  \<open>field_at\<close> supplies past the end. A descriptor's type is its three parts. The kinds of fields
  that no table of the program uses and that need code pointers in the message, callbacks and
  extensions, have no constructor.
\<close>

datatype pb_ltype =
    LTYPE_BOOL | LTYPE_VARINT | LTYPE_UVARINT | LTYPE_SVARINT | LTYPE_FIXED32 | LTYPE_FIXED64
  | LTYPE_BYTES | LTYPE_STRING | LTYPE_SUBMESSAGE | LTYPE_FIXED_LENGTH_BYTES

datatype pb_htype = HTYPE_REQUIRED | HTYPE_OPTIONAL | HTYPE_REPEATED | HTYPE_ONEOF

datatype pb_atype = ATYPE_STATIC | ATYPE_POINTER

fun ltype_value :: "pb_ltype \<Rightarrow> nat" where
  "ltype_value LTYPE_BOOL = 0x00"
| "ltype_value LTYPE_VARINT = 0x01"
| "ltype_value LTYPE_UVARINT = 0x02"
| "ltype_value LTYPE_SVARINT = 0x03"
| "ltype_value LTYPE_FIXED32 = 0x04"
| "ltype_value LTYPE_FIXED64 = 0x05"
| "ltype_value LTYPE_BYTES = 0x06"
| "ltype_value LTYPE_STRING = 0x07"
| "ltype_value LTYPE_SUBMESSAGE = 0x08"
| "ltype_value LTYPE_FIXED_LENGTH_BYTES = 0x0A"

definition PB_LTYPE_LAST_PACKABLE :: nat where "PB_LTYPE_LAST_PACKABLE = 0x05"
definition PB_SIZE_MAX :: nat where "PB_SIZE_MAX = 255"
definition sizeof_pointer :: nat where "sizeof_pointer = 4"

text \<open>
  The members of \<open>pb_field_s\<close> are 8-bit constants here, which the code only reads; \<open>ptr\<close> is null, a
  default value or the table of a submessage.
\<close>

datatype pb_field =
    PB_FIELD (f_tag: nat) (f_ltype: pb_ltype) (f_htype: pb_htype) (f_atype: pb_atype)
      (data_offset: nat) (size_offset: int) (data_size: nat) (array_size: nat) (f_ptr: pb_ptr)
and pb_ptr = PTR_NULL | PTR_DEFAULT "u8 list" | PTR_FIELDS "pb_field list"

definition PB_LAST_FIELD :: pb_field where
  "PB_LAST_FIELD = PB_FIELD 0 LTYPE_BOOL HTYPE_REQUIRED ATYPE_STATIC 0 0 0 0 PTR_NULL"

definition field_at :: "pb_field list \<Rightarrow> nat \<Rightarrow> pb_field" where
  "field_at tbl i = (if i < length tbl then tbl ! i else PB_LAST_FIELD)"

section \<open>The iterator\<close>

text \<open>
  \<open>pSize\<close> points into the message, or, once \<open>pb_decode_noinit\<close> has set it so, at the counter of
  fixed-count arrays. \<open>pos\<close> is an index into the table, \<open>dest_struct\<close>, \<open>pData\<close> and \<open>pSize\<close> are
  offsets in the memory object of the message.
\<close>

datatype psize = At nat | Fixed_count

record pb_field_iter =
  start :: "pb_field list"
  pos :: nat
  required_field_index :: nat
  dest_struct :: nat
  pData :: nat
  pSize :: psize

definition pb_field_iter_begin :: "pb_field list \<Rightarrow> nat \<Rightarrow> bool \<times> pb_field_iter" where
  "pb_field_iter_begin tbl dest =
     (let f = field_at tbl 0; p = dest + data_offset f in
      (f_tag f \<noteq> 0,
       \<lparr>start = tbl, pos = 0, required_field_index = 0, dest_struct = dest,
        pData = p, pSize = At (nat (int p + size_offset f))\<rparr>))"

definition pb_field_iter_next :: "pb_field_iter \<Rightarrow> bool \<times> pb_field_iter" where
  "pb_field_iter_next iter =
     (let prev_field = field_at (start iter) (pos iter) in
      if f_tag prev_field = 0 then (False, iter)
      else
        let iter = iter\<lparr>pos := pos iter + 1\<rparr>;
            f = field_at (start iter) (pos iter)
        in if f_tag f = 0 then (False, snd (pb_field_iter_begin (start iter) (dest_struct iter)))
        else if f_htype prev_field = HTYPE_ONEOF \<and> f_htype f = HTYPE_ONEOF \<and> data_offset f = PB_SIZE_MAX
        then (True, iter)
        else
          let prev_size =
                (if f_atype prev_field = ATYPE_STATIC \<and> f_htype prev_field = HTYPE_REPEATED
                 then data_size prev_field * array_size prev_field
                 else if f_atype prev_field = ATYPE_POINTER then sizeof_pointer
                 else data_size prev_field);
              iter = (if f_htype prev_field = HTYPE_REQUIRED
                      then iter\<lparr>required_field_index := required_field_index iter + 1\<rparr> else iter);
              p = pData iter + prev_size + data_offset f
          in (True, iter\<lparr>pData := p, pSize := At (nat (int p + size_offset f))\<rparr>))"

text \<open>
  The search goes round the table from where the iterator stands. \<open>fuel\<close> bounds the turns: the
  table's length is enough, and is what the search is started with.
\<close>

fun iter_find_loop :: "nat \<Rightarrow> nat \<Rightarrow> pb_field_iter \<Rightarrow> nat \<Rightarrow> bool \<times> pb_field_iter" where
  "iter_find_loop 0 start_pos iter tag = (False, iter)"
| "iter_find_loop (Suc fuel) start_pos iter tag =
     (if f_tag (field_at (start iter) (pos iter)) = tag then (True, iter)
      else
        let iter = snd (pb_field_iter_next iter)
        in if pos iter \<noteq> start_pos then iter_find_loop fuel start_pos iter tag else (False, iter))"

definition pb_field_iter_find :: "pb_field_iter \<Rightarrow> nat \<Rightarrow> bool \<times> pb_field_iter" where
  "pb_field_iter_find iter tag = iter_find_loop (Suc (length (start iter))) (pos iter) iter tag"

section \<open>Where the iterator points\<close>

text \<open>The offsets of the data and of the size cell of field \<open>i\<close>, from the table alone.\<close>

fun field_data :: "pb_field list \<Rightarrow> nat \<Rightarrow> nat \<Rightarrow> nat" where
  "field_data tbl dest 0 = pData (snd (pb_field_iter_begin tbl dest))"
| "field_data tbl dest (Suc i) =
     (let f = field_at tbl i; g = field_at tbl (Suc i) in
      if f_htype f = HTYPE_ONEOF \<and> f_htype g = HTYPE_ONEOF \<and> data_offset g = PB_SIZE_MAX
      then field_data tbl dest i
      else field_data tbl dest i +
             (if f_atype f = ATYPE_STATIC \<and> f_htype f = HTYPE_REPEATED then data_size f * array_size f
              else if f_atype f = ATYPE_POINTER then sizeof_pointer else data_size f) +
             data_offset g)"

fun field_size_cell :: "pb_field list \<Rightarrow> nat \<Rightarrow> nat \<Rightarrow> nat" where
  "field_size_cell tbl dest 0 = nat (int (field_data tbl dest 0) + size_offset (field_at tbl 0))"
| "field_size_cell tbl dest (Suc i) =
     (let f = field_at tbl i; g = field_at tbl (Suc i) in
      if f_htype f = HTYPE_ONEOF \<and> f_htype g = HTYPE_ONEOF \<and> data_offset g = PB_SIZE_MAX
      then field_size_cell tbl dest i
      else nat (int (field_data tbl dest (Suc i)) + size_offset g))"

text \<open>
  An iterator on a field of the table \<open>tbl\<close> of the message at \<open>dest\<close>: its pointers are the field's.
\<close>

definition iter_at :: "pb_field list \<Rightarrow> nat \<Rightarrow> nat \<Rightarrow> pb_field_iter \<Rightarrow> bool" where
  "iter_at tbl dest i it \<longleftrightarrow>
     start it = tbl \<and> dest_struct it = dest \<and> pos it = i \<and> i < length tbl \<and>
     pData it = field_data tbl dest i \<and>
     (pSize it = At (field_size_cell tbl dest i) \<or> pSize it = Fixed_count)"

definition tags_ok :: "pb_field list \<Rightarrow> bool" where
  "tags_ok tbl \<longleftrightarrow> (\<forall>f \<in> set tbl. f_tag f \<noteq> 0) \<and> distinct (map f_tag tbl)"

lemma tag_at:
  assumes "tags_ok tbl"
  shows "f_tag (field_at tbl i) = 0 \<longleftrightarrow> length tbl \<le> i"
    and "0 < f_tag (field_at tbl i) \<longleftrightarrow> i < length tbl"
  using assms by (force simp: tags_ok_def field_at_def PB_LAST_FIELD_def)+

lemma begin_iter_at:
  "tbl \<noteq> [] \<Longrightarrow> iter_at tbl dest 0 (snd (pb_field_iter_begin tbl dest))"
  by (simp add: iter_at_def pb_field_iter_begin_def Let_def)

lemma begin_True: "tags_ok tbl \<Longrightarrow> fst (pb_field_iter_begin tbl dest) \<longleftrightarrow> tbl \<noteq> []"
  by (auto simp: pb_field_iter_begin_def Let_def tag_at)

lemma next_iter_at:
  assumes "tags_ok tbl" and "iter_at tbl dest i it"
  shows "iter_at tbl dest (if Suc i < length tbl then Suc i else 0) (snd (pb_field_iter_next it))"
    and "fst (pb_field_iter_next it) \<longleftrightarrow> Suc i < length tbl"
proof -
  have tbl: "tbl \<noteq> []" "i < length tbl" using assms(2) by (auto simp: iter_at_def)
  have tag: "f_tag (field_at tbl i) \<noteq> 0"
    using assms tbl by (simp add: tag_at)
  show "iter_at tbl dest (if Suc i < length tbl then Suc i else 0) (snd (pb_field_iter_next it))"
  proof (cases "Suc i < length tbl")
    case True
    then have "f_tag (field_at tbl (Suc i)) \<noteq> 0" using assms(1) by (simp add: tag_at)
    with True tag assms(2) show ?thesis
      by (auto simp: pb_field_iter_next_def iter_at_def Let_def)
  next
    case False
    then have "f_tag (field_at tbl (Suc i)) = 0" using assms(1) by (simp add: tag_at)
    with False tag assms(2) tbl begin_iter_at [OF tbl(1), of dest] show ?thesis
      by (simp add: pb_field_iter_next_def iter_at_def Let_def)
  qed
  show "fst (pb_field_iter_next it) \<longleftrightarrow> Suc i < length tbl"
    using tag assms by (auto simp: pb_field_iter_next_def iter_at_def Let_def tag_at)
qed

text \<open>The positions a search that began at \<open>sp\<close> has still to visit from \<open>i\<close> on, of \<open>n\<close>.\<close>

definition to_visit :: "nat \<Rightarrow> nat \<Rightarrow> nat \<Rightarrow> nat set" where
  "to_visit n sp i = {k. k < n \<and> (if sp \<le> i then i \<le> k \<or> k < sp else i \<le> k \<and> k < sp)}"

definition turns_left :: "nat \<Rightarrow> nat \<Rightarrow> nat \<Rightarrow> nat" where
  "turns_left n sp i = (if sp \<le> i then n - i + sp else sp - i)"

lemma to_visit_step:
  assumes "i < n" and "sp < n" and "j = (if Suc i < n then Suc i else 0)"
  shows "j \<noteq> sp \<Longrightarrow> to_visit n sp i = insert i (to_visit n sp j) \<and> Suc (turns_left n sp j) = turns_left n sp i"
    and "j = sp \<Longrightarrow> to_visit n sp i = {i}"
    and "0 < turns_left n sp i"
  using assms by (auto simp: to_visit_def turns_left_def split: if_splits)

lemma iter_find_loop_found:
  assumes "tags_ok tbl" and "iter_at tbl dest i it" and "sp < length tbl"
    and "turns_left (length tbl) sp i \<le> fuel"
    and "k \<in> to_visit (length tbl) sp i" and "f_tag (tbl ! k) = tag"
  shows "\<exists>it'. iter_find_loop fuel sp it tag = (True, it') \<and> iter_at tbl dest k it' \<and> (k = i \<longrightarrow> it' = it)"
  using assms(2,4,5)
proof (induction fuel arbitrary: i it)
  case 0
  have "i < length tbl" using 0(1) by (simp add: iter_at_def)
  then show ?case using 0(2) to_visit_step(3) [of i "length tbl" sp] assms(3) by simp
next
  case (Suc fuel)
  have i: "i < length tbl" "start it = tbl" "pos it = i" using Suc.prems(1) by (auto simp: iter_at_def)
  show ?case
  proof (cases "f_tag (tbl ! i) = tag")
    case True
    then have "k = i"
      using assms(1,5,6) i by (auto simp: tags_ok_def to_visit_def distinct_conv_nth)
    with True i Suc.prems(1) show ?thesis by (simp add: field_at_def)
  next
    case False
    let ?it = "snd (pb_field_iter_next it)"
    let ?j = "if Suc i < length tbl then Suc i else 0"
    have next_it: "iter_at tbl dest ?j ?it" by (rule next_iter_at [OF assms(1) Suc.prems(1)])
    then have pos: "pos ?it = ?j" by (simp add: iter_at_def)
    have "k \<noteq> i" using False assms(6) by auto
    then have j: "?j \<noteq> sp" and "k \<in> to_visit (length tbl) sp ?j"
      using to_visit_step(1,2) [OF i(1) assms(3) refl] Suc.prems(3) by blast+
    moreover have "turns_left (length tbl) sp ?j \<le> fuel"
      using to_visit_step(1) [OF i(1) assms(3) refl j] Suc.prems(2) by simp
    ultimately obtain it' where "iter_find_loop fuel sp ?it tag = (True, it')" "iter_at tbl dest k it'"
      using Suc.IH [OF next_it] by blast
    then show ?thesis
      using False i j pos \<open>k \<noteq> i\<close> by (auto simp: field_at_def Let_def)
  qed
qed

lemma iter_find_loop_not_found:
  assumes "tags_ok tbl" and "iter_at tbl dest i it" and "sp < length tbl"
    and "turns_left (length tbl) sp i \<le> fuel"
    and "\<forall>k < length tbl. f_tag (tbl ! k) \<noteq> tag"
  shows "\<exists>it'. iter_find_loop fuel sp it tag = (False, it') \<and> iter_at tbl dest sp it'"
  using assms(2,4)
proof (induction fuel arbitrary: i it)
  case 0
  have "i < length tbl" using 0(1) by (simp add: iter_at_def)
  then show ?case using 0(2) to_visit_step(3) [of i "length tbl" sp] assms(3) by simp
next
  case (Suc fuel)
  have i: "i < length tbl" "start it = tbl" "pos it = i" using Suc.prems(1) by (auto simp: iter_at_def)
  let ?it = "snd (pb_field_iter_next it)"
  let ?j = "if Suc i < length tbl then Suc i else 0"
  have next_it: "iter_at tbl dest ?j ?it" by (rule next_iter_at [OF assms(1) Suc.prems(1)])
  then have pos: "pos ?it = ?j" by (simp add: iter_at_def)
  show ?case
  proof (cases "?j = sp")
    case True
    with assms(5) i pos next_it show ?thesis by (auto simp: field_at_def Let_def)
  next
    case False
    then have "turns_left (length tbl) sp ?j \<le> fuel"
      using to_visit_step(1) [OF i(1) assms(3) refl False] Suc.prems(2) by simp
    with Suc.IH [OF next_it] False assms(5) i pos show ?thesis by (auto simp: field_at_def Let_def)
  qed
qed

text \<open>The search finds the field of a tag wherever the iterator stood, and none if there is none.\<close>

lemma iter_find_found:
  assumes "tags_ok tbl" and "iter_at tbl dest i it" and "k < length tbl" and "f_tag (tbl ! k) = tag"
  shows "\<exists>it'. pb_field_iter_find it tag = (True, it') \<and> iter_at tbl dest k it' \<and> (k = i \<longrightarrow> it' = it)"
proof -
  have i: "i < length tbl" "start it = tbl" "pos it = i" using assms(2) by (auto simp: iter_at_def)
  have "turns_left (length tbl) i i \<le> Suc (length tbl)" "k \<in> to_visit (length tbl) i i"
    using i assms(3) by (auto simp: turns_left_def to_visit_def)
  from iter_find_loop_found [OF assms(1,2) i(1) this assms(4)] show ?thesis
    using i by (auto simp: pb_field_iter_find_def)
qed

lemma iter_find_not_found:
  assumes "tags_ok tbl" and "iter_at tbl dest i it" and "\<forall>k < length tbl. f_tag (tbl ! k) \<noteq> tag"
  shows "\<exists>it'. pb_field_iter_find it tag = (False, it') \<and> iter_at tbl dest i it'"
proof -
  have i: "i < length tbl" "start it = tbl" "pos it = i" using assms(2) by (auto simp: iter_at_def)
  have "turns_left (length tbl) i i \<le> Suc (length tbl)" using i by (simp add: turns_left_def)
  from iter_find_loop_not_found [OF assms(1,2) i(1) this assms(3)] show ?thesis
    using i by (auto simp: pb_field_iter_find_def)
qed

end
