(* ===== verification/Pb_Decode.thy ===== *)
theory Pb_Decode
  imports Pb_Stream Pb_Fields
begin

text \<open>
  The message decoder of nanopb (\<^verbatim>\<open>src/pb_decode.c\<close>, second half): the decoders of the field
  types, the storing of one field, default values and the loop over a message. A message lives in
  a memory object, a decoder writes into it at an offset and returns its verdict, the new memory
  and the stream. Allocation is off (\<open>PB_ENABLE_MALLOC\<close> is not defined), and so are the
  proto2 checks (\<open>PROTO2_SUPPORT\<close>).

  \<open>pb_decode_noinit\<close> calls itself for submessages; its first test compares the stack pointer with the
  end of the static data. The model counts the nested calls for which there is room: the
  first argument of \<open>pb_decode_noinit\<close>, whose value 0 is the failing test.
\<close>

type_synonym pb_decoder = "pb_istream \<Rightarrow> pb_field \<Rightarrow> nat \<Rightarrow> mem \<Rightarrow> bool \<times> mem \<times> pb_istream"

section \<open>Decoders of the field types\<close>

text \<open>The bytes of an \<open>n\<close>-byte integer in memory; the device is little endian.\<close>

definition le_bytes :: "nat \<Rightarrow> u64 \<Rightarrow> u8 list" where
  "le_bytes n w = map (\<lambda>i. ucast (drop_bit (8 * i) w)) [0..<n]"

definition le_value :: "u8 list \<Rightarrow> u64" where
  "le_value bytes = foldr (\<lambda>b acc. ucast b OR push_bit 8 acc) bytes 0"

definition pb_decode_svarint :: "pb_istream \<Rightarrow> u64 option \<times> pb_istream" where
  "pb_decode_svarint stream =
     (case pb_decode_varint stream of
        (None, stream) \<Rightarrow> (None, stream)
      | (Some value, stream) \<Rightarrow>
          (Some (if value AND 1 \<noteq> 0 then NOT (drop_bit 1 value) else drop_bit 1 value), stream))"

definition pb_decode_fixed32 :: "pb_istream \<Rightarrow> nat \<Rightarrow> mem \<Rightarrow> bool \<times> mem \<times> pb_istream" where
  "pb_decode_fixed32 stream dest m =
     (case pb_read stream 4 of
        (None, stream) \<Rightarrow> (False, m, stream)
      | (Some bytes, stream) \<Rightarrow> (True, mwrite dest (le_bytes 4 (le_value bytes)) m, stream))"

definition pb_decode_fixed64 :: "pb_istream \<Rightarrow> nat \<Rightarrow> mem \<Rightarrow> bool \<times> mem \<times> pb_istream" where
  "pb_decode_fixed64 stream dest m =
     (case pb_read stream 8 of
        (None, stream) \<Rightarrow> (False, m, stream)
      | (Some bytes, stream) \<Rightarrow> (True, mwrite dest (le_bytes 8 (le_value bytes)) m, stream))"

definition pb_dec_bool :: pb_decoder where
  "pb_dec_bool stream field dest m =
     (case pb_decode_varint32 stream of
        (None, stream) \<Rightarrow> (False, m, stream)
      | (Some value, stream) \<Rightarrow> (True, mwrite dest [if value \<noteq> 0 then 1 else 0] m, stream))"

text \<open>
  The common end of the integer decoders: the value is stored at the field's width and read
  back, by \<open>clamp\<close>, as the C assignment \<open>clamped = *dest = value\<close> does.
\<close>

definition store_integer ::
    "(nat \<Rightarrow> u64 \<Rightarrow> u64) \<Rightarrow> pb_istream \<Rightarrow> pb_field \<Rightarrow> u64 \<Rightarrow> nat \<Rightarrow> mem \<Rightarrow> bool \<times> mem \<times> pb_istream" where
  "store_integer clamp stream field value dest m =
     (if data_size field \<in> {8, 4, 2, 1} then
        let m = mwrite dest (le_bytes (data_size field) value) m in
        if clamp (data_size field) value \<noteq> value then (False, m, pb_set_error ''integer too large'' stream)
        else (True, m, stream)
      else (False, m, pb_set_error ''invalid data_size'' stream))"

definition clamp_signed :: "nat \<Rightarrow> u64 \<Rightarrow> u64" where
  "clamp_signed n v =
     (if n = 8 then v else if n = 4 then scast (ucast v :: u32)
      else if n = 2 then scast (ucast v :: u16) else scast (ucast v :: u8))"

definition clamp_unsigned :: "nat \<Rightarrow> u64 \<Rightarrow> u64" where
  "clamp_unsigned n v =
     (if n = 8 then v else if n = 4 then ucast (ucast v :: u32)
      else if n = 2 then ucast (ucast v :: u16) else ucast (ucast v :: u8))"

definition pb_dec_varint :: pb_decoder where
  "pb_dec_varint stream field dest m =
     (case pb_decode_varint stream of
        (None, stream) \<Rightarrow> (False, m, stream)
      | (Some value, stream) \<Rightarrow>
          let svalue = (if data_size field = 8 then value else scast (ucast value :: u32))
          in store_integer clamp_signed stream field svalue dest m)"

definition pb_dec_uvarint :: pb_decoder where
  "pb_dec_uvarint stream field dest m =
     (case pb_decode_varint stream of
        (None, stream) \<Rightarrow> (False, m, stream)
      | (Some value, stream) \<Rightarrow> store_integer clamp_unsigned stream field value dest m)"

definition pb_dec_svarint :: pb_decoder where
  "pb_dec_svarint stream field dest m =
     (case pb_decode_svarint stream of
        (None, stream) \<Rightarrow> (False, m, stream)
      | (Some value, stream) \<Rightarrow> store_integer clamp_signed stream field value dest m)"

definition pb_dec_fixed32 :: pb_decoder where
  "pb_dec_fixed32 stream field dest m = pb_decode_fixed32 stream dest m"

definition pb_dec_fixed64 :: pb_decoder where
  "pb_dec_fixed64 stream field dest m = pb_decode_fixed64 stream dest m"

text \<open>A read of \<open>n\<close> bytes into memory.\<close>

definition pb_read_into :: "pb_istream \<Rightarrow> nat \<Rightarrow> nat \<Rightarrow> mem \<Rightarrow> bool \<times> mem \<times> pb_istream" where
  "pb_read_into stream n dest m =
     (case pb_read stream n of
        (None, stream) \<Rightarrow> (False, m, stream)
      | (Some bytes, stream) \<Rightarrow> (True, mwrite dest bytes m, stream))"

definition pb_dec_bytes :: pb_decoder where
  "pb_dec_bytes stream field dest m =
     (case pb_decode_varint32 stream of
        (None, stream) \<Rightarrow> (False, m, stream)
      | (Some sz, stream) \<Rightarrow>
          if unat sz > PB_SIZE_MAX then (False, m, pb_set_error ''bytes overflow'' stream)
          else
            let alloc_size = sz + 1 in
            if sz > alloc_size then (False, m, pb_set_error ''size too large'' stream)
            else if f_atype field = ATYPE_POINTER then (False, m, pb_set_error ''no malloc support'' stream)
            else if unat alloc_size > data_size field then (False, m, pb_set_error ''bytes overflow'' stream)
            else pb_read_into stream (unat sz) (dest + 1) (mwrite dest [ucast sz] m))"

definition pb_dec_string :: pb_decoder where
  "pb_dec_string stream field dest m =
     (case pb_decode_varint32 stream of
        (None, stream) \<Rightarrow> (False, m, stream)
      | (Some sz, stream) \<Rightarrow>
          let alloc_size = sz + 1 in
          if alloc_size < sz then (False, m, pb_set_error ''size too large'' stream)
          else if f_atype field = ATYPE_POINTER then (False, m, pb_set_error ''no malloc support'' stream)
          else if unat alloc_size > data_size field then (False, m, pb_set_error ''string overflow'' stream)
          else
            let (status, m, stream) = pb_read_into stream (unat sz) dest m
            in (status, mwrite (dest + unat sz) [0] m, stream))"

definition pb_dec_fixed_length_bytes :: pb_decoder where
  "pb_dec_fixed_length_bytes stream field dest m =
     (case pb_decode_varint32 stream of
        (None, stream) \<Rightarrow> (False, m, stream)
      | (Some sz, stream) \<Rightarrow>
          if unat sz > PB_SIZE_MAX then (False, m, pb_set_error ''bytes overflow'' stream)
          else if sz = 0 then (True, memset dest 0 (data_size field) m, stream)
          else if unat sz \<noteq> data_size field
          then (False, m, pb_set_error ''incorrect fixed length bytes size'' stream)
          else pb_read_into stream (data_size field) dest m)"

section \<open>Default values\<close>

text \<open>The array counts and presence flags: one byte, in the message or the local counter.\<close>

fun write_size :: "psize \<Rightarrow> u8 \<Rightarrow> mem \<times> u8 \<Rightarrow> mem \<times> u8" where
  "write_size (At p) v (m, count) = (mwrite p [v] m, count)"
| "write_size Fixed_count v (m, count) = (m, v)"

fun read_size :: "psize \<Rightarrow> mem \<times> u8 \<Rightarrow> u8" where
  "read_size (At p) (m, count) = m ! p"
| "read_size Fixed_count (m, count) = count"

lemma next_pos:
  assumes "pb_field_iter_next it = (True, it')"
  shows "start it' = start it" and "pos it' = Suc (pos it)" and "pos it' < length (start it)"
proof -
  have "f_tag PB_LAST_FIELD = 0" by (simp add: PB_LAST_FIELD_def)
  then show "start it' = start it" "pos it' = Suc (pos it)" "pos it' < length (start it)"
    using assms by (auto simp: pb_field_iter_next_def Let_def field_at_def split: if_splits)
qed

lemma next_measure:
  "(True, it') = pb_field_iter_next it \<Longrightarrow> length (start it') - pos it' < length (start it) - pos it"
  using next_pos [of it it'] by simp

lemma submessage_table_smaller:
  assumes "f_ptr (field_at tbl i) = PTR_FIELDS sub"
  shows "size_list size sub < size_list size tbl"
proof (cases "i < length tbl")
  case True
  have "f \<in> set tbl \<Longrightarrow> size f < size_list size tbl" for f
    by (induction tbl) auto
  with True have "size (tbl ! i) < size_list size tbl" by simp
  moreover have "size_list size sub < size (tbl ! i)"
    using assms True by (cases "tbl ! i") (auto simp: field_at_def)
  ultimately show ?thesis by simp
qed (use assms in \<open>simp add: field_at_def PB_LAST_FIELD_def\<close>)

text \<open>
  \<open>set_defaults_from\<close> is the loop of \<open>pb_message_set_to_defaults\<close> from an iterator on. The recursion
  ends because a submessage's table is part of its parent's.
\<close>

function pb_message_set_to_defaults :: "pb_field list \<Rightarrow> nat \<Rightarrow> mem \<Rightarrow> mem"
  and set_defaults_from :: "pb_field_iter \<Rightarrow> mem \<Rightarrow> mem"
  and pb_field_set_to_default :: "pb_field_iter \<Rightarrow> mem \<Rightarrow> mem"
where
  "pb_message_set_to_defaults tbl dest m =
     (case pb_field_iter_begin tbl dest of
        (ok, iter) \<Rightarrow> if \<not> ok then m else set_defaults_from iter m)"
| "set_defaults_from iter m =
     (let m = pb_field_set_to_default iter m in
      case pb_field_iter_next iter of
        (again, iter') \<Rightarrow> if again then set_defaults_from iter' m else m)"
| "pb_field_set_to_default iter m =
     (let f = field_at (start iter) (pos iter) in
      case f_atype f of
        ATYPE_STATIC \<Rightarrow>
          let has_flag = (f_htype f = HTYPE_OPTIONAL \<and> pSize iter \<noteq> At (pData iter));
              counted = (f_htype f = HTYPE_REPEATED \<or> f_htype f = HTYPE_ONEOF);
              m = (if has_flag \<or> counted then fst (write_size (pSize iter) 0 (m, 0)) else m)
          in if \<not> counted then
               (case f_ltype f of
                  LTYPE_SUBMESSAGE \<Rightarrow>
                    (case f_ptr f of
                       PTR_FIELDS sub \<Rightarrow> pb_message_set_to_defaults sub (pData iter) m
                     | _ \<Rightarrow> m)
                | _ \<Rightarrow>
                    (case f_ptr f of
                       PTR_DEFAULT bytes \<Rightarrow> mwrite (pData iter) (take (data_size f) bytes) m
                     | PTR_NULL \<Rightarrow> memset (pData iter) 0 (data_size f) m
                     | PTR_FIELDS _ \<Rightarrow> m))
             else m
      | ATYPE_POINTER \<Rightarrow>
          let m = memset (pData iter) 0 sizeof_pointer m in
          if f_htype f = HTYPE_REPEATED \<or> f_htype f = HTYPE_ONEOF
          then fst (write_size (pSize iter) 0 (m, 0)) else m)"
  by pat_completeness auto
termination
  by (relation "measures
    [case_sum (\<lambda>(tbl, dest, m). size_list size tbl)
       (case_sum (\<lambda>(it, m). size_list size (start it)) (\<lambda>(it, m). size_list size (start it))),
     case_sum (\<lambda>(tbl, dest, m). 2 * length tbl + 2)
       (case_sum (\<lambda>(it, m). 2 * (length (start it) - pos it) + 1) (\<lambda>(it, m). 2 * (length (start it) - pos it)))]")
   (auto simp: pb_field_iter_begin_def Let_def dest: submessage_table_smaller next_pos [OF sym] next_measure)

declare pb_message_set_to_defaults.simps [simp del] set_defaults_from.simps [simp del]
  pb_field_set_to_default.simps [simp del]

section \<open>One field\<close>

text \<open>\<open>PB_DECODERS\<close>; the decoder of submessages is the recursive one.\<close>

fun PB_DECODERS :: "pb_decoder \<Rightarrow> pb_ltype \<Rightarrow> pb_decoder" where
  "PB_DECODERS submessage LTYPE_BOOL = pb_dec_bool"
| "PB_DECODERS submessage LTYPE_VARINT = pb_dec_varint"
| "PB_DECODERS submessage LTYPE_UVARINT = pb_dec_uvarint"
| "PB_DECODERS submessage LTYPE_SVARINT = pb_dec_svarint"
| "PB_DECODERS submessage LTYPE_FIXED32 = pb_dec_fixed32"
| "PB_DECODERS submessage LTYPE_FIXED64 = pb_dec_fixed64"
| "PB_DECODERS submessage LTYPE_BYTES = pb_dec_bytes"
| "PB_DECODERS submessage LTYPE_STRING = pb_dec_string"
| "PB_DECODERS submessage LTYPE_SUBMESSAGE = submessage"
| "PB_DECODERS submessage LTYPE_FIXED_LENGTH_BYTES = pb_dec_fixed_length_bytes"

text \<open>
  The loop over a packed array. Every turn takes a byte at least, so that as many turns as the
  substream has bytes are enough; \<open>None\<close> would be one turn more.
\<close>

fun packed_loop ::
    "nat \<Rightarrow> pb_decoder \<Rightarrow> pb_field \<Rightarrow> nat \<Rightarrow> psize \<Rightarrow> pb_istream \<Rightarrow> mem \<times> u8 \<Rightarrow>
     (bool \<times> (mem \<times> u8) \<times> pb_istream) option" where
  "packed_loop fuel func f p sz substream (m, count) =
     (if bytes_left substream > 0 \<and> unat (read_size sz (m, count)) < array_size f then
        case fuel of
          0 \<Rightarrow> None
        | Suc fuel \<Rightarrow>
            let pItem = p + data_size f * unat (read_size sz (m, count));
                (ok, m, substream) = func substream f pItem m
            in if \<not> ok then Some (False, (m, count), substream)
               else packed_loop fuel func f p sz substream
                      (write_size sz (read_size sz (m, count) + 1) (m, count))
      else Some (True, (m, count), substream))"

definition decode_static_field ::
    "pb_decoder \<Rightarrow> pb_istream \<Rightarrow> nat \<Rightarrow> pb_field_iter \<Rightarrow> mem \<times> u8 \<Rightarrow> bool \<times> (mem \<times> u8) \<times> pb_istream" where
  "decode_static_field submessage stream wire_type iter mc =
     (let f = field_at (start iter) (pos iter);
          func = PB_DECODERS submessage (f_ltype f);
          run = (\<lambda>mc p. case func stream f p (fst mc) of (ok, m, stream) \<Rightarrow> (ok, (m, snd mc), stream))
      in case f_htype f of
        HTYPE_REQUIRED \<Rightarrow> run mc (pData iter)
      | HTYPE_OPTIONAL \<Rightarrow>
          let mc = (if pSize iter \<noteq> At (pData iter) then write_size (pSize iter) 1 mc else mc)
          in run mc (pData iter)
      | HTYPE_REPEATED \<Rightarrow>
          if wire_type = PB_WT_STRING \<and> ltype_value (f_ltype f) \<le> PB_LTYPE_LAST_PACKABLE then
            (case pb_make_string_substream stream of
               (None, stream) \<Rightarrow> (False, mc, stream)
             | (Some substream, stream) \<Rightarrow>
                 (case packed_loop (bytes_left substream) func f (pData iter) (pSize iter) substream mc of
                    None \<Rightarrow> (False, mc, stream)
                  | Some (status, mc, substream) \<Rightarrow>
                      if bytes_left substream \<noteq> 0 then (False, mc, pb_set_error ''array overflow'' stream)
                      else case pb_close_string_substream stream substream of
                        (ok, stream) \<Rightarrow> if \<not> ok then (False, mc, stream) else (status, mc, stream)))
          else
            let n = read_size (pSize iter) mc; pItem = pData iter + data_size f * unat n in
            if unat n \<ge> array_size f then (False, mc, pb_set_error ''array overflow'' stream)
            else run (write_size (pSize iter) (n + 1) mc) pItem
      | HTYPE_ONEOF \<Rightarrow>
          let mc = (if f_ltype f = LTYPE_SUBMESSAGE \<and> unat (read_size (pSize iter) mc) \<noteq> f_tag f
                    then
                      let m = memset (pData iter) 0 (data_size f) (fst mc) in
                      ((case f_ptr f of
                          PTR_FIELDS sub \<Rightarrow> pb_message_set_to_defaults sub (pData iter) m | _ \<Rightarrow> m), snd mc)
                    else mc);
              mc = write_size (pSize iter) (of_nat (f_tag f)) mc
          in run mc (pData iter))"

definition decode_pointer_field :: "pb_istream \<Rightarrow> mem \<times> u8 \<Rightarrow> bool \<times> (mem \<times> u8) \<times> pb_istream" where
  "decode_pointer_field stream mc = (False, mc, pb_set_error ''no malloc support'' stream)"

definition decode_field ::
    "pb_decoder \<Rightarrow> pb_istream \<Rightarrow> nat \<Rightarrow> pb_field_iter \<Rightarrow> mem \<times> u8 \<Rightarrow> bool \<times> (mem \<times> u8) \<times> pb_istream" where
  "decode_field submessage stream wire_type iter mc =
     (case f_atype (field_at (start iter) (pos iter)) of
        ATYPE_STATIC \<Rightarrow> decode_static_field submessage stream wire_type iter mc
      | ATYPE_POINTER \<Rightarrow> decode_pointer_field stream mc)"

section \<open>One message\<close>

text \<open>
  A repeated field of fixed count is counted in a variable of \<open>pb_decode_noinit\<close>: its first item
  resets the variable, and is refused when the previous such field is not complete.
\<close>

definition enter_fixed_count ::
    "pb_field_iter \<Rightarrow> nat option \<Rightarrow> mem \<times> u8 \<Rightarrow> (pb_field_iter \<times> nat option \<times> mem \<times> u8) option" where
  "enter_fixed_count iter fixed mc =
     (let f = field_at (start iter) (pos iter) in
      if f_htype f = HTYPE_REPEATED \<and> pSize iter = At (pData iter)
      then
        (if fixed \<noteq> Some (pos iter)
         then
           (if (case fixed of None \<Rightarrow> False
                | Some g \<Rightarrow> unat (snd mc) \<noteq> array_size (field_at (start iter) g))
            then None
            else Some (iter\<lparr>pSize := Fixed_count\<rparr>, Some (pos iter), fst mc, 0))
         else Some (iter\<lparr>pSize := Fixed_count\<rparr>, fixed, mc))
      else Some (iter, fixed, mc))"

text \<open>
  The loop of \<open>pb_decode_noinit\<close>. Its state is the stream, the iterator, the field whose fixed
  count is being received, the memory and that count. Every turn takes a byte at least.
\<close>

fun decode_loop ::
    "nat \<Rightarrow> pb_decoder \<Rightarrow> pb_istream \<Rightarrow> pb_field_iter \<Rightarrow> nat option \<Rightarrow> mem \<times> u8 \<Rightarrow>
     (bool \<times> nat option \<times> (mem \<times> u8) \<times> pb_istream) option" where
  "decode_loop fuel submessage stream iter fixed mc =
     (if bytes_left stream = 0 then Some (True, fixed, mc, stream)
      else case fuel of
        0 \<Rightarrow> None
      | Suc fuel \<Rightarrow>
          (case pb_decode_tag stream of
             (None, stream, eof) \<Rightarrow> Some (eof, fixed, mc, stream)
           | (Some (wire_type, tag), stream, eof) \<Rightarrow>
               (case pb_field_iter_find iter tag of
                  (False, iter) \<Rightarrow>
                    (case pb_skip_field stream wire_type of
                       (None, stream) \<Rightarrow> Some (False, fixed, mc, stream)
                     | (Some _, stream) \<Rightarrow> decode_loop fuel submessage stream iter fixed mc)
                | (True, iter) \<Rightarrow>
                    (case enter_fixed_count iter fixed mc of
                       None \<Rightarrow>
                         Some (False, fixed, mc, pb_set_error ''wrong size for fixed count field'' stream)
                     | Some (iter, fixed, mc) \<Rightarrow>
                         (case decode_field submessage stream wire_type iter mc of
                            (ok, mc, stream) \<Rightarrow>
                              if \<not> ok then Some (False, fixed, mc, stream)
                              else decode_loop fuel submessage stream iter fixed mc)))))"

declare decode_loop.simps [simp del] packed_loop.simps [simp del]

definition pb_dec_submessage ::
    "(pb_istream \<Rightarrow> pb_field list \<Rightarrow> nat \<Rightarrow> mem \<Rightarrow> bool \<times> mem \<times> pb_istream) \<Rightarrow> pb_decoder" where
  "pb_dec_submessage noinit stream field dest m =
     (case pb_make_string_substream stream of
        (None, stream) \<Rightarrow> (False, m, stream)
      | (Some substream, stream) \<Rightarrow>
          (case f_ptr field of
             PTR_FIELDS submsg_fields \<Rightarrow>
               let m = (if f_htype field = HTYPE_REPEATED
                        then pb_message_set_to_defaults submsg_fields dest m else m);
                   (status, m, substream) = noinit substream submsg_fields dest m;
                   (ok, stream) = pb_close_string_substream stream substream
               in (if \<not> ok then False else status, m, stream)
           | _ \<Rightarrow> (False, m, pb_set_error ''invalid field descriptor'' stream)))"

fun pb_decode_noinit ::
    "nat \<Rightarrow> pb_istream \<Rightarrow> pb_field list \<Rightarrow> nat \<Rightarrow> mem \<Rightarrow> bool \<times> mem \<times> pb_istream" where
  "pb_decode_noinit 0 stream tbl dest m = (False, m, pb_set_error ''not enough stack'' stream)"
| "pb_decode_noinit (Suc stack) stream tbl dest m =
     (let iter = snd (pb_field_iter_begin tbl dest) in
      case decode_loop (bytes_left stream) (pb_dec_submessage (pb_decode_noinit stack)) stream iter None (m, 0) of
        None \<Rightarrow> (False, m, stream)
      | Some (status, fixed, (m, count), stream) \<Rightarrow>
          if \<not> status then (False, m, stream)
          else if (case fixed of None \<Rightarrow> False
                   | Some g \<Rightarrow> unat count \<noteq> array_size (field_at tbl g))
          then (False, m, pb_set_error ''wrong size for fixed count field'' stream)
          else (True, m, stream))"

definition pb_decode :: "nat \<Rightarrow> pb_istream \<Rightarrow> pb_field list \<Rightarrow> nat \<Rightarrow> mem \<Rightarrow> bool \<times> mem \<times> pb_istream" where
  "pb_decode stack stream tbl dest m =
     (let m = pb_message_set_to_defaults tbl dest m in pb_decode_noinit stack stream tbl dest m)"

section \<open>Memory safety: where the decoders write\<close>

text \<open>
  What a table must satisfy for the message at \<open>dest\<close> of \<open>n\<close> bytes: the types of fixed size have
  it, and the items and the count of each field lie in the message. \<open>d\<close> is the depth of
  submessages.
\<close>

definition item_count :: "pb_field \<Rightarrow> nat" where
  "item_count f = (if f_htype f = HTYPE_REPEATED then array_size f else 1)"

definition type_fits :: "pb_field \<Rightarrow> bool" where
  "type_fits f \<longleftrightarrow>
     (case f_ltype f of
        LTYPE_BOOL \<Rightarrow> 1 \<le> data_size f
      | LTYPE_FIXED32 \<Rightarrow> data_size f = 4
      | LTYPE_FIXED64 \<Rightarrow> data_size f = 8
      | _ \<Rightarrow> True)"

definition stored_size :: "pb_field \<Rightarrow> nat" where
  "stored_size f = (if f_atype f = ATYPE_POINTER then sizeof_pointer else data_size f * item_count f)"

definition own_fits :: "pb_field list \<Rightarrow> nat \<Rightarrow> bool" where
  "own_fits tbl n \<longleftrightarrow>
     tbl \<noteq> [] \<and> tags_ok tbl \<and>
     (\<forall>i < length tbl.
        field_data tbl 0 i + stored_size (tbl ! i) \<le> n \<and> field_size_cell tbl 0 i < n \<and>
        0 \<le> int (field_data tbl 0 i) + size_offset (tbl ! i) \<and> type_fits (tbl ! i))"

fun table_fits :: "nat \<Rightarrow> pb_field list \<Rightarrow> nat \<Rightarrow> bool" where
  "table_fits 0 tbl n \<longleftrightarrow> own_fits tbl n \<and> (\<forall>f \<in> set tbl. f_ltype f \<noteq> LTYPE_SUBMESSAGE)"
| "table_fits (Suc d) tbl n \<longleftrightarrow>
     own_fits tbl n \<and>
     (\<forall>f \<in> set tbl. f_ltype f = LTYPE_SUBMESSAGE \<longrightarrow>
        (case f_ptr f of PTR_FIELDS sub \<Rightarrow> table_fits d sub (data_size f) | _ \<Rightarrow> False))"

text \<open>What every decoder of a field does to memory and stream.\<close>

definition decodes_within :: "nat \<Rightarrow> nat \<Rightarrow> mem \<Rightarrow> pb_istream \<Rightarrow> bool \<times> mem \<times> pb_istream \<Rightarrow> bool" where
  "decodes_within off n m s r \<longleftrightarrow>
     (case r of (ok, m', s') \<Rightarrow>
        same_outside off n m m' \<and> advances s s' \<and> (ok \<longrightarrow> bytes_left s' < bytes_left s))"

locale field_decoder =
  fixes dec :: pb_decoder and fits :: "pb_field \<Rightarrow> bool"
  assumes decodes: "fits f \<Longrightarrow> dest + data_size f \<le> length m \<Longrightarrow>
    decodes_within dest (data_size f) m s (dec s f dest m)"

lemma length_le_bytes [simp]: "length (le_bytes n w) = n"
  by (simp add: le_bytes_def)

lemma within_store_integer:
  "n = data_size f \<Longrightarrow> dest + n \<le> length m \<Longrightarrow> advances s s' \<Longrightarrow> bytes_left s' < bytes_left s \<Longrightarrow>
   decodes_within dest n m s (store_integer clamp s' f v dest m)"
  by (auto simp: decodes_within_def store_integer_def Let_def intro!: same_outside_mwrite)

lemma within_failed: "advances s s' \<Longrightarrow> decodes_within off n m s (False, m, s')"
  by (simp add: decodes_within_def)

lemma within_write:
  "off \<le> o' \<Longrightarrow> o' + length xs \<le> off + n \<Longrightarrow> off + n \<le> length m \<Longrightarrow> advances s s' \<Longrightarrow>
   bytes_left s' < bytes_left s \<Longrightarrow> decodes_within off n m s (True, mwrite o' xs m, s')"
  by (simp add: decodes_within_def same_outside_mwrite)

text \<open>A count was read, and then as many bytes, into memory.\<close>

lemma within_read_into:
  assumes "advances s s'" and "bytes_left s' < bytes_left s"
    and "off \<le> o'" and "o' + k \<le> off + n" and "off + n \<le> length m" and "same_outside off n m0 m"
  shows "decodes_within off n m0 s (pb_read_into s' k o' m)"
proof (cases "pb_read s' k")
  case (Pair r s2)
  note r = pb_read_reads [OF Pair]
  show ?thesis
  proof (cases r)
    case None
    with Pair r assms show ?thesis
      by (auto simp: pb_read_into_def decodes_within_def intro: advances_trans)
  next
    case (Some xs)
    then have "length xs \<le> k"
      using Pair by (auto simp: pb_read_def buf_read_def split: if_splits)
    then have "same_outside off n m (mwrite o' xs m)"
      using assms by (intro same_outside_mwrite) auto
    with Pair r Some assms show ?thesis
      by (auto simp: pb_read_into_def decodes_within_def
          intro: advances_trans same_outside_trans dest: advances_left)
  qed
qed

interpretation dec_bool: field_decoder pb_dec_bool "\<lambda>f. 1 \<le> data_size f"
  by unfold_locales
    (auto simp: pb_dec_bool_def split: prod.splits option.splits dest!: varint32.reads
      intro!: within_failed within_write)

interpretation dec_varint: field_decoder pb_dec_varint "\<lambda>f. True"
  by unfold_locales
    (auto simp: pb_dec_varint_def Let_def split: prod.splits option.splits dest!: varint.reads
      intro!: within_failed within_store_integer)

interpretation dec_uvarint: field_decoder pb_dec_uvarint "\<lambda>f. True"
  by unfold_locales
    (auto simp: pb_dec_uvarint_def split: prod.splits option.splits dest!: varint.reads
      intro!: within_failed within_store_integer)

interpretation dec_svarint: field_decoder pb_dec_svarint "\<lambda>f. True"
  by unfold_locales
    (auto simp: pb_dec_svarint_def pb_decode_svarint_def split: prod.splits option.splits if_splits
      dest!: varint.reads intro!: within_failed within_store_integer)

interpretation dec_fixed32: field_decoder pb_dec_fixed32 "\<lambda>f. data_size f = 4"
  by unfold_locales
    (auto simp: pb_dec_fixed32_def pb_decode_fixed32_def split: prod.splits option.splits
      dest!: pb_read_reads intro!: within_failed within_write)

interpretation dec_fixed64: field_decoder pb_dec_fixed64 "\<lambda>f. data_size f = 8"
  by unfold_locales
    (auto simp: pb_dec_fixed64_def pb_decode_fixed64_def split: prod.splits option.splits
      dest!: pb_read_reads intro!: within_failed within_write)

lemma unat_Suc_u32: "\<not> (sz :: u32) + 1 < sz \<Longrightarrow> unat (sz + 1) = Suc (unat sz)"
  using unat_u32_less [of sz]
  by (cases "unat sz = 4294967295") (simp_all add: unat_word_ariths word_less_nat_alt)

lemma within_dec_bytes:
  assumes "dest + data_size f \<le> length m"
  shows "decodes_within dest (data_size f) m s (pb_dec_bytes s f dest m)"
proof (cases "pb_decode_varint32 s")
  case (Pair r s1)
  note r = varint32.reads [OF Pair]
  show ?thesis
  proof (cases r)
    case (Some sz)
    show ?thesis
    proof (cases "unat sz > PB_SIZE_MAX \<or> sz > sz + 1 \<or> f_atype f = ATYPE_POINTER \<or> unat (sz + 1) > data_size f")
      case True
      with Pair Some r show ?thesis by (auto simp: pb_dec_bytes_def Let_def intro: within_failed)
    next
      case False
      then have fit: "unat sz + 1 \<le> data_size f" using unat_Suc_u32 [of sz] by auto
      have "pb_dec_bytes s f dest m = pb_read_into s1 (unat sz) (dest + 1) (mwrite dest [ucast sz] m)"
        using Pair Some False by (auto simp: pb_dec_bytes_def Let_def)
      then show ?thesis
        using r Some fit assms
        by (auto intro!: within_read_into same_outside_mwrite simp: length_mwrite)
    qed
  qed (use Pair r in \<open>auto simp: pb_dec_bytes_def intro: within_failed\<close>)
qed

lemma within_then_write:
  assumes "decodes_within off n m s (ok, m', s')" and "off \<le> o'" "o' + length xs \<le> off + n" "off + n \<le> length m"
  shows "decodes_within off n m s (ok, mwrite o' xs m', s')"
  using assms
  by (auto simp: decodes_within_def intro: same_outside_then_mwrite)

lemma within_dec_string:
  assumes "dest + data_size f \<le> length m"
  shows "decodes_within dest (data_size f) m s (pb_dec_string s f dest m)"
proof (cases "pb_decode_varint32 s")
  case (Pair r s1)
  note r = varint32.reads [OF Pair]
  show ?thesis
  proof (cases r)
    case (Some sz)
    show ?thesis
    proof (cases "sz + 1 < sz \<or> f_atype f = ATYPE_POINTER \<or> unat (sz + 1) > data_size f")
      case True
      with Pair Some r show ?thesis by (auto simp: pb_dec_string_def Let_def intro: within_failed)
    next
      case False
      then have fit: "unat sz + 1 \<le> data_size f" using unat_Suc_u32 [of sz] by auto
      obtain ok m' s' where read: "pb_read_into s1 (unat sz) dest m = (ok, m', s')"
        by (cases "pb_read_into s1 (unat sz) dest m") auto
      then have "pb_dec_string s f dest m = (ok, mwrite (dest + unat sz) [0] m', s')"
        using Pair Some False by (auto simp: pb_dec_string_def Let_def)
      moreover have "decodes_within dest (data_size f) m s (ok, m', s')"
        unfolding read [symmetric] using r Some fit assms by (auto intro!: within_read_into)
      ultimately show ?thesis
        using fit assms by (auto intro: within_then_write)
    qed
  qed (use Pair r in \<open>auto simp: pb_dec_string_def intro: within_failed\<close>)
qed

lemma within_dec_fixed_length_bytes:
  assumes "dest + data_size f \<le> length m"
  shows "decodes_within dest (data_size f) m s (pb_dec_fixed_length_bytes s f dest m)"
proof (cases "pb_decode_varint32 s")
  case (Pair r s1)
  note r = varint32.reads [OF Pair]
  show ?thesis
  proof (cases r)
    case (Some sz)
    with Pair r assms show ?thesis
      by (auto simp: pb_dec_fixed_length_bytes_def memset_def
          intro!: within_failed within_write within_read_into)
  qed (use Pair r in \<open>auto simp: pb_dec_fixed_length_bytes_def intro: within_failed\<close>)
qed

interpretation dec_bytes: field_decoder pb_dec_bytes "\<lambda>f. True"
  by unfold_locales (rule within_dec_bytes)

interpretation dec_string: field_decoder pb_dec_string "\<lambda>f. True"
  by unfold_locales (rule within_dec_string)

interpretation dec_fixed_length_bytes: field_decoder pb_dec_fixed_length_bytes "\<lambda>f. True"
  by unfold_locales (rule within_dec_fixed_length_bytes)

text \<open>Tables are laid out relative to their message.\<close>

lemma field_data_shift: "field_data tbl dest i = dest + field_data tbl 0 i"
  by (induction i) (simp_all add: pb_field_iter_begin_def Let_def)

lemma nat_shift: "0 \<le> int a + z \<Longrightarrow> nat (int d + int a + z) = d + nat (int a + z)"
  by simp

lemma field_size_cell_shift:
  "own_fits tbl n \<Longrightarrow> i < length tbl \<Longrightarrow> field_size_cell tbl dest i = dest + field_size_cell tbl 0 i"
proof (induction i)
  case 0
  have "0 \<le> int (field_data tbl 0 0) + size_offset (tbl ! 0)"
    using 0 by (auto simp: own_fits_def)
  then show ?case
    using 0 field_data_shift [of tbl dest 0] by (simp add: field_at_def nat_shift del: field_data.simps)
next
  case (Suc i)
  have "0 \<le> int (field_data tbl 0 (Suc i)) + size_offset (tbl ! Suc i)"
    using Suc.prems by (auto simp: own_fits_def)
  moreover have "field_at tbl (Suc i) = tbl ! Suc i" using Suc.prems by (simp add: field_at_def)
  ultimately show ?case
    using Suc field_data_shift [of tbl dest "Suc i"]
    by (simp add: Let_def nat_shift del: field_data.simps)
qed

lemma table_fits_own: "table_fits d tbl n \<Longrightarrow> own_fits tbl n"
  by (cases d) auto

lemma table_fits_tags: "table_fits d tbl n \<Longrightarrow> tags_ok tbl"
  using table_fits_own by (auto simp: own_fits_def)

lemma table_fits_sub:
  assumes "table_fits d tbl n" and "i < length tbl" and "f_ltype (tbl ! i) = LTYPE_SUBMESSAGE"
  shows "\<exists>e sub. d = Suc e \<and> f_ptr (tbl ! i) = PTR_FIELDS sub \<and> table_fits e sub (data_size (tbl ! i))"
proof (cases d)
  case (Suc e)
  have "case f_ptr (tbl ! i) of PTR_FIELDS sub \<Rightarrow> table_fits e sub (data_size (tbl ! i)) | _ \<Rightarrow> False"
    using assms Suc by (simp add: nth_mem)
  with Suc show ?thesis by (auto split: pb_ptr.splits)
qed (use assms in auto)

text \<open>An iterator's pointers lie in the message.\<close>

lemma iter_in_message:
  assumes "table_fits d tbl n" and "iter_at tbl dest i it"
  shows "field_at (start it) (pos it) = tbl ! i" and "i < length tbl"
    and "dest \<le> pData it" and "pData it + stored_size (tbl ! i) \<le> dest + n"
    and "pSize it = At p \<Longrightarrow> dest \<le> p \<and> p < dest + n" and "type_fits (tbl ! i)"
  using assms table_fits_own [OF assms(1)] field_data_shift [of tbl dest i]
    field_size_cell_shift [of tbl n i dest]
  by (auto simp: iter_at_def field_at_def own_fits_def)

lemma same_outside_write_size:
  assumes "table_fits d tbl n" and "iter_at tbl dest i it" and "dest + n \<le> length m"
  shows "same_outside dest n m (fst (write_size (pSize it) v (m, count)))"
  using iter_in_message(5) [OF assms(1,2)] assms(3)
  by (cases "pSize it") (auto intro: same_outside_mwrite)

lemma same_outside_part:
  assumes "same_outside dest n m m1" and "same_outside p k m1 m2" and "dest \<le> p" "p + k \<le> dest + n"
  shows "same_outside dest n m m2"
  using assms by (meson same_outside_trans same_outside_weaken)

lemma defaults_within:
  shows "table_fits d tbl n \<Longrightarrow> dest + n \<le> length m \<Longrightarrow>
      same_outside dest n m (pb_message_set_to_defaults tbl dest m)"
    and "table_fits d2 tbl2 n2 \<Longrightarrow> iter_at tbl2 dest2 i2 it2 \<Longrightarrow> dest2 + n2 \<le> length m2 \<Longrightarrow>
      same_outside dest2 n2 m2 (set_defaults_from it2 m2)"
    and "table_fits d3 tbl3 n3 \<Longrightarrow> iter_at tbl3 dest3 i3 it3 \<Longrightarrow> dest3 + n3 \<le> length m3 \<Longrightarrow>
      same_outside dest3 n3 m3 (pb_field_set_to_default it3 m3)"
proof (induction tbl dest m and it2 m2 and it3 m3 arbitrary: d n and d2 n2 tbl2 dest2 i2 and d3 n3 tbl3 dest3 i3
    rule: pb_message_set_to_defaults_set_defaults_from_pb_field_set_to_default.induct)
  case (1 tbl dest m)
  show ?case
  proof (cases "tbl = []")
    case True
    then show ?thesis
      by (subst pb_message_set_to_defaults.simps)
        (simp add: pb_field_iter_begin_def field_at_def PB_LAST_FIELD_def Let_def)
  next
    case False
    obtain ok it where bg: "pb_field_iter_begin tbl dest = (ok, it)" by fastforce
    then have ok and it: "iter_at tbl dest 0 it"
      using begin_True [OF table_fits_tags [OF 1(2)], of dest] begin_iter_at [OF False, of dest] False by auto
    with 1(1) [OF bg [symmetric] _ 1(2) it 1(3)] show ?thesis
      by (subst pb_message_set_to_defaults.simps) (simp add: bg)
  qed
next
  case (2 it m)
  let ?m = "pb_field_set_to_default it m"
  have m: "same_outside dest2 n2 m ?m" by (rule 2(1) [OF 2(3,4,5)])
  obtain again it' where nx: "pb_field_iter_next it = (again, it')" by fastforce
  have "iter_at tbl2 dest2 (if Suc i2 < length tbl2 then Suc i2 else 0) it'"
    using next_iter_at(1) [OF table_fits_tags [OF 2(3)] 2(4)] nx by simp
  with 2(2) [OF refl nx [symmetric] _ 2(3) this] 2(5) same_outside_length [OF m]
  have "again \<Longrightarrow> same_outside dest2 n2 ?m (set_defaults_from it' ?m)" by simp
  then show ?case
    using m by (subst set_defaults_from.simps) (auto simp: nx Let_def intro: same_outside_trans)
next
  case (3 it m)
  let ?f = "tbl3 ! i3"
  note it = iter_in_message [OF 3(2,3)]
  have sz: "same_outside dest3 n3 m' (fst (write_size (pSize it) 0 (m', 0)))" if "same_outside dest3 n3 m m'" for m'
    using same_outside_write_size [OF 3(2,3)] 3(4) same_outside_length [OF that] by simp
  show ?case
  proof (cases "f_atype ?f")
    case ATYPE_POINTER
    have "same_outside dest3 n3 m (memset (pData it) 0 sizeof_pointer m)"
      using it(3,4) 3(4) ATYPE_POINTER
      by (auto simp: memset_def stored_size_def intro!: same_outside_mwrite)
    then show ?thesis
      using ATYPE_POINTER sz
      by (subst pb_field_set_to_default.simps) (auto simp: it(1) Let_def intro: same_outside_trans)
  next
    case ATYPE_STATIC
    let ?flag = "f_htype ?f = HTYPE_OPTIONAL \<and> pSize it \<noteq> At (pData it)"
    let ?counted = "f_htype ?f = HTYPE_REPEATED \<or> f_htype ?f = HTYPE_ONEOF"
    define m1 where "m1 = (if ?flag \<or> ?counted then fst (write_size (pSize it) 0 (m, 0)) else m)"
    have m1: "same_outside dest3 n3 m m1" using sz [of m] by (simp add: m1_def)
    have len: "length m1 = length m" using same_outside_length [OF m1] .
    have room: "pData it + data_size ?f \<le> dest3 + n3" if "\<not> ?counted"
      using it(4) that ATYPE_STATIC by (auto simp: stored_size_def item_count_def)
    have wr: "same_outside dest3 n3 m (mwrite (pData it) xs m1)" if "\<not> ?counted" "length xs \<le> data_size ?f" for xs
      using same_outside_then_mwrite [OF m1, of "pData it" xs] room it(3) 3(4) that by simp
    have sub: "same_outside dest3 n3 m (pb_message_set_to_defaults x (pData it) m1)"
      if f: "\<not> ?counted" "f_ltype ?f = LTYPE_SUBMESSAGE" "f_ptr ?f = PTR_FIELDS x" for x
    proof -
      obtain e where "table_fits e x (data_size ?f)"
        using table_fits_sub [OF 3(2) it(2) f(2)] f(3) by auto
      moreover have "pData it + data_size ?f \<le> length m1" using room f(1) 3(4) len by simp
      ultimately have "same_outside (pData it) (data_size ?f) m1 (pb_message_set_to_defaults x (pData it) m1)"
        by (rule 3(1) [OF it(1) [symmetric] ATYPE_STATIC refl refl m1_def f])
      then show ?thesis
        using same_outside_part [OF m1] it(3) room f(1) by blast
    qed
    have "pb_field_set_to_default it m =
       (if \<not> ?counted then
          (case f_ltype ?f of
             LTYPE_SUBMESSAGE \<Rightarrow> (case f_ptr ?f of PTR_FIELDS sub \<Rightarrow> pb_message_set_to_defaults sub (pData it) m1 | _ \<Rightarrow> m1)
           | _ \<Rightarrow> (case f_ptr ?f of
                    PTR_DEFAULT bytes \<Rightarrow> mwrite (pData it) (take (data_size ?f) bytes) m1
                  | PTR_NULL \<Rightarrow> memset (pData it) 0 (data_size ?f) m1
                  | PTR_FIELDS _ \<Rightarrow> m1))
        else m1)"
      unfolding pb_field_set_to_default.simps [of it m] it(1) Let_def ATYPE_STATIC m1_def [symmetric] by simp
    then show ?thesis
      using m1 wr sub by (auto simp: memset_def split: pb_ltype.splits pb_ptr.splits)
  qed
qed

section \<open>Memory safety: fields, messages\<close>

definition sub_fits :: "pb_field \<Rightarrow> bool" where
  "sub_fits f \<longleftrightarrow> (\<exists>e sub. f_ptr f = PTR_FIELDS sub \<and> table_fits e sub (data_size f))"

text \<open>Whatever the type, if the decoder of submessages keeps the contract.\<close>

lemma PB_DECODERS_within:
  assumes "field_decoder submessage sub_fits" and "type_fits f"
    and "f_ltype f = LTYPE_SUBMESSAGE \<Longrightarrow> sub_fits f" and "dest + data_size f \<le> length m"
  shows "decodes_within dest (data_size f) m s (PB_DECODERS submessage (f_ltype f) s f dest m)"
  using assms field_decoder.decodes [OF assms(1)] dec_fixed32.decodes [of f dest m s]
    dec_fixed64.decodes [of f dest m s]
  by (cases "f_ltype f")
    (auto simp: type_fits_def dec_bool.decodes dec_varint.decodes dec_uvarint.decodes dec_svarint.decodes
      dec_bytes.decodes dec_string.decodes dec_fixed_length_bytes.decodes)

lemma within_part:
  assumes "decodes_within p k m1 s r" and "same_outside dest n m m1" and "dest \<le> p" "p + k \<le> dest + n"
  shows "case r of (ok, m', s') \<Rightarrow>
    same_outside dest n m m' \<and> advances s s' \<and> (ok \<longrightarrow> bytes_left s' < bytes_left s)"
  using assms same_outside_part by (auto simp: decodes_within_def)

lemma item_room:
  assumes "k < (a :: nat)" shows "p + d * k + d \<le> p + d * a"
proof -
  have "d * k + d = d * Suc k" by simp
  also have "\<dots> \<le> d * a" using assms by (intro mult_le_mono2) simp
  finally show ?thesis by simp
qed

text \<open>A field of a table and the iterator on it, as the lemmas below use them.\<close>

definition on_field :: "nat \<Rightarrow> nat \<Rightarrow> pb_field \<Rightarrow> pb_field_iter \<Rightarrow> bool" where
  "on_field dest n f it \<longleftrightarrow>
     field_at (start it) (pos it) = f \<and> dest \<le> pData it \<and> pData it + stored_size f \<le> dest + n \<and>
     (\<forall>p. pSize it = At p \<longrightarrow> dest \<le> p \<and> p < dest + n) \<and> type_fits f \<and>
     (f_ltype f = LTYPE_SUBMESSAGE \<longrightarrow> sub_fits f)"

lemma on_fieldI:
  assumes "table_fits d tbl n" and "iter_at tbl dest i it"
  shows "on_field dest n (tbl ! i) it"
proof -
  note it = iter_in_message [OF assms]
  have "f_ltype (tbl ! i) = LTYPE_SUBMESSAGE \<Longrightarrow> sub_fits (tbl ! i)"
    using table_fits_sub [OF assms(1) it(2)] unfolding sub_fits_def by blast
  with it show ?thesis unfolding on_field_def by simp
qed

lemma on_field_write_size:
  assumes "on_field dest n f it" and "same_outside dest n m (fst mc)" and "dest + n \<le> length m"
  shows "same_outside dest n m (fst (write_size (pSize it) v mc))"
proof (cases "pSize it")
  case (At p)
  then have "dest \<le> p \<and> p < dest + n" using assms(1) by (simp add: on_field_def)
  then have "dest \<le> p" "p + length [v] \<le> dest + n" by simp_all
  from same_outside_then_mwrite [OF assms(2) this assms(3)] show ?thesis
    by (cases mc) (simp add: At)
qed (use assms(2) in \<open>cases mc; simp\<close>)

lemma on_field_item:
  assumes "on_field dest n f it" and "f_atype f = ATYPE_STATIC" and "k < item_count f"
  shows "dest \<le> pData it + data_size f * k" and "pData it + data_size f * k + data_size f \<le> dest + n"
  using assms item_room [OF assms(3), of "pData it" "data_size f"]
  by (auto simp: on_field_def stored_size_def)

lemma packed_loop_within:
  assumes "field_decoder submessage sub_fits" and f: "on_field dest n f it" "f_atype f = ATYPE_STATIC"
    and "f_htype f = HTYPE_REPEATED" and m: "dest + n \<le> length m0"
  shows "same_outside dest n m0 (fst mc) \<Longrightarrow> bytes_left s \<le> fuel \<Longrightarrow>
    \<exists>status mc' s'. packed_loop fuel (PB_DECODERS submessage (f_ltype f)) f (pData it) (pSize it) s mc =
        Some (status, mc', s') \<and> same_outside dest n m0 (fst mc') \<and> advances s s'"
proof (induction fuel arbitrary: mc s)
  case 0
  then show ?case by (cases mc) (auto simp: packed_loop.simps)
next
  case (Suc fuel)
  obtain m c where mc: "mc = (m, c)" by (cases mc)
  note unfold = packed_loop.simps [of "Suc fuel" "PB_DECODERS submessage (f_ltype f)" f "pData it" "pSize it" s m c,
      folded mc]
  let ?k = "unat (read_size (pSize it) mc)"
  let ?p = "pData it + data_size f * ?k"
  show ?case
  proof (cases "bytes_left s > 0 \<and> ?k < array_size f")
    case False
    then show ?thesis
      using Suc.prems unfold by (intro exI [of _ True] exI [of _ mc] exI [of _ s]) auto
  next
    case True
    obtain ok m' s' where r: "PB_DECODERS submessage (f_ltype f) s f ?p m = (ok, m', s')"
      by (cases "PB_DECODERS submessage (f_ltype f) s f ?p m") auto
    have k: "?k < item_count f" using True assms(4) by (simp add: item_count_def)
    note room = on_field_item [OF f k]
    have "?p + data_size f \<le> length m"
      using room(2) m same_outside_length [OF Suc.prems(1)] by (simp add: mc)
    then have "decodes_within ?p (data_size f) m s (ok, m', s')"
      using PB_DECODERS_within [OF assms(1), of f ?p m s] f(1) r by (auto simp: on_field_def)
    from within_part [OF this _ room] Suc.prems(1)
    have w: "same_outside dest n m0 m'" "advances s s'" "ok \<Longrightarrow> bytes_left s' < bytes_left s"
      by (auto simp: mc)
    show ?thesis
    proof (cases ok)
      case False
      then show ?thesis
        using True w r unfold by (auto simp: mc)
    next
      case ok: True
      let ?mc = "write_size (pSize it) (read_size (pSize it) (m', c) + 1) (m', c)"
      have "same_outside dest n m0 (fst ?mc)"
        using on_field_write_size [OF f(1) _ m, of "(m', c)"] w(1) by simp
      moreover have "bytes_left s' \<le> fuel" using w(3) [OF ok] Suc.prems(2) by simp
      ultimately obtain status mc' t where
        "packed_loop fuel (PB_DECODERS submessage (f_ltype f)) f (pData it) (pSize it) s' ?mc = Some (status, mc', t)"
        "same_outside dest n m0 (fst mc')" "advances s' t"
        using Suc.IH [of ?mc s'] by blast
      then show ?thesis
        using True ok r w(2) unfold by (auto simp: mc intro: advances_trans)
    qed
  qed
qed

lemma packed_field_within:
  assumes "field_decoder submessage sub_fits" and f: "on_field dest n f it" "f_atype f = ATYPE_STATIC"
    and "f_htype f = HTYPE_REPEATED" and m: "dest + n \<le> length m0" "same_outside dest n m0 (fst mc)"
    and mk: "pb_make_string_substream s = (Some sub, s1)"
  shows "case packed_loop (bytes_left sub) (PB_DECODERS submessage (f_ltype f)) f (pData it) (pSize it) sub mc of
      None \<Rightarrow> False
    | Some (status, mc', sub') \<Rightarrow>
        same_outside dest n m0 (fst mc') \<and>
        (\<forall>ok s2. pb_close_string_substream s1 sub' = (ok, s2) \<longrightarrow> advances s s2)"
proof -
  obtain status mc' sub' where
    "packed_loop (bytes_left sub) (PB_DECODERS submessage (f_ltype f)) f (pData it) (pSize it) sub mc =
      Some (status, mc', sub')" "same_outside dest n m0 (fst mc')" "advances sub sub'"
    using packed_loop_within [OF assms(1) f assms(4) m order_refl] by blast
  then show ?thesis
    using close_substream(1) [OF mk] by auto
qed

text \<open>The part of \<open>decode_static_field\<close> that every kind of field ends with.\<close>

definition run_decoder ::
    "pb_decoder \<Rightarrow> pb_field \<Rightarrow> pb_istream \<Rightarrow> nat \<Rightarrow> mem \<times> u8 \<Rightarrow> bool \<times> (mem \<times> u8) \<times> pb_istream" where
  "run_decoder submessage f s p mc =
     (case PB_DECODERS submessage (f_ltype f) s f p (fst mc) of (ok, m, s) \<Rightarrow> (ok, (m, snd mc), s))"

lemma run_decoder_within:
  assumes "field_decoder submessage sub_fits" and f: "on_field dest n f it" "f_atype f = ATYPE_STATIC"
    and m: "dest + n \<le> length m0" and k: "k < item_count f" and mc: "same_outside dest n m0 (fst mc)"
    and run: "run_decoder submessage f s (pData it + data_size f * k) mc = (ok, mc', s')"
  shows "same_outside dest n m0 (fst mc') \<and> advances s s'"
proof -
  note room = on_field_item [OF f k]
  have "pData it + data_size f * k + data_size f \<le> length (fst mc)"
    using room(2) m same_outside_length [OF mc] by simp
  moreover have "type_fits f" "f_ltype f = LTYPE_SUBMESSAGE \<Longrightarrow> sub_fits f"
    using f(1) by (auto simp: on_field_def)
  ultimately have "decodes_within (pData it + data_size f * k) (data_size f) (fst mc) s
      (PB_DECODERS submessage (f_ltype f) s f (pData it + data_size f * k) (fst mc))"
    using PB_DECODERS_within [OF assms(1)] by blast
  from within_part [OF this mc room] run show ?thesis
    by (auto simp: run_decoder_def split: prod.splits)
qed

lemma decode_static_field_within:
  assumes sub: "field_decoder submessage sub_fits" and f: "on_field dest n f it" "f_atype f = ATYPE_STATIC"
    and m: "dest + n \<le> length m0" "same_outside dest n m0 (fst mc)"
    and run: "decode_static_field submessage s wt it mc = (ok, mc', s')"
  shows "same_outside dest n m0 (fst mc') \<and> advances s s'"
proof -
  have at: "field_at (start it) (pos it) = f" using f(1) by (simp add: on_field_def)
  note unfold = decode_static_field_def at Let_def run_decoder_def [symmetric]
  note wr = on_field_write_size [OF f(1) _ m(1)]
  note dec = run_decoder_within [OF sub f m(1)]
  show ?thesis
  proof (cases "f_htype f")
    case HTYPE_REQUIRED
    then have "run_decoder submessage f s (pData it + data_size f * 0) mc = (ok, mc', s')"
      using run by (simp add: unfold)
    from dec [OF _ m(2) this] HTYPE_REQUIRED show ?thesis by (simp add: item_count_def)
  next
    case HTYPE_OPTIONAL
    let ?mc = "if pSize it \<noteq> At (pData it) then write_size (pSize it) 1 mc else mc"
    have "run_decoder submessage f s (pData it + data_size f * 0) ?mc = (ok, mc', s')"
      using run HTYPE_OPTIONAL by (simp add: unfold)
    from dec [OF _ _ this] HTYPE_OPTIONAL wr [OF m(2)] m(2) show ?thesis by (simp add: item_count_def)
  next
    case HTYPE_REPEATED
    show ?thesis
    proof (cases "wt = PB_WT_STRING \<and> ltype_value (f_ltype f) \<le> PB_LTYPE_LAST_PACKABLE")
      case packed: True
      obtain r s1 where mk: "pb_make_string_substream s = (r, s1)" by fastforce
      show ?thesis
      proof (cases r)
        case None
        then show ?thesis
          using run mk packed HTYPE_REPEATED m(2) make_substream_None [of s s1]
          by (auto simp: decode_static_field_def at Let_def)
      next
        case (Some sub)
        then have mk: "pb_make_string_substream s = (Some sub, s1)" using mk by simp
        show ?thesis
          using run mk packed HTYPE_REPEATED packed_field_within [OF assms(1) f HTYPE_REPEATED m mk]
            make_substream_Some(1) [OF mk]
          by (auto simp: decode_static_field_def at Let_def split: prod.splits option.splits if_splits)
      qed
    next
      case False
      let ?k = "read_size (pSize it) mc"
      show ?thesis
      proof (cases "unat ?k \<ge> array_size f")
        case True
        with run False HTYPE_REPEATED m(2) show ?thesis
          by (auto simp: unfold)
      next
        case room: False
        then have "run_decoder submessage f s (pData it + data_size f * unat ?k) (write_size (pSize it) (?k + 1) mc) =
            (ok, mc', s')"
          using run False HTYPE_REPEATED by (simp add: unfold)
        from dec [OF _ _ this] room HTYPE_REPEATED wr [OF m(2)] show ?thesis by (simp add: item_count_def)
      qed
    qed
  next
    case HTYPE_ONEOF
    let ?m = "memset (pData it) 0 (data_size f) (fst mc)"
    let ?mc = "if f_ltype f = LTYPE_SUBMESSAGE \<and> unat (read_size (pSize it) mc) \<noteq> f_tag f
      then ((case f_ptr f of PTR_FIELDS sub \<Rightarrow> pb_message_set_to_defaults sub (pData it) ?m | _ \<Rightarrow> ?m), snd mc)
      else mc"
    have room: "dest \<le> pData it" "pData it + data_size f \<le> dest + n"
      using on_field_item [OF f, of 0] HTYPE_ONEOF by (auto simp: item_count_def)
    have m1: "same_outside dest n m0 ?m"
      using same_outside_then_mwrite [OF m(2) room(1), of "replicate (data_size f) 0"] room(2) m(1)
      by (simp add: memset_def)
    have "same_outside dest n m0 (fst ?mc)"
    proof (cases "f_ltype f = LTYPE_SUBMESSAGE")
      case True
      then obtain e x where x: "f_ptr f = PTR_FIELDS x" "table_fits e x (data_size f)"
        using f(1) by (auto simp: on_field_def sub_fits_def)
      have "same_outside (pData it) (data_size f) ?m (pb_message_set_to_defaults x (pData it) ?m)"
        using defaults_within(1) [OF x(2)] room(2) m(1) same_outside_length [OF m1] by simp
      with same_outside_part [OF m1 _ room] x(1) m(2) show ?thesis by auto
    qed (use m(2) in simp)
    from wr [OF this] have "same_outside dest n m0 (fst (write_size (pSize it) (of_nat (f_tag f)) ?mc))" .
    moreover have "run_decoder submessage f s (pData it + data_size f * 0)
        (write_size (pSize it) (of_nat (f_tag f)) ?mc) = (ok, mc', s')"
      using run HTYPE_ONEOF unfolding unfold by simp
    ultimately show ?thesis
      using dec [of 0 "write_size (pSize it) (of_nat (f_tag f)) ?mc" s ok mc' s'] HTYPE_ONEOF
      by (simp add: item_count_def)
  qed
qed

lemma decode_field_within:
  assumes "field_decoder submessage sub_fits" and "on_field dest n f it"
    and "dest + n \<le> length m0" and "same_outside dest n m0 (fst mc)"
    and "decode_field submessage s wt it mc = (ok, mc', s')"
  shows "same_outside dest n m0 (fst mc') \<and> advances s s'"
proof (cases "f_atype f")
  case ATYPE_STATIC
  then show ?thesis
    using decode_static_field_within [OF assms(1,2) _ assms(3,4)] assms(2,5)
    by (auto simp: decode_field_def on_field_def)
next
  case ATYPE_POINTER
  then show ?thesis
    using assms(2,4,5) by (auto simp: decode_field_def decode_pointer_field_def on_field_def)
qed

lemma enter_fixed_count_keeps:
  assumes "enter_fixed_count it fixed mc = Some (it', fixed', mc')" and "iter_at tbl dest k it"
  shows "iter_at tbl dest k it' \<and> fst mc' = fst mc"
  using assms by (auto simp: enter_fixed_count_def Let_def iter_at_def split: if_splits)

text \<open>The loop: it ends within its fuel, and keeps to the message.\<close>

lemma decode_loop_within:
  assumes sub: "field_decoder submessage sub_fits" and tbl: "table_fits d tbl n" and m0: "dest + n \<le> length m0"
  shows "iter_at tbl dest i it \<Longrightarrow> same_outside dest n m0 (fst mc) \<Longrightarrow> bytes_left s \<le> fuel \<Longrightarrow>
    \<exists>status fixed' mc' s'. decode_loop fuel submessage s it fixed mc = Some (status, fixed', mc', s') \<and>
      same_outside dest n m0 (fst mc') \<and> advances s s'"
proof (induction fuel arbitrary: i it mc s fixed)
  case 0
  then show ?case by (auto simp: decode_loop.simps)
next
  case (Suc fuel)
  note unfold = decode_loop.simps [of "Suc fuel" submessage s it fixed mc]
  note IH = Suc.IH
  show ?case
  proof (cases "bytes_left s = 0")
    case True
    then show ?thesis using Suc.prems unfold by auto
  next
    case left: False
    obtain r s1 eof where tag: "pb_decode_tag s = (r, s1, eof)" by (cases "pb_decode_tag s") auto
    note adv1 = pb_decode_tag_reads [OF tag]
    show ?thesis
    proof (cases r)
      case None
      then show ?thesis using Suc.prems unfold left tag adv1 by auto
    next
      case (Some wt_tag)
      obtain wt tg where r: "r = Some (wt, tg)" using Some by (cases wt_tag) auto
      have s1: "advances s s1" "bytes_left s1 \<le> fuel" using adv1 r Suc.prems(3) by auto
      show ?thesis
      proof (cases "\<exists>k < length tbl. f_tag (tbl ! k) = tg")
        case False
        then obtain it' where find: "pb_field_iter_find it tg = (False, it')" "iter_at tbl dest i it'"
          using iter_find_not_found [OF table_fits_tags [OF tbl] Suc.prems(1)] by blast
        obtain q s2 where skip: "pb_skip_field s1 wt = (q, s2)" by fastforce
        have s2: "advances s s2" "bytes_left s2 \<le> fuel"
          using skip_field.advances [OF skip] advances_left [of s1 s2] s1 by (auto intro: advances_trans)
        show ?thesis
        proof (cases q)
          case None
          then show ?thesis using unfold left tag r find(1) skip s2(1) Suc.prems(2) by auto
        next
          case (Some u)
          obtain status fixed' mc' s' where
            "decode_loop fuel submessage s2 it' fixed mc = Some (status, fixed', mc', s')"
            "same_outside dest n m0 (fst mc')" "advances s2 s'"
            using IH [OF find(2) Suc.prems(2) s2(2)] by blast
          with Some show ?thesis
            using unfold left tag r find(1) skip s2(1) by (auto intro: advances_trans)
        qed
      next
        case True
        then obtain k it' where k: "k < length tbl" "f_tag (tbl ! k) = tg"
          and find: "pb_field_iter_find it tg = (True, it')" "iter_at tbl dest k it'"
          using iter_find_found [OF table_fits_tags [OF tbl] Suc.prems(1)] by blast
        show ?thesis
        proof (cases "enter_fixed_count it' fixed mc")
          case None
          then show ?thesis using unfold left tag r find(1) s1(1) Suc.prems(2) by auto
        next
          case (Some e)
          obtain it1 fixed1 mc1 where e: "enter_fixed_count it' fixed mc = Some (it1, fixed1, mc1)"
            using Some by (cases e) auto
          have it1: "iter_at tbl dest k it1" and mc1: "same_outside dest n m0 (fst mc1)"
            using enter_fixed_count_keeps [OF e find(2)] Suc.prems(2) by auto
          obtain ok mc' s2 where dec: "decode_field submessage s1 wt it1 mc1 = (ok, mc', s2)"
            by (cases "decode_field submessage s1 wt it1 mc1") auto
          note w = decode_field_within [OF sub on_fieldI [OF tbl it1] m0 mc1 dec]
          have s2: "advances s s2" "bytes_left s2 \<le> fuel"
            using w advances_left [of s1 s2] s1 by (auto intro: advances_trans)
          show ?thesis
          proof (cases ok)
            case False
            then show ?thesis using unfold left tag r find(1) e dec w s2(1) by auto
          next
            case True
            obtain status fixed' mc'' s' where
              "decode_loop fuel submessage s2 it1 fixed1 mc' = Some (status, fixed', mc'', s')"
              "same_outside dest n m0 (fst mc'')" "advances s2 s'"
              using IH [OF it1 _ s2(2)] w by blast
            with True show ?thesis
              using unfold left tag r find(1) e dec s2(1) by (auto intro: advances_trans)
          qed
        qed
      qed
    qed
  qed
qed

end
