(* ===== verification/Tx_Layout.thy ===== *)
theory Tx_Layout
  imports Pb_Decode
begin

text \<open>
  The descriptor tables of the transaction messages (\<^verbatim>\<open>src/proto/protocol.pb.c\<close>) and the layout of the
  structures they fill (\<^verbatim>\<open>src/proto/protocol.pb.h\<close>), as the compiler for the device lays them out:
  characters and byte arrays without padding, the 32-bit exponent of \<open>ledger_swap_UDecimal\<close> and
  the structures that hold it aligned to four bytes. A member is named by its offset and its size.
\<close>

type_synonym member = "nat \<times> nat"

definition member_bytes :: "member \<Rightarrow> mem \<Rightarrow> u8 list" where
  "member_bytes mb m = mread (fst mb) (snd mb) m"

text \<open>The C string that starts at a member; it ends inside the member when that has a zero.\<close>

definition member_string :: "member \<Rightarrow> mem \<Rightarrow> u8 list" where
  "member_string mb m = cstr (drop (fst mb) m)"

lemma member_string_inside: "0 \<in> set (member_bytes mb m) \<Longrightarrow> member_string mb m = cstr (member_bytes mb m)"
  by (metis append_take_drop_id cstr_append_end member_bytes_def member_string_def mread_def)

text \<open>\<open>PB_FIELD(tag, ltype, SINGULAR, STATIC, ...)\<close>: a field without presence flag.\<close>

definition SINGULAR_STATIC :: "nat \<Rightarrow> pb_ltype \<Rightarrow> nat \<Rightarrow> nat \<Rightarrow> pb_ptr \<Rightarrow> pb_field" where
  "SINGULAR_STATIC tag ltype fd sz ptr = PB_FIELD tag ltype HTYPE_OPTIONAL ATYPE_STATIC fd 0 sz 0 ptr"

section \<open>Swap\<close>

definition swap_payin_address :: member where "swap_payin_address = (0, 151)"
definition swap_payin_extra_id :: member where "swap_payin_extra_id = (151, 20)"
definition swap_refund_address :: member where "swap_refund_address = (171, 151)"
definition swap_refund_extra_id :: member where "swap_refund_extra_id = (322, 20)"
definition swap_payout_address :: member where "swap_payout_address = (342, 151)"
definition swap_payout_extra_id :: member where "swap_payout_extra_id = (493, 20)"
definition swap_currency_from :: member where "swap_currency_from = (513, 10)"
definition swap_currency_to :: member where "swap_currency_to = (523, 10)"
definition swap_amount_to_provider :: member where "swap_amount_to_provider = (533, 17)"
definition swap_amount_to_wallet :: member where "swap_amount_to_wallet = (550, 17)"
definition swap_device_transaction_id :: member where "swap_device_transaction_id = (567, 11)"
definition swap_device_transaction_id_ng :: member where "swap_device_transaction_id_ng = (578, 33)"
definition swap_payin_extra_data :: member where "swap_payin_extra_data = (611, 34)"

definition ledger_swap_NewTransactionResponse_fields :: "pb_field list" where
  "ledger_swap_NewTransactionResponse_fields =
     [SINGULAR_STATIC 1 LTYPE_STRING 0 151 PTR_NULL,
      SINGULAR_STATIC 2 LTYPE_STRING 0 20 PTR_NULL,
      SINGULAR_STATIC 3 LTYPE_STRING 0 151 PTR_NULL,
      SINGULAR_STATIC 4 LTYPE_STRING 0 20 PTR_NULL,
      SINGULAR_STATIC 5 LTYPE_STRING 0 151 PTR_NULL,
      SINGULAR_STATIC 6 LTYPE_STRING 0 20 PTR_NULL,
      SINGULAR_STATIC 7 LTYPE_STRING 0 10 PTR_NULL,
      SINGULAR_STATIC 8 LTYPE_STRING 0 10 PTR_NULL,
      SINGULAR_STATIC 9 LTYPE_BYTES 0 17 PTR_NULL,
      SINGULAR_STATIC 10 LTYPE_BYTES 0 17 PTR_NULL,
      SINGULAR_STATIC 11 LTYPE_STRING 0 11 PTR_NULL,
      SINGULAR_STATIC 12 LTYPE_BYTES 0 33 PTR_NULL,
      SINGULAR_STATIC 13 LTYPE_BYTES 0 34 PTR_NULL]"

section \<open>Sell\<close>

definition udecimal_coefficient :: member where "udecimal_coefficient = (0, 17)"
definition udecimal_exponent :: member where "udecimal_exponent = (20, 4)"

definition ledger_swap_UDecimal_fields :: "pb_field list" where
  "ledger_swap_UDecimal_fields =
     [SINGULAR_STATIC 1 LTYPE_BYTES 0 17 PTR_NULL,
      SINGULAR_STATIC 2 LTYPE_UVARINT 3 4 PTR_NULL]"

definition sell_trader_email :: member where "sell_trader_email = (0, 50)"
definition sell_in_currency :: member where "sell_in_currency = (50, 10)"
definition sell_in_amount :: member where "sell_in_amount = (60, 17)"
definition sell_in_address :: member where "sell_in_address = (77, 151)"
definition sell_out_currency :: member where "sell_out_currency = (228, 10)"
definition sell_out_amount :: member where "sell_out_amount = (240, 24)"
definition sell_device_transaction_id :: member where "sell_device_transaction_id = (264, 33)"
definition sell_in_extra_id :: member where "sell_in_extra_id = (297, 20)"

definition ledger_swap_NewSellResponse_fields :: "pb_field list" where
  "ledger_swap_NewSellResponse_fields =
     [SINGULAR_STATIC 1 LTYPE_STRING 0 50 PTR_NULL,
      SINGULAR_STATIC 2 LTYPE_STRING 0 10 PTR_NULL,
      SINGULAR_STATIC 3 LTYPE_BYTES 0 17 PTR_NULL,
      SINGULAR_STATIC 4 LTYPE_STRING 0 151 PTR_NULL,
      SINGULAR_STATIC 5 LTYPE_STRING 0 10 PTR_NULL,
      SINGULAR_STATIC 6 LTYPE_SUBMESSAGE 2 24 (PTR_FIELDS ledger_swap_UDecimal_fields),
      SINGULAR_STATIC 7 LTYPE_BYTES 0 33 PTR_NULL,
      SINGULAR_STATIC 8 LTYPE_STRING 0 20 PTR_NULL]"

section \<open>Fund\<close>

definition fund_user_id :: member where "fund_user_id = (0, 50)"
definition fund_account_name :: member where "fund_account_name = (50, 50)"
definition fund_in_currency :: member where "fund_in_currency = (100, 10)"
definition fund_in_amount :: member where "fund_in_amount = (110, 17)"
definition fund_in_address :: member where "fund_in_address = (127, 151)"
definition fund_device_transaction_id :: member where "fund_device_transaction_id = (278, 33)"
definition fund_in_extra_id :: member where "fund_in_extra_id = (311, 20)"

definition ledger_swap_NewFundResponse_fields :: "pb_field list" where
  "ledger_swap_NewFundResponse_fields =
     [SINGULAR_STATIC 1 LTYPE_STRING 0 50 PTR_NULL,
      SINGULAR_STATIC 2 LTYPE_STRING 0 50 PTR_NULL,
      SINGULAR_STATIC 3 LTYPE_STRING 0 10 PTR_NULL,
      SINGULAR_STATIC 4 LTYPE_BYTES 0 17 PTR_NULL,
      SINGULAR_STATIC 5 LTYPE_STRING 0 151 PTR_NULL,
      SINGULAR_STATIC 6 LTYPE_BYTES 0 33 PTR_NULL,
      SINGULAR_STATIC 7 LTYPE_STRING 0 20 PTR_NULL]"

section \<open>Sizes\<close>

definition sizeof_NewTransactionResponse :: nat where "sizeof_NewTransactionResponse = 645"
definition sizeof_NewSellResponse :: nat where "sizeof_NewSellResponse = 320"
definition sizeof_NewFundResponse :: nat where "sizeof_NewFundResponse = 331"
definition sizeof_raw_transaction :: nat where "sizeof_raw_transaction = 512"

text \<open>The union of the raw command and the three messages.\<close>

definition sizeof_tx :: nat where "sizeof_tx = 648"

lemmas layout_defs = sizeof_NewTransactionResponse_def sizeof_NewSellResponse_def sizeof_NewFundResponse_def
  sizeof_raw_transaction_def sizeof_tx_def
  swap_payin_address_def swap_payin_extra_id_def swap_refund_address_def swap_refund_extra_id_def
  swap_payout_address_def swap_payout_extra_id_def swap_currency_from_def swap_currency_to_def
  swap_amount_to_provider_def swap_amount_to_wallet_def swap_device_transaction_id_def
  swap_device_transaction_id_ng_def swap_payin_extra_data_def
  udecimal_coefficient_def udecimal_exponent_def
  sell_trader_email_def sell_in_currency_def sell_in_amount_def sell_in_address_def sell_out_currency_def
  sell_out_amount_def sell_device_transaction_id_def sell_in_extra_id_def
  fund_user_id_def fund_account_name_def fund_in_currency_def fund_in_amount_def fund_in_address_def
  fund_device_transaction_id_def fund_in_extra_id_def

lemmas table_defs = ledger_swap_NewTransactionResponse_fields_def ledger_swap_UDecimal_fields_def
  ledger_swap_NewSellResponse_fields_def ledger_swap_NewFundResponse_fields_def SINGULAR_STATIC_def

section \<open>The tables describe the structures\<close>

text \<open>
  The offset and the size of every field of a table, from its descriptors alone; without the
  cases that need repeated fields, pointers or unions, this is what the iterator computes.
\<close>

fun members_from :: "nat \<Rightarrow> pb_field list \<Rightarrow> member list" where
  "members_from off [] = []"
| "members_from off (f # fs) =
     (off + data_offset f, data_size f) # members_from (off + data_offset f + data_size f) fs"

definition plain :: "pb_field \<Rightarrow> bool" where
  "plain f \<longleftrightarrow> f_htype f = HTYPE_OPTIONAL \<and> f_atype f = ATYPE_STATIC \<and> size_offset f = 0"

lemma field_data_Cons:
  assumes "plain f" and "i < length fs" and "list_all plain fs"
  shows "field_data (f # fs) dest (Suc i) = field_data fs (dest + data_offset f + data_size f) i"
  using assms(2)
proof (induction i)
  case 0
  then show ?case using assms(1) by (simp add: Let_def field_at_def plain_def pb_field_iter_begin_def)
next
  case (Suc i)
  then have "plain (fs ! i)" "plain (fs ! Suc i)" using assms(3) by (simp_all add: list_all_length)
  with Suc show ?case by (simp add: Let_def field_at_def plain_def)
qed

lemma members_from_field_data:
  "list_all plain tbl \<Longrightarrow> i < length tbl \<Longrightarrow>
   field_data tbl dest i = fst (members_from dest tbl ! i) \<and> data_size (tbl ! i) = snd (members_from dest tbl ! i)"
proof (induction tbl arbitrary: dest i)
  case (Cons f fs)
  then show ?case
    using field_data_Cons [of f _ fs dest]
    by (cases i) (simp_all add: pb_field_iter_begin_def Let_def field_at_def)
qed simp

lemma length_members_from [simp]: "length (members_from off tbl) = length tbl"
  by (induction tbl arbitrary: off) auto

lemma plain_cell:
  assumes "list_all plain tbl" and "i < length tbl"
  shows "field_size_cell tbl dest i = field_data tbl dest i"
  using assms by (cases i) (auto simp: list_all_length field_at_def plain_def Let_def)

lemma own_fits_plain:
  assumes "tbl \<noteq> []" "list_all plain tbl" "tags_ok tbl"
    and "list_all (\<lambda>(off, k). 0 < k \<and> off + k \<le> n) (members_from 0 tbl)"
    and "list_all type_fits tbl"
  shows "own_fits tbl n"
proof -
  have "field_data tbl 0 i + stored_size (tbl ! i) \<le> n \<and> field_size_cell tbl 0 i < n \<and>
      0 \<le> int (field_data tbl 0 i) + size_offset (tbl ! i) \<and> type_fits (tbl ! i)" if i: "i < length tbl" for i
  proof -
    have "plain (tbl ! i)" "type_fits (tbl ! i)" using assms i by (simp_all add: list_all_length)
    moreover have "case members_from 0 tbl ! i of (off, k) \<Rightarrow> 0 < k \<and> off + k \<le> n"
      using assms(4) i by (simp add: list_all_length)
    ultimately show ?thesis
      using members_from_field_data [OF assms(2) i, of 0] plain_cell [OF assms(2) i, of 0]
      by (simp add: stored_size_def item_count_def plain_def split: prod.splits)
  qed
  with assms(1,3) show ?thesis by (simp add: own_fits_def)
qed

lemmas fits_evaluation = own_fits_plain table_defs plain_def tags_ok_def type_fits_def

lemma swap_table_fits: "table_fits 0 ledger_swap_NewTransactionResponse_fields sizeof_NewTransactionResponse"
  by (simp add: fits_evaluation sizeof_NewTransactionResponse_def)

lemma fund_table_fits: "table_fits 0 ledger_swap_NewFundResponse_fields sizeof_NewFundResponse"
  by (simp add: fits_evaluation sizeof_NewFundResponse_def)

lemma udecimal_table_fits: "table_fits 0 ledger_swap_UDecimal_fields 24"
  by (simp add: fits_evaluation)

lemma sell_table_fits: "table_fits 1 ledger_swap_NewSellResponse_fields sizeof_NewSellResponse"
proof -
  have "own_fits ledger_swap_NewSellResponse_fields sizeof_NewSellResponse"
    by (simp add: own_fits_plain plain_def tags_ok_def type_fits_def
        ledger_swap_NewSellResponse_fields_def SINGULAR_STATIC_def sizeof_NewSellResponse_def)
  moreover have "\<forall>f \<in> set ledger_swap_NewSellResponse_fields. f_ltype f = LTYPE_SUBMESSAGE \<longrightarrow>
      f_ptr f = PTR_FIELDS ledger_swap_UDecimal_fields \<and> data_size f = 24"
    by (simp add: ledger_swap_NewSellResponse_fields_def SINGULAR_STATIC_def)
  ultimately show ?thesis using udecimal_table_fits by fastforce
qed

text \<open>The members of the structures are where the tables put the fields.\<close>

lemma swap_members:
  "members_from 0 ledger_swap_NewTransactionResponse_fields =
     [swap_payin_address, swap_payin_extra_id, swap_refund_address, swap_refund_extra_id,
      swap_payout_address, swap_payout_extra_id, swap_currency_from, swap_currency_to,
      swap_amount_to_provider, swap_amount_to_wallet, swap_device_transaction_id,
      swap_device_transaction_id_ng, swap_payin_extra_data]"
  by (simp add: table_defs layout_defs)

lemma sell_members:
  "members_from 0 ledger_swap_NewSellResponse_fields =
     [sell_trader_email, sell_in_currency, sell_in_amount, sell_in_address, sell_out_currency,
      sell_out_amount, sell_device_transaction_id, sell_in_extra_id]"
  by (simp add: table_defs layout_defs)

lemma fund_members:
  "members_from 0 ledger_swap_NewFundResponse_fields =
     [fund_user_id, fund_account_name, fund_in_currency, fund_in_amount, fund_in_address,
      fund_device_transaction_id, fund_in_extra_id]"
  by (simp add: table_defs layout_defs)

lemma udecimal_members:
  "members_from 0 ledger_swap_UDecimal_fields = [udecimal_coefficient, udecimal_exponent]"
  by (simp add: table_defs layout_defs)

end
