(* ===== verification/Pb_Message.thy ===== *)
theory Pb_Message
  imports Tx_Layout
begin

text \<open>
  What \<open>pb_decode\<close> (\<open>pb_decode.c\<close>) promises of a whole message: it ends, it writes nothing outside
  the message it fills, it takes nothing beyond the end of its stream, and what it stores is what
  the bytes encode.
\<close>

section \<open>Every message ends and stays in its structure\<close>

lemma pb_decode_noinit_within:
  assumes sub: "stack \<noteq> 0 \<Longrightarrow> field_decoder (pb_dec_submessage (pb_decode_noinit (stack - 1))) sub_fits"
    and tbl: "table_fits d tbl n" and m: "dest + n \<le> length m"
    and run: "pb_decode_noinit stack s tbl dest m = (ok, m', s')"
  shows "same_outside dest n m m' \<and> advances s s'"
proof (cases stack)
  case 0
  then show ?thesis using run by auto
next
  case (Suc k)
  let ?it = "snd (pb_field_iter_begin tbl dest)"
  have "tbl \<noteq> []" using table_fits_own [OF tbl] by (simp add: own_fits_def)
  note it = begin_iter_at [OF this, of dest]
  obtain status fixed mc s1 where
    l: "decode_loop (bytes_left s) (pb_dec_submessage (pb_decode_noinit k)) s ?it None (m, 0) = Some (status, fixed, mc, s1)"
    and w: "same_outside dest n m (fst mc)" "advances s s1"
    using decode_loop_within [OF _ tbl m it, of "pb_dec_submessage (pb_decode_noinit k)" "(m, 0)" s "bytes_left s" None]
      sub Suc by auto
  obtain m1 c where mc: "mc = (m1, c)" by fastforce
  show ?thesis
    using run w unfolding Suc pb_decode_noinit.simps Let_def l by (auto simp: mc split: if_splits)
qed

lemma pb_dec_submessage_decoder:
  assumes noinit: "\<And>d tbl n dest m s ok m' s'. table_fits d tbl n \<Longrightarrow> dest + n \<le> length m \<Longrightarrow>
    noinit s tbl dest m = (ok, m', s') \<Longrightarrow> same_outside dest n m m' \<and> advances s s'"
  shows "field_decoder (pb_dec_submessage noinit) sub_fits"
proof (unfold_locales)
  fix f dest and m :: mem and s
  assume "sub_fits f" and room: "dest + data_size f \<le> length m"
  then obtain e tbl where ptr: "f_ptr f = PTR_FIELDS tbl" and tbl: "table_fits e tbl (data_size f)"
    by (auto simp: sub_fits_def)
  obtain r s1 where mk: "pb_make_string_substream s = (r, s1)" by fastforce
  show "decodes_within dest (data_size f) m s (pb_dec_submessage noinit s f dest m)"
  proof (cases r)
    case None
    then show ?thesis using make_substream_None mk by (auto simp: pb_dec_submessage_def intro: within_failed)
  next
    case (Some sub)
    define m1 where "m1 = (if f_htype f = HTYPE_REPEATED then pb_message_set_to_defaults tbl dest m else m)"
    have m1: "same_outside dest (data_size f) m m1"
      using defaults_within(1) [OF tbl room] by (simp add: m1_def)
    obtain status m2 sub' where run: "noinit sub tbl dest m1 = (status, m2, sub')"
      by (cases "noinit sub tbl dest m1") auto
    have n: "same_outside dest (data_size f) m1 m2" "advances sub sub'"
      using noinit [OF tbl _ run] room same_outside_length [OF m1] by auto
    obtain ok s2 where cl: "pb_close_string_substream s1 sub' = (ok, s2)" by fastforce
    note mk' = mk [unfolded Some]
    note c = close_substream [OF mk' n(2) cl] and b = make_substream_Some(3) [OF mk']
    have "pb_dec_submessage noinit s f dest m = (if \<not> ok then False else status, m2, s2)"
      using run unfolding pb_dec_submessage_def mk' prod.case option.case ptr pb_ptr.case m1_def Let_def
      by (simp add: cl)
    then show ?thesis
      using c b m1 n(1) by (auto simp: decodes_within_def intro: same_outside_trans)
  qed
qed

lemma noinit_within:
  "table_fits d tbl n \<Longrightarrow> dest + n \<le> length m \<Longrightarrow> pb_decode_noinit stack s tbl dest m = (ok, m', s') \<Longrightarrow>
   same_outside dest n m m' \<and> advances s s'"
proof (induction stack arbitrary: d tbl n dest m s ok m' s')
  case 0
  then show ?case by auto
next
  case (Suc stack)
  have "field_decoder (pb_dec_submessage (pb_decode_noinit stack)) sub_fits"
    by (rule pb_dec_submessage_decoder) (rule Suc.IH)
  then show ?case using pb_decode_noinit_within [OF _ Suc.prems] by simp
qed

interpretation dec_submessage: field_decoder "pb_dec_submessage (pb_decode_noinit stack)" sub_fits for stack
  by (rule pb_dec_submessage_decoder) (rule noinit_within)

lemma pb_decode_within:
  assumes "table_fits d tbl n" and "dest + n \<le> length m"
    and "pb_decode stack s tbl dest m = (ok, m', s')"
  shows "same_outside dest n m m' \<and> advances s s'"
  using defaults_within(1) [OF assms(1,2)] same_outside_length noinit_within [OF assms(1)] assms(2,3)
  unfolding pb_decode_def Let_def by (metis same_outside_trans)

text \<open>
  C20: Decoding never corrupts memory. Whatever the input bytes and however they are malformed,
  \<open>pb_decode\<close> leaves every byte outside the destination structure as it was, the number of bytes of
  memory too, and its stream only moves forward, by no more than the bytes it had.
\<close>

theorem pb_decode_memory_safe:
  assumes "table_fits d tbl n" and "dest + n \<le> length m"
    and "pb_decode stack s tbl dest m = (ok, m', s')"
  shows "same_outside dest n m m' \<and> advances s s'"
  by (rule pb_decode_within [OF assms])

text \<open>
  C31: The decoding loop ends: with as much fuel as bytes are left in the stream, the loop of
  \<open>pb_decode_noinit\<close> returns, for every table and every input, because every turn takes a byte.
\<close>

theorem pb_decode_loop_ends:
  assumes "table_fits d tbl n" and "dest + n \<le> length m" and "bytes_left s \<le> fuel"
  shows "decode_loop fuel (pb_dec_submessage (pb_decode_noinit stack)) s
           (snd (pb_field_iter_begin tbl dest)) None (m, 0) \<noteq> None"
proof -
  have "tbl \<noteq> []" using table_fits_own [OF assms(1)] by (simp add: own_fits_def)
  from decode_loop_within [OF dec_submessage.field_decoder_axioms assms(1,2) begin_iter_at [OF this], of "(m, 0)"] assms(3)
  show ?thesis by fastforce
qed

text \<open>A coefficient that announces five bytes where one follows, into the middle of a memory.\<close>

definition cut_message :: pb_istream where
  "cut_message = pb_istream_from_buffer [0x0A, 0x05, 0x01] 3"

theorem pb_decode_memory_safe_witness:
  "case pb_decode 1 cut_message ledger_swap_UDecimal_fields 4 (replicate 32 0xFF) of
     (ok, m', s') \<Rightarrow> same_outside 4 24 (replicate 32 0xFF) m' \<and> advances cut_message s'"
proof -
  obtain ok m' s' where "pb_decode 1 cut_message ledger_swap_UDecimal_fields 4 (replicate 32 0xFF) = (ok, m', s')"
    by (cases "pb_decode 1 cut_message ledger_swap_UDecimal_fields 4 (replicate 32 0xFF)") auto
  with pb_decode_memory_safe [OF udecimal_table_fits _ this] show ?thesis by simp
qed

theorem pb_decode_loop_ends_witness:
  "decode_loop 3 (pb_dec_submessage (pb_decode_noinit 0)) cut_message
     (snd (pb_field_iter_begin ledger_swap_UDecimal_fields 4)) None (replicate 32 0xFF, 0) \<noteq> None"
  by (rule pb_decode_loop_ends [OF udecimal_table_fits])
    (simp_all add: cut_message_def pb_istream_from_buffer_def)

end
