(* ===== verification/Pb_Roundtrip.thy ===== *)
theory Pb_Roundtrip
  imports Pb_Message
begin

text \<open>
  The messages that \<open>pb_decode\<close> (\<^verbatim>\<open>src/pb_decode.c\<close>) reads back: encoding and decoding of the values
  the program's tables have.
\<close>

section \<open>What a message says\<close>

text \<open>
  The values a message can carry, their encoding as the protocol buffers documentation has it, and
  the memory in which a table stores them. The fields are those the program's tables have: one
  value each, without presence flag.
\<close>

datatype pb_value = V_STRING "u8 list" | V_BYTES "u8 list" | V_UINT nat | V_MESSAGE "(nat \<times> pb_value) list"

fun wire_type_of :: "pb_value \<Rightarrow> nat" where
  "wire_type_of (V_UINT n) = PB_WT_VARINT"
| "wire_type_of v = PB_WT_STRING"

fun enc_value :: "pb_value \<Rightarrow> u8 list" and enc_message :: "(nat \<times> pb_value) list \<Rightarrow> u8 list" where
  "enc_value (V_STRING bs) = enc_varint (length bs) @ bs"
| "enc_value (V_BYTES bs) = enc_varint (length bs) @ bs"
| "enc_value (V_UINT n) = enc_varint n"
| "enc_value (V_MESSAGE es) = enc_varint (length (enc_message es)) @ enc_message es"
| "enc_message [] = []"
| "enc_message ((t, v) # es) = enc_tag (wire_type_of v) t @ enc_value v @ enc_message es"

fun tag_index :: "pb_field list \<Rightarrow> nat \<Rightarrow> nat option" where
  "tag_index [] t = None"
| "tag_index (f # fs) t = (if f_tag f = t then Some 0 else map_option Suc (tag_index fs t))"

definition sub_table :: "pb_field \<Rightarrow> pb_field list" where
  "sub_table f = (case f_ptr f of PTR_FIELDS sub \<Rightarrow> sub | _ \<Rightarrow> [])"

definition singular :: "pb_field \<Rightarrow> bool" where
  "singular f \<longleftrightarrow> f_atype f = ATYPE_STATIC \<and>
     (f_htype f = HTYPE_REQUIRED \<or> f_htype f = HTYPE_OPTIONAL \<and> size_offset f = 0)"

fun fits_value :: "pb_field \<Rightarrow> pb_value \<Rightarrow> bool" and
  fits_message :: "pb_field list \<Rightarrow> (nat \<times> pb_value) list \<Rightarrow> bool" where
  "fits_value f (V_STRING bs) \<longleftrightarrow> f_ltype f = LTYPE_STRING \<and> length bs < data_size f"
| "fits_value f (V_BYTES bs) \<longleftrightarrow> f_ltype f = LTYPE_BYTES \<and> length bs < data_size f \<and> length bs \<le> 255"
| "fits_value f (V_UINT n) \<longleftrightarrow> f_ltype f = LTYPE_UVARINT \<and> data_size f = 4 \<and> n < 2 ^ 32"
| "fits_value f (V_MESSAGE es) \<longleftrightarrow> f_ltype f = LTYPE_SUBMESSAGE \<and> fits_message (sub_table f) es"
| "fits_message tbl [] \<longleftrightarrow> True"
| "fits_message tbl ((t, v) # es) \<longleftrightarrow>
     t < 2 ^ 29 \<and>
     (case tag_index tbl t of
        None \<Rightarrow> False
      | Some k \<Rightarrow> singular (tbl ! k) \<and> fits_value (tbl ! k) v) \<and>
     fits_message tbl es"

fun store_value :: "pb_field \<Rightarrow> nat \<Rightarrow> pb_value \<Rightarrow> mem \<Rightarrow> mem" and
  store_message :: "pb_field list \<Rightarrow> nat \<Rightarrow> (nat \<times> pb_value) list \<Rightarrow> mem \<Rightarrow> mem" where
  "store_value f p (V_STRING bs) m = mwrite p (bs @ [0]) m"
| "store_value f p (V_BYTES bs) m = mwrite p (of_nat (length bs) # bs) m"
| "store_value f p (V_UINT n) m = mwrite p (le_bytes (data_size f) (of_nat n)) m"
| "store_value f p (V_MESSAGE es) m = store_message (sub_table f) p es m"
| "store_message tbl dest [] m = m"
| "store_message tbl dest ((t, v) # es) m =
     (case tag_index tbl t of
        None \<Rightarrow> store_message tbl dest es m
      | Some k \<Rightarrow> store_message tbl dest es (store_value (tbl ! k) (field_data tbl dest k) v m))"

lemma tag_index_Some: "tag_index tbl t = Some k \<Longrightarrow> k < length tbl \<and> f_tag (tbl ! k) = t"
  by (induction tbl arbitrary: k) (auto split: if_splits)

lemma singular_cell:
  assumes "singular (tbl ! k)" and "k < length tbl" and "f_htype (tbl ! k) = HTYPE_OPTIONAL"
  shows "field_size_cell tbl dest k = field_data tbl dest k"
  using assms by (cases k) (auto simp: singular_def field_at_def)

lemma enc_varint_nonempty: "1 \<le> length (enc_varint n)"
  by (simp add: enc_varint_unfold)

lemma dec_string_enc:
  assumes "length (enc_value (V_STRING bs)) < 2 ^ 32" and "length bs < data_size f" and "f_atype f = ATYPE_STATIC"
    and "stream_ok s" and "pending s = enc_value (V_STRING bs) @ rest" and "p + data_size f \<le> length m"
  shows "pb_dec_string s f p m = (True, mwrite p (bs @ [0]) m, after_bytes (enc_value (V_STRING bs)) s)"
proof -
  let ?n = "length bs" and ?t = "after_bytes (enc_varint (length bs)) s"
  have "length (enc_varint ?n) + ?n < 4294967296" using assms(1) by simp
  then have n: "?n + 1 < 4294967296" using enc_varint_nonempty [of ?n] by linarith
  have hd: "pb_decode_varint32 s = (Some (of_nat ?n), ?t)"
    using pb_decode_varint32_enc [of ?n s] n assms(4,5) by simp
  have u: "unat (of_nat ?n :: u32) = ?n" using n unat_of_nat_u32 by simp
  have u1: "unat (of_nat ?n + 1 :: u32) = ?n + 1"
    using n unat_of_nat_u32 [of "?n + 1"] by (simp add: add.commute)
  have rd: "pb_read ?t ?n = (Some bs, after_bytes bs ?t)"
    using pb_read_append [of ?t bs _ ?n] assms(4,5) by (simp add: stream_ok_after pending_after)
  show ?thesis
    using assms(2,3,6) n u u1
    by (simp add: pb_dec_string_def hd Let_def pb_read_into_def rd word_less_nat_alt mwrite_mwrite_adjacent)
qed

lemma dec_bytes_enc:
  assumes "length bs < data_size f" and "length bs \<le> 255" and "f_atype f = ATYPE_STATIC"
    and "stream_ok s" and "pending s = enc_value (V_BYTES bs) @ rest" and "p + data_size f \<le> length m"
  shows "pb_dec_bytes s f p m = (True, mwrite p (of_nat (length bs) # bs) m, after_bytes (enc_value (V_BYTES bs)) s)"
proof -
  let ?n = "length bs" and ?t = "after_bytes (enc_varint (length bs)) s"
  have hd: "pb_decode_varint32 s = (Some (of_nat ?n), ?t)"
    using pb_decode_varint32_enc [of ?n s] assms(2,4,5) by simp
  have u: "unat (of_nat ?n :: u32) = ?n" using assms(2) unat_of_nat_u32 by simp
  have u1: "unat (of_nat ?n + 1 :: u32) = ?n + 1"
    using assms(2) unat_of_nat_u32 [of "?n + 1"] by (simp add: add.commute)
  have rd: "pb_read ?t ?n = (Some bs, after_bytes bs ?t)"
    using pb_read_append [of ?t bs _ ?n] assms(4,5) by (simp add: stream_ok_after pending_after)
  have c: "(ucast (of_nat ?n :: u32) :: u8) = of_nat ?n" using assms(2) take_bit_nat_eq_self [of ?n 32] by (simp add: unsigned_of_nat)
  show ?thesis
    using assms(1-3,6) u u1 mwrite_mwrite_adjacent [of p "[of_nat ?n]" bs m]
    by (simp add: pb_dec_bytes_def hd Let_def PB_SIZE_MAX_def pb_read_into_def rd c word_less_nat_alt)
qed

lemma dec_uvarint_enc:
  assumes "n < 2 ^ 32" and "data_size f = 4" and "stream_ok s" and "pending s = enc_value (V_UINT n) @ rest"
  shows "pb_dec_uvarint s f p m = (True, mwrite p (le_bytes 4 (of_nat n)) m, after_bytes (enc_value (V_UINT n)) s)"
proof -
  have hd: "pb_decode_varint s = (Some (of_nat n), after_bytes (enc_varint n) s)"
    using pb_decode_varint_enc [of n s] assms by simp
  have "clamp_unsigned 4 (of_nat n) = (of_nat n)"
    using assms(1) take_bit_nat_eq_self [of n 32] take_bit_nat_eq_self [of n 64]
    by (simp add: clamp_unsigned_def unsigned_of_nat)
  with hd assms(2) show ?thesis by (simp add: pb_dec_uvarint_def store_integer_def Let_def)
qed

lemma decode_singular:
  assumes "iter_at tbl dest k it" and "singular (tbl ! k)"
  shows "enter_fixed_count it fixed mc = Some (it, fixed, mc)"
    and "PB_DECODERS sub (f_ltype (tbl ! k)) s (tbl ! k) (field_data tbl dest k) (fst mc) = (ok, m', s') \<Longrightarrow>
      \<exists>c. decode_field sub s wt it mc = (ok, (m', c), s')"
proof -
  have it: "start it = tbl" "pos it = k" "k < length tbl" "pData it = field_data tbl dest k"
    "pSize it = At (field_size_cell tbl dest k) \<or> pSize it = Fixed_count"
    using assms(1) by (auto simp: iter_at_def)
  have f: "field_at tbl k = tbl ! k" using it(3) by (simp add: field_at_def)
  show "enter_fixed_count it fixed mc = Some (it, fixed, mc)"
    using assms(2) it f by (auto simp: enter_fixed_count_def Let_def singular_def)
  show "\<exists>c. decode_field sub s wt it mc = (ok, (m', c), s')"
    if "PB_DECODERS sub (f_ltype (tbl ! k)) s (tbl ! k) (field_data tbl dest k) (fst mc) = (ok, m', s')"
    using that assms(2) it f singular_cell [OF assms(2) it(3)]
    by (cases mc) (auto simp: decode_field_def decode_static_field_def Let_def singular_def)
qed

lemma dec_submessage_enc:
  assumes ptr: "f_ptr f = PTR_FIELDS tbl" and single: "singular f"
    and len: "length (enc_value (V_MESSAGE es)) < 2 ^ 32"
    and s: "stream_ok s" "pending s = enc_value (V_MESSAGE es) @ rest"
    and run: "\<And>sub. stream_ok sub \<Longrightarrow> pending sub = enc_message es \<Longrightarrow>
      noinit sub tbl p m = (True, m', after_bytes (enc_message es) sub)"
  shows "pb_dec_submessage noinit s f p m = (True, m', after_bytes (enc_value (V_MESSAGE es)) s)"
proof -
  let ?xs = "enc_message es"
  let ?t = "after_bytes (enc_varint (length ?xs)) s"
  let ?sub = "?t\<lparr>bytes_left := length ?xs\<rparr>"
  have t: "stream_ok ?t" "pending ?t = ?xs @ rest"
    using s by (simp_all add: stream_ok_after pending_after)
  have mk: "pb_make_string_substream s = (Some ?sub, ?t\<lparr>bytes_left := length rest\<rparr>)"
    using make_substream_enc [of ?xs s rest] len s by simp
  have left: "bytes_left ?t = length ?xs + length rest"
    using length_pending [OF t(1)] t(2) by simp
  have "pending ?sub = ?xs"
    using arg_cong [OF t(2), of "take (length ?xs)"] left by (simp add: pending_def min_def)
  moreover have "stream_ok ?sub" using t(1) left by (simp add: stream_ok_def)
  ultimately have r: "noinit ?sub tbl p m = (True, m', after_bytes ?xs ?sub)" using run by blast
  have "pb_close_string_substream (?t\<lparr>bytes_left := length rest\<rparr>) (after_bytes ?xs ?sub)
      = (True, after_bytes ?xs ?t)"
    using left by (simp add: pb_close_string_substream_def after_bytes_def)
  moreover have "f_htype f \<noteq> HTYPE_REPEATED" using single by (auto simp: singular_def)
  ultimately show ?thesis
    using r by (simp add: pb_dec_submessage_def mk ptr)
qed

lemma wire_type_below: "wire_type_of v < 8"
  by (cases v) (simp_all add: wire_type_defs)

lemma decode_enc:
  shows "fits_value f v \<Longrightarrow> singular f \<Longrightarrow> p + data_size f \<le> length m \<Longrightarrow>
      (f_ltype f = LTYPE_SUBMESSAGE \<Longrightarrow>
        \<exists>e. f_ptr f = PTR_FIELDS (sub_table f) \<and> table_fits e (sub_table f) (data_size f) \<and> e < stack) \<Longrightarrow>
      length (enc_value v) < 2 ^ 32 \<Longrightarrow> stream_ok s \<Longrightarrow> pending s = enc_value v @ rest \<Longrightarrow>
      PB_DECODERS (pb_dec_submessage (pb_decode_noinit stack)) (f_ltype f) s f p m =
        (True, store_value f p v m, after_bytes (enc_value v) s)"
    and "fits_message tbl es \<Longrightarrow> table_fits d tbl n \<Longrightarrow> d \<le> stack2 \<Longrightarrow> dest + n \<le> length m2 \<Longrightarrow>
      iter_at tbl dest i it \<Longrightarrow> length (enc_message es) < 2 ^ 32 \<Longrightarrow> stream_ok s2 \<Longrightarrow>
      pending s2 = enc_message es \<Longrightarrow> length (enc_message es) \<le> fuel \<Longrightarrow>
      \<exists>c'. decode_loop fuel (pb_dec_submessage (pb_decode_noinit stack2)) s2 it None (m2, c) =
        Some (True, None, (store_message tbl dest es m2, c'), after_bytes (enc_message es) s2)"
proof (induction v and es arbitrary: f p m stack s rest and tbl d n stack2 dest m2 i it s2 fuel c
    rule: enc_value_enc_message.induct)
  case (1 bs)
  then show ?case using dec_string_enc [of bs f s rest p m] by (simp add: singular_def)
next
  case (2 bs)
  then show ?case using dec_bytes_enc [of bs f s rest p m] by (simp add: singular_def)
next
  case (3 n)
  then show ?case using dec_uvarint_enc [of n f s rest p m] by simp
next
  case (4 es)
  obtain e where e: "f_ptr f = PTR_FIELDS (sub_table f)" "table_fits e (sub_table f) (data_size f)" "e < stack"
    using 4(3,6) by auto
  obtain k where k: "stack = Suc k" "e \<le> k" using e(3) by (cases stack) auto
  have "sub_table f \<noteq> []" using table_fits_own [OF e(2)] by (simp add: own_fits_def)
  note it = begin_iter_at [OF this, of p]
  have "pb_decode_noinit stack sub (sub_table f) p m =
      (True, store_message (sub_table f) p es m, after_bytes (enc_message es) sub)"
    if sub: "stream_ok sub" "pending sub = enc_message es" for sub
  proof -
    have "length (enc_message es) \<le> bytes_left sub" using length_pending [OF sub(1)] sub(2) by simp
    then obtain c' where "decode_loop (bytes_left sub) (pb_dec_submessage (pb_decode_noinit k)) sub
        (snd (pb_field_iter_begin (sub_table f) p)) None (m, 0) =
        Some (True, None, (store_message (sub_table f) p es m, c'), after_bytes (enc_message es) sub)"
      using 4(1) [OF _ e(2) k(2) 4(5) it _ sub, of "bytes_left sub" 0] 4(3,7) by auto
    then show ?thesis by (simp add: k(1) Let_def)
  qed
  from dec_submessage_enc [of f "sub_table f" es s rest "pb_decode_noinit stack" p m,
      OF e(1) 4(4) 4(7) 4(8,9) this] show ?case using 4(3) by simp
next
  case 5
  then show ?case using length_pending [of s2] by (auto simp: decode_loop.simps)
next
  case (6 t v es)
  let ?sub = "pb_dec_submessage (pb_decode_noinit stack2)"
  let ?tag = "enc_tag (wire_type_of v) t" and ?val = "enc_value v" and ?rest = "enc_message es"
  obtain k where k: "tag_index tbl t = Some k" and fit: "singular (tbl ! k)" "fits_value (tbl ! k) v"
    "fits_message tbl es" "t < 2 ^ 29"
    using 6(3) by (auto split: option.splits)
  have kt: "k < length tbl" "f_tag (tbl ! k) = t" using tag_index_Some [OF k] by auto
  have "0 < t" using kt table_fits_tags [OF 6(4)] by (auto simp: tags_ok_def)
  obtain it' where find: "pb_field_iter_find it t = (True, it')" "iter_at tbl dest k it'"
    using iter_find_found [OF table_fits_tags [OF 6(4)] 6(7) kt] by blast
  note on = on_fieldI [OF 6(4) find(2)]
  let ?s1 = "after_bytes ?tag s2" and ?s3 = "after_bytes (?tag @ ?val) s2"
  have tag: "pb_decode_tag s2 = (Some (wire_type_of v, t), ?s1, False)"
    using pb_decode_tag_enc [OF wire_type_below \<open>0 < t\<close> fit(4) 6(9)] 6(10) by simp
  have s1: "stream_ok ?s1" "pending ?s1 = ?val @ ?rest"
    using 6(9,10) by (simp_all add: stream_ok_after pending_after)
  have s3: "stream_ok ?s3" "pending ?s3 = ?rest"
    using 6(9,10) by (simp_all add: stream_ok_after pending_after)
  let ?p = "field_data tbl dest k" and ?m = "store_value (tbl ! k) (field_data tbl dest k) v m2"
  have room: "?p + data_size (tbl ! k) \<le> length m2"
    using iter_in_message [OF 6(4) find(2)] 6(6) fit(1) find(2)
    by (auto simp: stored_size_def singular_def iter_at_def item_count_def)
  have sub: "\<exists>e. f_ptr (tbl ! k) = PTR_FIELDS (sub_table (tbl ! k)) \<and>
      table_fits e (sub_table (tbl ! k)) (data_size (tbl ! k)) \<and> e < stack2"
    if "f_ltype (tbl ! k) = LTYPE_SUBMESSAGE"
    using table_fits_sub [OF 6(4) kt(1) that] 6(5) by (auto simp: sub_table_def)
  have dec: "PB_DECODERS ?sub (f_ltype (tbl ! k)) ?s1 (tbl ! k) ?p m2 = (True, ?m, ?s3)"
    using 6(1) [OF fit(2,1) room sub _ s1] 6(8) by simp
  obtain c1 where field: "decode_field ?sub ?s1 (wire_type_of v) it' (m2, c) = (True, (?m, c1), ?s3)"
    using decode_singular(2) [OF find(2) fit(1), of ?sub ?s1 "(m2, c)"] dec by fastforce
  have "length ?m = length m2"
    using decode_field_within [OF dec_submessage.field_decoder_axioms on 6(6) _ field] same_outside_length by fastforce
  then have room': "dest + n \<le> length ?m" using 6(6) by simp
  have one: "1 \<le> length ?tag" by (simp add: enc_tag_def enc_varint_unfold)
  have "Suc (length ?rest) \<le> fuel" using one 6(11) unfolding enc_message.simps length_append by linarith
  then obtain fuel' where fuel: "fuel = Suc fuel'" "length ?rest \<le> fuel'" by (cases fuel) auto
  obtain c' where rec: "decode_loop fuel' ?sub ?s3 it' None (?m, c1) =
      Some (True, None, (store_message tbl dest es ?m, c'), after_bytes ?rest ?s3)"
    using 6(2) [OF fit(3) 6(4,5) room' find(2) _ s3 fuel(2)] 6(8) by fastforce
  have "bytes_left s2 = length (?tag @ ?val @ ?rest)" using length_pending [OF 6(9)] 6(10) by simp
  then have "bytes_left s2 \<noteq> 0" using one unfolding length_append by linarith
  then show ?case
    using rec by (simp add: decode_loop.simps [of "Suc fuel'"] fuel(1) tag find(1) decode_singular(1) [OF find(2) fit(1)] field k)
qed

lemma pb_decode_enc:
  assumes "table_fits d tbl n" and "d < stack" and "dest + n \<le> length m" and "fits_message tbl es"
    and "length (enc_message es) < 2 ^ 32" and "stream_ok s" and "pending s = enc_message es"
  shows "pb_decode stack s tbl dest m =
    (True, store_message tbl dest es (pb_message_set_to_defaults tbl dest m), after_bytes (enc_message es) s)"
proof -
  obtain k where k: "stack = Suc k" "d \<le> k" using assms(2) by (cases stack) auto
  let ?m = "pb_message_set_to_defaults tbl dest m"
  have m: "dest + n \<le> length ?m"
    using same_outside_length [OF defaults_within(1) [OF assms(1,3)]] assms(3) by simp
  have "tbl \<noteq> []" using table_fits_own [OF assms(1)] by (simp add: own_fits_def)
  note it = begin_iter_at [OF this, of dest]
  have fuel: "length (enc_message es) \<le> bytes_left s" using length_pending [OF assms(6)] assms(7) by simp
  obtain c' where "decode_loop (bytes_left s) (pb_dec_submessage (pb_decode_noinit k)) s
      (snd (pb_field_iter_begin tbl dest)) None (?m, 0) =
      Some (True, None, (store_message tbl dest es ?m, c'), after_bytes (enc_message es) s)"
    using decode_enc(2) [OF assms(4,1) k(2) m it assms(5-7) fuel] by blast
  then show ?thesis by (simp add: pb_decode_def k(1) Let_def)
qed

text \<open>
  C22: Decoding inverts encoding. When the stream holds exactly the protocol buffers encoding of a
  list of tagged values that fit the table (with submessages no deeper than the stack allows),
  \<open>pb_decode\<close> accepts, consumes the stream, and leaves the message at its default values overwritten
  with the encoded values in order.
\<close>

theorem pb_decode_roundtrip:
  assumes "table_fits d tbl n" and "d < stack" and "dest + n \<le> length m" and "fits_message tbl es"
    and "length (enc_message es) < 2 ^ 32" and "stream_ok s" and "pending s = enc_message es"
  shows "pb_decode stack s tbl dest m =
    (True, store_message tbl dest es (pb_message_set_to_defaults tbl dest m), after_bytes (enc_message es) s)"
  by (rule pb_decode_enc [OF assms])

theorem pb_decode_roundtrip_witness:
  "pb_decode 1 (pb_istream_from_buffer [0x0A, 2, 0x01, 0x2C, 0x10, 2] 6) ledger_swap_UDecimal_fields 0
       (replicate 24 0xFF) =
     (True, [2, 0x01, 0x2C, 0, 0, 0, 0, 0, 0, 0, 0, 0, 0, 0, 0, 0, 0, 0xFF, 0xFF, 0xFF, 2, 0, 0, 0],
      \<lparr>pb_state = [], bytes_left = 0, errmsg = None\<rparr>)"
proof -
  let ?es = "[(1, V_BYTES [0x01, 0x2C]), (2, V_UINT 2)]"
  let ?s = "pb_istream_from_buffer [0x0A, 2, 0x01, 0x2C, 0x10, 2] 6"
  have enc: "enc_message ?es = [0x0A, 2, 0x01, 0x2C, 0x10, 2]"
    by (simp add: enc_tag_def enc_varint.simps wire_type_defs)
  have fits: "fits_message ledger_swap_UDecimal_fields ?es"
    by (simp add: table_defs singular_def)
  have s: "stream_ok ?s" "pending ?s = enc_message ?es"
    unfolding enc by (simp_all add: stream_ok_def pending_def pb_istream_from_buffer_def)
  have len: "length (enc_message ?es) < 2 ^ 32" unfolding enc by simp
  have "pb_message_set_to_defaults ledger_swap_UDecimal_fields 0 (replicate 24 0xFF) =
      replicate 17 0 @ replicate 3 0xFF @ replicate 4 0"
    by code_simp
  then have "store_message ledger_swap_UDecimal_fields 0 ?es
      (pb_message_set_to_defaults ledger_swap_UDecimal_fields 0 (replicate 24 0xFF)) =
      [2, 0x01, 0x2C, 0, 0, 0, 0, 0, 0, 0, 0, 0, 0, 0, 0, 0, 0, 0xFF, 0xFF, 0xFF, 2, 0, 0, 0]"
    by code_simp
  then show ?thesis
    using pb_decode_roundtrip [OF udecimal_table_fits, of 1 0 "replicate 24 0xFF", OF _ _ fits len s]
    unfolding enc by (simp add: after_bytes_def pb_istream_from_buffer_def)
qed

end
