(* ===== verification/Pb_Wellformed.thy ===== *)
theory Pb_Wellformed
  imports Pb_Roundtrip
begin

text \<open>
  What the rest of the program relies on after \<open>pb_decode\<close> (\<^verbatim>\<open>src/pb_decode.c\<close>) has accepted a message:
  in every structure it fills, the strings end with a zero inside their member and the byte arrays
  have a size their member can hold. It is an invariant of the decoding loop, which the default
  values establish and every decoder of a field preserves.
\<close>

section \<open>Well-formed structures\<close>

text \<open>\<open>d\<close> is the depth of submessages, as in \<open>table_fits\<close>.\<close>

fun wf_field :: "nat \<Rightarrow> pb_field \<Rightarrow> nat \<Rightarrow> mem \<Rightarrow> bool" where
  "wf_field d f p m \<longleftrightarrow>
     (case f_ltype f of
        LTYPE_STRING \<Rightarrow> 0 \<in> set (mread p (data_size f) m)
      | LTYPE_BYTES \<Rightarrow> unat (m ! p) < data_size f
      | LTYPE_SUBMESSAGE \<Rightarrow>
          (case d of
             0 \<Rightarrow> True
           | Suc e \<Rightarrow> \<forall>i < length (sub_table f). wf_field e (sub_table f ! i) (field_data (sub_table f) p i) m)
      | _ \<Rightarrow> True)"

declare wf_field.simps [simp del]

definition well_formed :: "nat \<Rightarrow> pb_field list \<Rightarrow> nat \<Rightarrow> mem \<Rightarrow> bool" where
  "well_formed d tbl dest m \<longleftrightarrow> (\<forall>i < length tbl. wf_field d (tbl ! i) (field_data tbl dest i) m)"

lemma wf_field_sub:
  "f_ltype f = LTYPE_SUBMESSAGE \<Longrightarrow> wf_field (Suc e) f p m \<longleftrightarrow> well_formed e (sub_table f) p m"
  by (simp add: wf_field.simps [of "Suc e"] well_formed_def)

text \<open>The tables of the program: single values without presence flag, all in the structure itself.\<close>

fun plain_field :: "nat \<Rightarrow> pb_field \<Rightarrow> bool" where
  "plain_field d f \<longleftrightarrow> plain f \<and> 0 < data_size f \<and>
     (if f_ltype f = LTYPE_SUBMESSAGE
      then (case d of 0 \<Rightarrow> False | Suc e \<Rightarrow> \<forall>g \<in> set (sub_table f). plain_field e g)
      else f_ptr f = PTR_NULL)"

declare plain_field.simps [simp del]

definition plain_table :: "nat \<Rightarrow> pb_field list \<Rightarrow> bool" where
  "plain_table d tbl \<longleftrightarrow> (\<forall>f \<in> set tbl. plain_field d f)"

lemma plain_table_nth:
  assumes "plain_table d tbl" and "i < length tbl"
  shows "plain (tbl ! i)" and "0 < data_size (tbl ! i)" and "singular (tbl ! i)"
    and "f_ltype (tbl ! i) \<noteq> LTYPE_SUBMESSAGE \<Longrightarrow> f_ptr (tbl ! i) = PTR_NULL"
    and "f_ltype (tbl ! i) = LTYPE_SUBMESSAGE \<Longrightarrow> \<exists>e. d = Suc e \<and> plain_table e (sub_table (tbl ! i))"
proof -
  have p: "plain_field d (tbl ! i)" using assms by (simp add: plain_table_def)
  then show "plain (tbl ! i)" "0 < data_size (tbl ! i)"
    "f_ltype (tbl ! i) \<noteq> LTYPE_SUBMESSAGE \<Longrightarrow> f_ptr (tbl ! i) = PTR_NULL"
    "f_ltype (tbl ! i) = LTYPE_SUBMESSAGE \<Longrightarrow> \<exists>e. d = Suc e \<and> plain_table e (sub_table (tbl ! i))"
    by (auto simp: plain_field.simps [of d] plain_table_def split: if_splits nat.splits)
  then show "singular (tbl ! i)" by (simp add: plain_def singular_def)
qed

section \<open>Frames\<close>

lemma fields_in_order:
  assumes "plain_table d tbl" and "i < j" and "j < length tbl"
  shows "field_data tbl dest i + data_size (tbl ! i) \<le> field_data tbl dest j"
  using assms(2,3)
proof (induction j)
  case (Suc j)
  have pj: "plain (tbl ! j)" "plain (tbl ! Suc j)"
    using plain_table_nth(1) [OF assms(1)] Suc.prems by auto
  have "field_data tbl dest (Suc j) = field_data tbl dest j + data_size (tbl ! j) + data_offset (tbl ! Suc j)"
    using pj Suc.prems by (simp add: Let_def field_at_def plain_def)
  then show ?case using Suc by (cases "i = j") auto
qed simp

lemma field_room:
  assumes "table_fits d tbl n" and "plain_table d tbl" and "i < length tbl"
  shows "dest \<le> field_data tbl dest i" and "field_data tbl dest i + data_size (tbl ! i) \<le> dest + n"
proof -
  have "field_data tbl 0 i + stored_size (tbl ! i) \<le> n"
    using table_fits_own [OF assms(1)] assms(3) by (simp add: own_fits_def)
  moreover have "stored_size (tbl ! i) = data_size (tbl ! i)"
    using plain_table_nth(1) [OF assms(2,3)] by (simp add: plain_def stored_size_def item_count_def)
  ultimately show "dest \<le> field_data tbl dest i" "field_data tbl dest i + data_size (tbl ! i) \<le> dest + n"
    using field_data_shift [of tbl dest i] by simp_all
qed

text \<open>A submessage's table, with all that is known of it.\<close>

lemma sub_of:
  assumes "table_fits d tbl n" and "plain_table d tbl" and "i < length tbl" and "f_ltype (tbl ! i) = LTYPE_SUBMESSAGE"
  obtains e where "d = Suc e" and "plain_table e (sub_table (tbl ! i))"
    and "table_fits e (sub_table (tbl ! i)) (data_size (tbl ! i))" and "f_ptr (tbl ! i) = PTR_FIELDS (sub_table (tbl ! i))"
proof -
  obtain e where e: "d = Suc e" "plain_table e (sub_table (tbl ! i))"
    using plain_table_nth(5) [OF assms(2-4)] by blast
  obtain e' sub where sub: "d = Suc e'" "f_ptr (tbl ! i) = PTR_FIELDS sub" "table_fits e' sub (data_size (tbl ! i))"
    using table_fits_sub [OF assms(1,3,4)] by blast
  then have "sub_table (tbl ! i) = sub" by (simp add: sub_table_def)
  with e sub show ?thesis using that [OF e] by simp
qed

lemma frame_reads:
  assumes "same_outside off k m m'" and "off + k \<le> p \<or> p + n \<le> off" and "p + n \<le> length m" and "0 < n"
  shows "m' ! p = m ! p" and "mread p n m' = mread p n m"
proof -
  have "p < length m" "p < off \<or> off + k \<le> p" using assms(2-4) by auto
  then show "m' ! p = m ! p" using assms(1) unfolding same_outside_def by blast
  show "mread p n m' = mread p n m" using same_outside_mread [OF assms(1)] assms(2,3) by blast
qed

lemma wf_field_frame:
  assumes "table_fits d tbl n" and "plain_table d tbl" and "i < length tbl" and "wf_field d (tbl ! i) p m"
    and "same_outside off k m m'" and "off + k \<le> p \<or> p + data_size (tbl ! i) \<le> off" and "p + data_size (tbl ! i) \<le> length m"
  shows "wf_field d (tbl ! i) p m'"
  using assms
proof (induction d arbitrary: tbl n i p)
  case 0
  let ?f = "tbl ! i"
  have "m' ! p = m ! p" "mread p (data_size ?f) m' = mread p (data_size ?f) m"
    by (rule frame_reads [OF 0(5-7) plain_table_nth(2) [OF 0(2,3)]])+
  then show ?case using 0(4) by (simp add: wf_field.simps [of 0] split: pb_ltype.splits)
next
  case (Suc e)
  let ?f = "tbl ! i"
  have same: "m' ! p = m ! p" "mread p (data_size ?f) m' = mread p (data_size ?f) m"
    by (rule frame_reads [OF Suc(6-8) plain_table_nth(2) [OF Suc(3,4)]])+
  show ?case
  proof (cases "f_ltype ?f = LTYPE_SUBMESSAGE")
    case False
    then show ?thesis using Suc(5) same by (simp add: wf_field.simps [of "Suc e"] split: pb_ltype.splits)
  next
    case True
    obtain e' where sub: "Suc e = Suc e'" "plain_table e' (sub_table ?f)" "table_fits e' (sub_table ?f) (data_size ?f)"
      using sub_of [OF Suc(2,3,4) True] by metis
    have "wf_field e (sub_table ?f ! j) (field_data (sub_table ?f) p j) m'" if j: "j < length (sub_table ?f)" for j
    proof -
      have t: "table_fits e (sub_table ?f) (data_size ?f)" "plain_table e (sub_table ?f)" using sub by simp_all
      note room = field_room [OF t j, of p]
      show ?thesis
        using Suc.IH [OF t j _ Suc(6)] Suc(5,7,8) room True j
        by (auto simp: wf_field_sub well_formed_def)
    qed
    with True show ?thesis by (simp add: wf_field_sub well_formed_def)
  qed
qed

text \<open>Writing one field keeps the others well-formed.\<close>

lemma well_formed_update:
  assumes "table_fits d tbl n" and "plain_table d tbl" and "dest + n \<le> length m" and k: "k < length tbl"
    and "same_outside (field_data tbl dest k) (data_size (tbl ! k)) m m'"
    and "wf_field d (tbl ! k) (field_data tbl dest k) m'"
    and "\<And>i. i < length tbl \<Longrightarrow> i \<noteq> k \<Longrightarrow> P i \<Longrightarrow> wf_field d (tbl ! i) (field_data tbl dest i) m"
    and "i < length tbl" and "i = k \<or> P i"
  shows "wf_field d (tbl ! i) (field_data tbl dest i) m'"
proof (cases "i = k")
  case False
  then have apart: "field_data tbl dest k + data_size (tbl ! k) \<le> field_data tbl dest i \<or>
      field_data tbl dest i + data_size (tbl ! i) \<le> field_data tbl dest k"
    using fields_in_order [OF assms(2)] k assms(8) by (cases "i < k") auto
  show ?thesis
    using wf_field_frame [OF assms(1,2,8) _ assms(5) apart] assms(7) [OF assms(8) False] False assms(9)
      field_room [OF assms(1,2,8), of dest] assms(3) by auto
qed (use assms in simp)

section \<open>The default values are well-formed\<close>

lemma default_leaf:
  assumes "f_ltype f \<noteq> LTYPE_SUBMESSAGE" and "0 < data_size f" and "p + data_size f \<le> length m"
  shows "wf_field d f p (memset p 0 (data_size f) m)"
proof -
  let ?z = "replicate (data_size f) 0"
  have "mread p (data_size f) (mwrite p ?z m) = ?z"
    using mread_mwrite_same [of p ?z m "data_size f"] assms(3) by simp
  moreover have "mwrite p ?z m ! p = 0" using nth_mwrite [of p ?z m p] assms(2,3) by simp
  ultimately show ?thesis
    using assms(1,2) by (simp add: wf_field.simps [of d] memset_def split: pb_ltype.splits)
qed

lemma default_field:
  assumes "plain f" and "field_at (start it) (pos it) = f" and "pSize it = At (pData it)"
  shows "f_ltype f \<noteq> LTYPE_SUBMESSAGE \<Longrightarrow> f_ptr f = PTR_NULL \<Longrightarrow>
      pb_field_set_to_default it m = memset (pData it) 0 (data_size f) m"
    and "f_ltype f = LTYPE_SUBMESSAGE \<Longrightarrow> f_ptr f = PTR_FIELDS sub \<Longrightarrow>
      pb_field_set_to_default it m = pb_message_set_to_defaults sub (pData it) m"
  using assms by (auto simp: pb_field_set_to_default.simps [of it] plain_def Let_def split: pb_ltype.splits)

text \<open>An iterator that walks the table, as \<open>pb_message_set_to_defaults\<close> walks it.\<close>

definition walks :: "pb_field list \<Rightarrow> nat \<Rightarrow> nat \<Rightarrow> pb_field_iter \<Rightarrow> bool" where
  "walks tbl dest i it \<longleftrightarrow> iter_at tbl dest i it \<and> pSize it = At (field_size_cell tbl dest i)"

lemma next_walks:
  assumes "tags_ok tbl" and "walks tbl dest i it" and "Suc i < length tbl" and "list_all plain tbl"
  shows "walks tbl dest (Suc i) (snd (pb_field_iter_next it))"
proof -
  have it: "iter_at tbl dest i it" using assms(2) by (simp add: walks_def)
  have nx: "iter_at tbl dest (Suc i) (snd (pb_field_iter_next it))"
    using next_iter_at(1) [OF assms(1) it] assms(3) by simp
  have tag: "f_tag (field_at tbl (Suc i)) \<noteq> 0" "f_tag (field_at tbl i) \<noteq> 0"
    using assms(1,3) by (simp_all add: tag_at)
  have "pSize (snd (pb_field_iter_next it)) = At (field_size_cell tbl dest (Suc i))"
    using nx it tag assms(3,4)
    by (auto simp: pb_field_iter_next_def iter_at_def Let_def list_all_length plain_def field_at_def split: if_splits)
  with nx show ?thesis by (simp add: walks_def)
qed

lemma plain_pointers:
  assumes "plain_table d tbl" and "walks tbl dest i it"
  shows "field_at (start it) (pos it) = tbl ! i" and "i < length tbl" and "pData it = field_data tbl dest i"
    and "pSize it = At (pData it)" and "list_all plain tbl"
proof -
  show pl: "list_all plain tbl" using assms(1) plain_table_nth(1) by (simp add: list_all_length)
  show "field_at (start it) (pos it) = tbl ! i" "i < length tbl" "pData it = field_data tbl dest i"
    "pSize it = At (pData it)"
    using assms(2) plain_cell [OF pl, of i dest] by (auto simp: walks_def iter_at_def field_at_def)
qed

lemma set_defaults_from_wf:
  assumes tbl: "table_fits d tbl n" "plain_table d tbl"
    and sub: "\<And>e tb k p mm. d = Suc e \<Longrightarrow> table_fits e tb k \<Longrightarrow> plain_table e tb \<Longrightarrow> p + k \<le> length mm \<Longrightarrow>
      well_formed e tb p (pb_message_set_to_defaults tb p mm)"
  shows "walks tbl dest i it \<Longrightarrow> dest + n \<le> length m \<Longrightarrow>
    \<forall>j < i. wf_field d (tbl ! j) (field_data tbl dest j) m \<Longrightarrow>
    well_formed d tbl dest (set_defaults_from it m)"
proof (induction "length tbl - i" arbitrary: i it m rule: less_induct)
  case less
  note at = plain_pointers [OF tbl(2) less.prems(1)]
  note room = field_room [OF tbl at(2), of dest]
  have here: "field_data tbl dest i + data_size (tbl ! i) \<le> length m" using room less.prems(2) by simp
  let ?f = "tbl ! i" and ?p = "field_data tbl dest i"
  let ?m = "pb_field_set_to_default it m"
  have m1: "same_outside ?p (data_size ?f) m ?m \<and> wf_field d ?f ?p ?m"
  proof (cases "f_ltype ?f = LTYPE_SUBMESSAGE")
    case False
    have "?m = memset ?p 0 (data_size ?f) m"
      using default_field(1) [OF plain_table_nth(1) [OF tbl(2) at(2)] at(1) at(4) False
          plain_table_nth(4) [OF tbl(2) at(2) False]] at(3) by simp
    moreover have "same_outside ?p (data_size ?f) m (memset ?p 0 (data_size ?f) m)"
      using here by (simp add: memset_def same_outside_mwrite)
    ultimately show ?thesis
      using default_leaf [OF False plain_table_nth(2) [OF tbl(2) at(2)] here] by simp
  next
    case True
    obtain e where e: "d = Suc e" "plain_table e (sub_table ?f)" "table_fits e (sub_table ?f) (data_size ?f)"
      "f_ptr ?f = PTR_FIELDS (sub_table ?f)"
      using sub_of [OF tbl at(2) True] by metis
    have m: "?m = pb_message_set_to_defaults (sub_table ?f) ?p m"
      using default_field(2) [OF plain_table_nth(1) [OF tbl(2) at(2)] at(1) at(4) True e(4)] at(3) by simp
    show ?thesis
      using sub [OF e(1,3,2) here] defaults_within(1) [OF e(3) here] wf_field_sub [OF True, of e] e(1)
      by (simp add: m)
  qed
  have len: "dest + n \<le> length ?m" using m1 less.prems(2) by (simp add: same_outside_def)
  have upto: "wf_field d (tbl ! j) (field_data tbl dest j) ?m" if "j < length tbl" "j = i \<or> j < i" for j
    by (rule well_formed_update [OF tbl less.prems(2) at(2) conjunct1 [OF m1] conjunct2 [OF m1], of "\<lambda>j. j < i"])
      (use less.prems(3) that in auto)
  obtain again it' where nx: "pb_field_iter_next it = (again, it')" by fastforce
  have again: "again \<longleftrightarrow> Suc i < length tbl"
    using next_iter_at(2) [OF table_fits_tags [OF tbl(1)], of dest i it] less.prems(1) nx by (simp add: walks_def)
  show ?case
  proof (cases again)
    case True
    have "walks tbl dest (Suc i) it'"
      using next_walks [OF table_fits_tags [OF tbl(1)] less.prems(1) _ at(5)] nx again True by simp
    moreover have "length tbl - Suc i < length tbl - i" using at(2) by simp
    moreover have "\<forall>j < Suc i. wf_field d (tbl ! j) (field_data tbl dest j) ?m"
      using upto at(2) by (simp add: less_Suc_eq)
    ultimately have "well_formed d tbl dest (set_defaults_from it' ?m)"
      using less.hyps [of "Suc i" it' ?m] len by blast
    with nx True show ?thesis by (subst set_defaults_from.simps) (simp add: Let_def)
  next
    case False
    then have "set_defaults_from it m = ?m" using nx by (subst set_defaults_from.simps) (simp add: Let_def)
    moreover have "\<forall>j < length tbl. j = i \<or> j < i" using False again at(2) by auto
    ultimately show ?thesis using upto by (auto simp: well_formed_def)
  qed
qed

lemma defaults_wf:
  "table_fits d tbl n \<Longrightarrow> plain_table d tbl \<Longrightarrow> dest + n \<le> length m \<Longrightarrow>
   well_formed d tbl dest (pb_message_set_to_defaults tbl dest m)"
proof (induction d arbitrary: tbl n dest m rule: less_induct)
  case (less d)
  have ne: "tbl \<noteq> []" using table_fits_own [OF less.prems(1)] by (simp add: own_fits_def)
  obtain ok it where bg: "pb_field_iter_begin tbl dest = (ok, it)" by fastforce
  have ok: "ok" using begin_True [OF table_fits_tags [OF less.prems(1)], of dest] ne bg by simp
  have "pSize it = At (field_size_cell tbl dest 0)"
    using bg by (auto simp: pb_field_iter_begin_def Let_def)
  then have walk: "walks tbl dest 0 it"
    using begin_iter_at [OF ne, of dest] bg by (simp add: walks_def)
  have "well_formed e tb p (pb_message_set_to_defaults tb p mm)"
    if "d = Suc e" "table_fits e tb k" "plain_table e tb" "p + k \<le> length mm" for e tb k p mm
    using less.IH [of e tb k p mm] that by simp
  then have "well_formed d tbl dest (set_defaults_from it m)"
    using set_defaults_from_wf [OF less.prems(1,2) _ walk less.prems(3)] by blast
  then show ?case using bg ok by (subst pb_message_set_to_defaults.simps) simp
qed

section \<open>Decoding keeps structures well-formed\<close>

lemma read_into_True:
  "pb_read_into s k p m = (True, m', s') \<Longrightarrow> \<exists>xs. length xs \<le> k \<and> m' = mwrite p xs m"
  by (rule exI [of _ "take k (pb_state s)"])
    (auto simp: pb_read_into_def pb_read_def buf_read_def split: prod.splits option.splits if_splits)

lemma dec_string_terminated:
  assumes run: "pb_dec_string s f p m = (True, m', s')" and room: "p + data_size f \<le> length m"
  shows "0 \<in> set (mread p (data_size f) m')"
proof -
  obtain q s1 where v: "pb_decode_varint32 s = (q, s1)" by fastforce
  then obtain sz where q: "q = Some sz" using run by (cases q) (auto simp: pb_dec_string_def)
  have sz: "\<not> sz + 1 < sz" "unat (sz + 1) \<le> data_size f"
    and rd: "\<exists>m1. pb_read_into s1 (unat sz) p m = (True, m1, s') \<and> m' = mwrite (p + unat sz) [0] m1"
    using run v q by (auto simp: pb_dec_string_def Let_def split: prod.splits if_splits)
  obtain xs where xs: "length xs \<le> unat sz" and m': "m' = mwrite (p + unat sz) [0] (mwrite p xs m)"
    using rd read_into_True by blast
  have k: "unat sz < data_size f" using sz unat_Suc_u32 [of sz] by simp
  have len: "length (mwrite p xs m) = length m" using xs k room by (simp add: length_mwrite)
  have "m' ! (p + unat sz) = 0"
    using k room len by (simp add: m' nth_mwrite)
  moreover have "length m' = length m" using k room len by (simp add: m' length_mwrite)
  ultimately have "mread p (data_size f) m' ! unat sz = 0" "unat sz < length (mread p (data_size f) m')"
    using nth_mread [of p "data_size f" m' "unat sz"] length_mread [of p "data_size f" m'] k room by simp_all
  then show ?thesis by (metis nth_mem)
qed

lemma dec_bytes_bounded:
  assumes run: "pb_dec_bytes s f p m = (True, m', s')" and room: "p + data_size f \<le> length m"
  shows "unat (m' ! p) < data_size f"
proof -
  obtain q s1 where v: "pb_decode_varint32 s = (q, s1)" by fastforce
  then obtain sz where q: "q = Some sz" using run by (cases q) (auto simp: pb_dec_bytes_def)
  have sz: "unat sz \<le> 255" "\<not> sz > sz + 1" "unat (sz + 1) \<le> data_size f"
    and rd: "pb_read_into s1 (unat sz) (p + 1) (mwrite p [ucast sz] m) = (True, m', s')"
    using run v q by (auto simp: pb_dec_bytes_def Let_def PB_SIZE_MAX_def split: if_splits)
  obtain xs where xs: "length xs \<le> unat sz" and m': "m' = mwrite (p + 1) xs (mwrite p [ucast sz] m)"
    using read_into_True [OF rd] by blast
  have k: "unat sz < data_size f" using sz unat_Suc_u32 [of sz] by simp
  have len: "length (mwrite p [ucast sz :: u8] m) = length m" using k room by (simp add: length_mwrite)
  have "m' ! p = ucast sz"
    using xs k room len by (simp add: m' nth_mwrite)
  moreover have "unat (ucast sz :: u8) = unat sz"
    using sz(1) by (simp add: unsigned_ucast_eq take_bit_nat_eq_self_iff)
  ultimately show ?thesis using k by simp
qed

text \<open>The contract of a decoder of messages: on success a well-formed structure stays well-formed.\<close>

definition keeps_wf :: "nat \<Rightarrow> (pb_istream \<Rightarrow> pb_field list \<Rightarrow> nat \<Rightarrow> mem \<Rightarrow> bool \<times> mem \<times> pb_istream) \<Rightarrow> bool" where
  "keeps_wf d noinit \<longleftrightarrow>
     (\<forall>s tbl n dest m m' s'. table_fits d tbl n \<longrightarrow> plain_table d tbl \<longrightarrow> dest + n \<le> length m \<longrightarrow>
        well_formed d tbl dest m \<longrightarrow> noinit s tbl dest m = (True, m', s') \<longrightarrow> well_formed d tbl dest m')"

lemma keeps_wfD:
  "keeps_wf d noinit \<Longrightarrow> table_fits d tbl n \<Longrightarrow> plain_table d tbl \<Longrightarrow> dest + n \<le> length m \<Longrightarrow>
   well_formed d tbl dest m \<Longrightarrow> noinit s tbl dest m = (True, m', s') \<Longrightarrow> well_formed d tbl dest m'"
  unfolding keeps_wf_def by blast

lemma decoded_field_wf:
  assumes tbl: "table_fits d tbl n" "plain_table d tbl" "i < length tbl"
    and noinit: "\<And>e. d = Suc e \<Longrightarrow> keeps_wf e noinit"
    and room: "p + data_size (tbl ! i) \<le> length m" and was: "wf_field d (tbl ! i) p m"
    and run: "PB_DECODERS (pb_dec_submessage noinit) (f_ltype (tbl ! i)) s (tbl ! i) p m = (True, m', s')"
  shows "wf_field d (tbl ! i) p m'"
proof (cases "f_ltype (tbl ! i) = LTYPE_SUBMESSAGE")
  case False
  then show ?thesis
    using run dec_string_terminated [OF _ room] dec_bytes_bounded [OF _ room]
    by (cases "f_ltype (tbl ! i)") (auto simp: wf_field.simps [of d])
next
  case True
  let ?f = "tbl ! i"
  obtain e where e: "d = Suc e" "plain_table e (sub_table ?f)" "table_fits e (sub_table ?f) (data_size ?f)"
      "f_ptr ?f = PTR_FIELDS (sub_table ?f)"
    using sub_of [OF tbl True] by metis
  have "f_htype ?f \<noteq> HTYPE_REPEATED" using plain_table_nth(1) [OF tbl(2,3)] by (simp add: plain_def)
  then obtain sub s2 where "noinit sub (sub_table ?f) p m = (True, m', s2)"
    using run e(4) True by (auto simp: pb_dec_submessage_def Let_def split: prod.splits option.splits if_splits)
  then show ?thesis
    using keeps_wfD [OF noinit [OF e(1)] e(3,2) room] was wf_field_sub [OF True, of e] e(1) by simp
qed

lemma decode_field_wf:
  assumes tbl: "table_fits d tbl n" "plain_table d tbl" and it: "iter_at tbl dest k it"
    and sub: "field_decoder (pb_dec_submessage noinit) sub_fits"
    and noinit: "\<And>e. d = Suc e \<Longrightarrow> keeps_wf e noinit"
    and room: "dest + n \<le> length m" and was: "well_formed d tbl dest m"
    and run: "decode_field (pb_dec_submessage noinit) s wt it (m, c) = (True, mc', s')"
  shows "well_formed d tbl dest (fst mc') \<and> length (fst mc') = length m"
proof -
  have k: "k < length tbl" using it by (simp add: iter_at_def)
  let ?p = "field_data tbl dest k" and ?f = "tbl ! k"
  obtain ok m' t where dec: "PB_DECODERS (pb_dec_submessage noinit) (f_ltype ?f) s ?f ?p m = (ok, m', t)"
    by (cases "PB_DECODERS (pb_dec_submessage noinit) (f_ltype ?f) s ?f ?p m") auto
  obtain c' where "decode_field (pb_dec_submessage noinit) s wt it (m, c) = (ok, (m', c'), t)"
    using decode_singular(2) [OF it plain_table_nth(3) [OF tbl(2) k], of _ s "(m, c)" ok m' t wt] dec by auto
  with run have ok: "ok" and mc': "fst mc' = m'" by auto
  note fr = field_room [OF tbl k, of dest]
  have here: "?p + data_size ?f \<le> length m" using fr room by simp
  have "type_fits ?f" "f_ltype ?f = LTYPE_SUBMESSAGE \<Longrightarrow> sub_fits ?f"
    using on_fieldI [OF tbl(1) it] by (auto simp: on_field_def)
  then have same: "same_outside ?p (data_size ?f) m m'"
    using PB_DECODERS_within [OF sub _ _ here, of s] dec by (auto simp: decodes_within_def)
  have wf: "wf_field d ?f ?p m'"
    using decoded_field_wf [OF tbl k noinit here _ dec [unfolded ok [THEN eqTrueI]]] was k
    by (auto simp: well_formed_def)
  have "wf_field d (tbl ! i) (field_data tbl dest i) m'" if "i < length tbl" for i
    by (rule well_formed_update [OF tbl room k same wf, of "\<lambda>_. True"]) (use that was in \<open>auto simp: well_formed_def\<close>)
  then show ?thesis using mc' same_outside_length [OF same] by (simp add: well_formed_def)
qed

lemma decode_loop_wf:
  assumes tbl: "table_fits d tbl n" "plain_table d tbl" and sub: "field_decoder (pb_dec_submessage noinit) sub_fits"
    and noinit: "\<And>e. d = Suc e \<Longrightarrow> keeps_wf e noinit"
  shows "iter_at tbl dest i it \<Longrightarrow> dest + n \<le> length (fst mc) \<Longrightarrow> well_formed d tbl dest (fst mc) \<Longrightarrow>
    decode_loop fuel (pb_dec_submessage noinit) s it fixed mc = Some (True, fixed', mc', s') \<Longrightarrow>
    well_formed d tbl dest (fst mc')"
proof (induction fuel arbitrary: i it mc s fixed)
  case 0
  then show ?case by (auto simp: decode_loop.simps [of 0] split: if_splits)
next
  case (Suc fuel)
  note unfold = Suc.prems(4) [unfolded decode_loop.simps [of "Suc fuel"]]
  show ?case
  proof (cases "bytes_left s = 0")
    case True
    then show ?thesis using Suc.prems by (simp add: decode_loop.simps [of "Suc fuel"])
  next
    case left: False
    obtain r s1 eof where tag: "pb_decode_tag s = (r, s1, eof)" by (cases "pb_decode_tag s") auto
    show ?thesis
    proof (cases r)
      case None
      then show ?thesis using unfold left tag Suc.prems(3) by simp
    next
      case (Some wt_tag)
      obtain wt tg where r: "r = Some (wt, tg)" using Some by (cases wt_tag) auto
      note unfold1 = unfold [unfolded tag r, simplified left]
      show ?thesis
      proof (cases "\<exists>k < length tbl. f_tag (tbl ! k) = tg")
        case False
        then obtain it' where find: "pb_field_iter_find it tg = (False, it')" "iter_at tbl dest i it'"
          using iter_find_not_found [OF table_fits_tags [OF tbl(1)] Suc.prems(1)] by blast
        from unfold1 find(1) obtain s2 where "decode_loop fuel (pb_dec_submessage noinit) s2 it' fixed mc = Some (True, fixed', mc', s')"
          by (auto split: prod.splits option.splits)
        then show ?thesis using Suc.IH [OF find(2) Suc.prems(2,3)] by blast
      next
        case True
        then obtain k it' where k: "k < length tbl" "f_tag (tbl ! k) = tg"
          and find: "pb_field_iter_find it tg = (True, it')" "iter_at tbl dest k it'"
          using iter_find_found [OF table_fits_tags [OF tbl(1)] Suc.prems(1)] by blast
        note e = decode_singular(1) [OF find(2) plain_table_nth(3) [OF tbl(2) k(1)], of fixed mc]
        obtain mc1 s2 where dec: "decode_field (pb_dec_submessage noinit) s1 wt it' mc = (True, mc1, s2)"
          and more: "decode_loop fuel (pb_dec_submessage noinit) s2 it' fixed mc1 = Some (True, fixed', mc', s')"
          using unfold1 find(1) e by (auto split: prod.splits if_splits)
        have "well_formed d tbl dest (fst mc1) \<and> length (fst mc1) = length (fst mc)"
          using decode_field_wf [OF tbl find(2) sub noinit Suc.prems(2,3), of s1 wt "snd mc" mc1 s2] dec by simp
        then show ?thesis using Suc.IH [OF find(2) _ _ more] Suc.prems(2) by simp
      qed
    qed
  qed
qed

lemma noinit_keeps_wf: "keeps_wf d (pb_decode_noinit stack)"
proof (induction stack arbitrary: d)
  case 0
  then show ?case by (simp add: keeps_wf_def)
next
  case (Suc stack)
  show ?case
    unfolding keeps_wf_def
  proof (intro allI impI)
    fix s tbl n dest m m' s'
    assume tbl: "table_fits d tbl n" "plain_table d tbl" and room: "dest + n \<le> length m"
      and was: "well_formed d tbl dest m" and run: "pb_decode_noinit (Suc stack) s tbl dest m = (True, m', s')"
    have ne: "tbl \<noteq> []" using table_fits_own [OF tbl(1)] by (simp add: own_fits_def)
    from run obtain fixed c s1 where
      l: "decode_loop (bytes_left s) (pb_dec_submessage (pb_decode_noinit stack)) s (snd (pb_field_iter_begin tbl dest))
          None (m, 0) = Some (True, fixed, (m', c), s1)"
      by (auto simp: Let_def split: option.splits prod.splits if_splits)
    from decode_loop_wf [OF tbl dec_submessage.field_decoder_axioms Suc.IH begin_iter_at [OF ne] _ _ l] room was
    show "well_formed d tbl dest m'" by simp
  qed
qed

lemma pb_decode_wf:
  assumes "table_fits d tbl n" and "plain_table d tbl" and "dest + n \<le> length m"
    and "pb_decode stack s tbl dest m = (True, m', s')"
  shows "well_formed d tbl dest m'"
proof -
  let ?m = "pb_message_set_to_defaults tbl dest m"
  have "dest + n \<le> length ?m"
    using same_outside_length [OF defaults_within(1) [OF assms(1,3)]] assms(3) by simp
  with keeps_wfD [OF noinit_keeps_wf assms(1,2) _ defaults_wf [OF assms(1-3)]] assms(4) show ?thesis
    unfolding pb_decode_def Let_def by blast
qed

text \<open>
  C21: Whatever bytes it accepts, \<open>pb_decode\<close> leaves a well-formed structure: every string ends with a
  zero inside its member, and the size of every byte array is one that its member can hold; in the
  submessages too.
\<close>

theorem pb_decode_well_formed:
  assumes "table_fits d tbl n" and "plain_table d tbl" and "dest + n \<le> length m"
    and "pb_decode stack s tbl dest m = (True, m', s')"
  shows "well_formed d tbl dest m'"
  by (rule pb_decode_wf [OF assms])

section \<open>The tables of the program\<close>

lemma udecimal_table_plain: "plain_table 0 ledger_swap_UDecimal_fields"
  by (simp add: plain_table_def plain_field.simps [of 0] plain_def table_defs)

lemma swap_table_plain: "plain_table 0 ledger_swap_NewTransactionResponse_fields"
  by (simp add: plain_table_def plain_field.simps [of 0] plain_def table_defs)

lemma fund_table_plain: "plain_table 0 ledger_swap_NewFundResponse_fields"
  by (simp add: plain_table_def plain_field.simps [of 0] plain_def table_defs)

lemma sell_table_plain: "plain_table 1 ledger_swap_NewSellResponse_fields"
  using udecimal_table_plain
  by (simp add: plain_table_def plain_field.simps [of "Suc 0"] plain_def
      ledger_swap_NewSellResponse_fields_def SINGULAR_STATIC_def sub_table_def)

definition sample_amount :: pb_istream where
  "sample_amount = pb_istream_from_buffer (enc_message [(1, V_BYTES [0x01, 0x2C]), (2, V_UINT 2)]) 6"

lemma pb_decode_well_formed_witness:
  "let r = pb_decode 1 sample_amount ledger_swap_UDecimal_fields 0 (replicate 24 0xFF)
   in fst r \<and> well_formed 0 ledger_swap_UDecimal_fields 0 (fst (snd r))"
proof -
  let ?es = "[(1, V_BYTES [0x01, 0x2C]), (2, V_UINT 2)]"
  let ?r = "pb_decode 1 sample_amount ledger_swap_UDecimal_fields 0 (replicate 24 0xFF)"
  have enc: "enc_message ?es = [0x0A, 2, 0x01, 0x2C, 0x10, 2]"
    by (simp add: enc_tag_def enc_varint.simps wire_type_defs)
  have fits: "fits_message ledger_swap_UDecimal_fields ?es"
    by (simp add: table_defs singular_def)
  have s: "stream_ok sample_amount" "pending sample_amount = enc_message ?es"
    unfolding sample_amount_def enc by (simp_all add: stream_ok_def pending_def pb_istream_from_buffer_def)
  have "fst ?r"
    using pb_decode_enc [OF udecimal_table_fits _ _ fits _ s, of 1 0 "replicate 24 0xFF"] unfolding enc by simp
  then have "?r = (True, fst (snd ?r), snd (snd ?r))" by (metis prod.collapse)
  from pb_decode_well_formed [OF udecimal_table_fits udecimal_table_plain _ this] \<open>fst ?r\<close> show ?thesis
    by (simp add: Let_def)
qed

end
