(* ===== verification/Pb_Delimited.thy ===== *)
theory Pb_Delimited
  imports Pb_Roundtrip
begin

text \<open>
  The other entry points of the decoder (\<^verbatim>\<open>src/pb_decode.c\<close>): messages with their length in front, and
  the one that is kept for older programs. They are what \<open>pb_dec_submessage\<close> does for a single
  submessage, so that its contract and its round trip hold for them.
\<close>

definition pb_decode_delimited_noinit ::
    "nat \<Rightarrow> pb_istream \<Rightarrow> pb_field list \<Rightarrow> nat \<Rightarrow> mem \<Rightarrow> bool \<times> mem \<times> pb_istream" where
  "pb_decode_delimited_noinit stack stream tbl dest m =
     (case pb_make_string_substream stream of
        (None, stream) \<Rightarrow> (False, m, stream)
      | (Some substream, stream) \<Rightarrow>
          let (status, m, substream) = pb_decode_noinit stack substream tbl dest m;
              (ok, stream) = pb_close_string_substream stream substream
          in (if \<not> ok then False else status, m, stream))"

definition pb_decode_delimited ::
    "nat \<Rightarrow> pb_istream \<Rightarrow> pb_field list \<Rightarrow> nat \<Rightarrow> mem \<Rightarrow> bool \<times> mem \<times> pb_istream" where
  "pb_decode_delimited stack stream tbl dest m =
     (case pb_make_string_substream stream of
        (None, stream) \<Rightarrow> (False, m, stream)
      | (Some substream, stream) \<Rightarrow>
          let (status, m, substream) = pb_decode stack substream tbl dest m;
              (ok, stream) = pb_close_string_substream stream substream
          in (if \<not> ok then False else status, m, stream))"

definition pb_decode_nullterminated ::
    "nat \<Rightarrow> pb_istream \<Rightarrow> pb_field list \<Rightarrow> nat \<Rightarrow> mem \<Rightarrow> bool \<times> mem \<times> pb_istream" where
  "pb_decode_nullterminated stack stream tbl dest m = pb_decode stack stream tbl dest m"

section \<open>As a submessage\<close>

lemma delimited_submessage:
  assumes "f_ptr f = PTR_FIELDS tbl" and "f_htype f \<noteq> HTYPE_REPEATED"
  shows "pb_decode_delimited stack s tbl dest m = pb_dec_submessage (pb_decode stack) s f dest m"
    and "pb_decode_delimited_noinit stack s tbl dest m = pb_dec_submessage (pb_decode_noinit stack) s f dest m"
  using assms
  by (simp_all add: pb_decode_delimited_def pb_decode_delimited_noinit_def pb_dec_submessage_def
      split: prod.split option.split)

text \<open>A field that holds the message.\<close>

definition message_field :: "pb_field list \<Rightarrow> nat \<Rightarrow> pb_field" where
  "message_field tbl n = SINGULAR_STATIC 1 LTYPE_SUBMESSAGE 0 n (PTR_FIELDS tbl)"

lemma message_field_facts [simp]:
  "f_ptr (message_field tbl n) = PTR_FIELDS tbl" "f_htype (message_field tbl n) \<noteq> HTYPE_REPEATED"
  "data_size (message_field tbl n) = n" "singular (message_field tbl n)"
  by (simp_all add: message_field_def SINGULAR_STATIC_def singular_def)

interpretation delimited: field_decoder "pb_dec_submessage (pb_decode stack)" sub_fits for stack
  by (rule pb_dec_submessage_decoder) (rule pb_decode_within)

lemma delimited_within:
  assumes "table_fits d tbl n" and "dest + n \<le> length m"
  shows "decodes_within dest n m s (pb_decode_delimited stack s tbl dest m)"
    and "decodes_within dest n m s (pb_decode_delimited_noinit stack s tbl dest m)"
proof -
  let ?f = "message_field tbl n"
  have "sub_fits ?f" using assms(1) by (auto simp: sub_fits_def)
  from delimited.decodes [OF this] dec_submessage.decodes [OF this] assms(2)
  show "decodes_within dest n m s (pb_decode_delimited stack s tbl dest m)"
    and "decodes_within dest n m s (pb_decode_delimited_noinit stack s tbl dest m)"
    by (simp_all add: delimited_submessage [of ?f])
qed

text \<open>
  A message is read back from behind its length: whatever follows it in the stream,
  \<open>pb_decode_delimited\<close> stores the defaults and over them exactly the values that were encoded, and
  leaves the stream at the first byte after the message.
\<close>

theorem pb_decode_delimited_roundtrip:
  assumes "table_fits d tbl n" and "d < stack" and "dest + n \<le> length m" and "fits_message tbl es"
    and "length (enc_value (V_MESSAGE es)) < 2 ^ 32" and "stream_ok s"
    and "pending s = enc_varint (length (enc_message es)) @ enc_message es @ rest"
  shows "pb_decode_delimited stack s tbl dest m =
    (True, store_message tbl dest es (pb_message_set_to_defaults tbl dest m),
     after_bytes (enc_varint (length (enc_message es)) @ enc_message es) s)"
proof -
  have len: "length (enc_message es) < 2 ^ 32" using assms(5) by simp
  have "pb_dec_submessage (pb_decode stack) s (message_field tbl n) dest m =
    (True, store_message tbl dest es (pb_message_set_to_defaults tbl dest m), after_bytes (enc_value (V_MESSAGE es)) s)"
    using pb_decode_enc [OF assms(1-4) len] assms(7)
    by (intro dec_submessage_enc [OF _ _ assms(5,6)]) simp_all
  then show ?thesis by (simp add: delimited_submessage [of "message_field tbl n"])
qed

theorem pb_decode_delimited_roundtrip_witness:
  "pb_decode_delimited 1 (pb_istream_from_buffer [6, 0x0A, 2, 0x01, 0x2C, 0x10, 2, 0x55] 8) ledger_swap_UDecimal_fields 0
       (replicate 24 0xFF) =
     (True, [2, 0x01, 0x2C, 0, 0, 0, 0, 0, 0, 0, 0, 0, 0, 0, 0, 0, 0, 0xFF, 0xFF, 0xFF, 2, 0, 0, 0],
      \<lparr>pb_state = [0x55], bytes_left = 1, errmsg = None\<rparr>)"
proof -
  let ?es = "[(1, V_BYTES [0x01, 0x2C]), (2, V_UINT 2)]"
  let ?s = "pb_istream_from_buffer [6, 0x0A, 2, 0x01, 0x2C, 0x10, 2, 0x55] 8"
  have enc: "enc_message ?es = [0x0A, 2, 0x01, 0x2C, 0x10, 2]" "enc_varint (length [0x0A :: u8, 2, 0x01, 0x2C, 0x10, 2]) = [6]"
    by (simp_all add: enc_tag_def enc_varint.simps wire_type_defs)
  have fits: "fits_message ledger_swap_UDecimal_fields ?es"
    by (simp add: table_defs singular_def)
  have s: "stream_ok ?s" "pending ?s = enc_varint (length (enc_message ?es)) @ enc_message ?es @ [0x55]"
    unfolding enc by (simp_all add: stream_ok_def pending_def pb_istream_from_buffer_def enc)
  have len: "length (enc_value (V_MESSAGE ?es)) < 2 ^ 32"
    by (simp only: enc_value.simps enc) (simp add: enc)
  have "pb_message_set_to_defaults ledger_swap_UDecimal_fields 0 (replicate 24 0xFF) =
      replicate 17 0 @ replicate 3 0xFF @ replicate 4 0"
    by code_simp
  then have "store_message ledger_swap_UDecimal_fields 0 ?es
      (pb_message_set_to_defaults ledger_swap_UDecimal_fields 0 (replicate 24 0xFF)) =
      [2, 0x01, 0x2C, 0, 0, 0, 0, 0, 0, 0, 0, 0, 0, 0, 0, 0, 0, 0xFF, 0xFF, 0xFF, 2, 0, 0, 0]"
    by code_simp
  then show ?thesis
    using pb_decode_delimited_roundtrip [OF udecimal_table_fits, of 1 0 "replicate 24 0xFF", OF _ _ fits len s]
    unfolding enc by (simp add: after_bytes_def pb_istream_from_buffer_def enc)
qed

end
