(* ===== verification/Pb_Macros.thy ===== *)
theory Pb_Macros
  imports Tx_Layout
begin

text \<open>
  The macros of \<^verbatim>\<open>src/pb.h\<close> that fill the descriptor tables in from the declarations of the structures
  (\<^verbatim>\<open>src/proto/protocol.pb.h\<close>), and the layout of these structures by the rules of the compiler for the
  device: every member at the next offset that its alignment allows. The tables of \<open>Tx_Layout\<close>, with
  their numbers, are what the macros expand to.
\<close>

section \<open>Structures\<close>

text \<open>A type of C as far as its size and alignment go; a scalar is aligned to its size, a pointer has 32 bits.\<close>

datatype c_type =
    Scalar nat
  | Pointer c_type
  | Array c_type nat
  | Struct "(string \<times> c_type) list"
  | C_union "(string \<times> c_type) list"

type_synonym c_members = "(string \<times> c_type) list"

fun alignof :: "c_type \<Rightarrow> nat" and members_align :: "c_members \<Rightarrow> nat" where
  "alignof (Scalar n) = n"
| "alignof (Pointer t) = 4"
| "alignof (Array t n) = alignof t"
| "alignof (Struct ms) = members_align ms"
| "alignof (C_union ms) = members_align ms"
| "members_align [] = 1"
| "members_align ((x, t) # ms) = max (alignof t) (members_align ms)"

definition align_up :: "nat \<Rightarrow> nat \<Rightarrow> nat" where
  "align_up k off = (off + k - 1) div k * k"

fun sizeof :: "c_type \<Rightarrow> nat" and members_end :: "nat \<Rightarrow> c_members \<Rightarrow> nat" and largest :: "c_members \<Rightarrow> nat" where
  "sizeof (Scalar n) = n"
| "sizeof (Pointer t) = 4"
| "sizeof (Array t n) = n * sizeof t"
| "sizeof (Struct ms) = align_up (members_align ms) (members_end 0 ms)"
| "sizeof (C_union ms) = align_up (members_align ms) (largest ms)"
| "members_end off [] = off"
| "members_end off ((x, t) # ms) = members_end (align_up (alignof t) off + sizeof t) ms"
| "largest [] = 0"
| "largest ((x, t) # ms) = max (sizeof t) (largest ms)"

fun offset_after :: "nat \<Rightarrow> c_members \<Rightarrow> string \<Rightarrow> nat" where
  "offset_after off [] m = off"
| "offset_after off ((x, t) # ms) m =
     (let at = align_up (alignof t) off in if x = m then at else offset_after (at + sizeof t) ms m)"

definition offsetof :: "c_members \<Rightarrow> string \<Rightarrow> nat" where
  "offsetof st m = offset_after 0 st m"

definition member_type :: "c_members \<Rightarrow> string \<Rightarrow> c_type" where
  "member_type st m = (case map_of st m of Some t \<Rightarrow> t | None \<Rightarrow> Struct [])"

fun element_type :: "c_type \<Rightarrow> c_type" where
  "element_type (Array t n) = t"
| "element_type (Pointer t) = t"
| "element_type t = t"

section \<open>The macros\<close>

text \<open>The members of a descriptor are 8 bits wide.\<close>

definition pb_size :: "int \<Rightarrow> nat" where "pb_size x = nat (x mod 256)"

definition pb_ssize :: "int \<Rightarrow> int" where "pb_ssize x = (x + 128) mod 256 - 128"

definition pb_membersize :: "c_members \<Rightarrow> string \<Rightarrow> nat" where
  "pb_membersize st m = sizeof (member_type st m)"

text \<open>\<open>pb_membersize(st, m[0])\<close>\<close>

definition pb_elementsize :: "c_members \<Rightarrow> string \<Rightarrow> nat" where
  "pb_elementsize st m = sizeof (element_type (member_type st m))"

definition pb_arraysize :: "c_members \<Rightarrow> string \<Rightarrow> nat" where
  "pb_arraysize st m = pb_membersize st m div pb_elementsize st m"

definition pb_delta :: "c_members \<Rightarrow> string \<Rightarrow> string \<Rightarrow> int" where
  "pb_delta st m1 m2 = int (offsetof st m1) - int (offsetof st m2)"

definition PB_DATAOFFSET_FIRST :: "c_members \<Rightarrow> string \<Rightarrow> string \<Rightarrow> int" where
  "PB_DATAOFFSET_FIRST st m1 m2 = int (offsetof st m1)"

definition PB_DATAOFFSET_OTHER :: "c_members \<Rightarrow> string \<Rightarrow> string \<Rightarrow> int" where
  "PB_DATAOFFSET_OTHER st m1 m2 = int (offsetof st m1) - int (offsetof st m2) - int (pb_membersize st m2)"

definition PB_DATAOFFSET_UNION :: "c_members \<Rightarrow> string \<Rightarrow> string \<Rightarrow> int" where
  "PB_DATAOFFSET_UNION st m1 m2 = int PB_SIZE_MAX"

definition PB_DATAOFFSET_CHOOSE :: "c_members \<Rightarrow> string \<Rightarrow> string \<Rightarrow> int" where
  "PB_DATAOFFSET_CHOOSE st m1 m2 =
     (if offsetof st m1 = offsetof st m2 then PB_DATAOFFSET_FIRST st m1 m2 else PB_DATAOFFSET_OTHER st m1 m2)"

text \<open>An initializer of a descriptor, each number cut to its member.\<close>

definition field_init ::
    "nat \<Rightarrow> pb_atype \<Rightarrow> pb_htype \<Rightarrow> pb_ltype \<Rightarrow> int \<Rightarrow> int \<Rightarrow> nat \<Rightarrow> nat \<Rightarrow> pb_ptr \<Rightarrow> pb_field" where
  "field_init tag atype htype ltype fd delta sz entries ptr =
     PB_FIELD (pb_size (int tag)) ltype htype atype (pb_size fd) (pb_ssize delta) (pb_size (int sz)) (pb_size (int entries)) ptr"

text \<open>The rules and the allocations; the names of the macros are made from them.\<close>

datatype pb_rules = REQUIRED | OPTIONAL | SINGULAR | REPEATED | OPTEXT

datatype pb_allocation = STATIC | POINTER

definition has_name :: "string \<Rightarrow> string" where "has_name m = ''has_'' @ m"
definition count_name :: "string \<Rightarrow> string" where "count_name m = m @ ''_count''"
definition which_name :: "string \<Rightarrow> string" where "which_name u = ''which_'' @ u"

fun PB_OPTEXT :: "pb_allocation \<Rightarrow> nat \<Rightarrow> c_members \<Rightarrow> string \<Rightarrow> int \<Rightarrow> pb_ltype \<Rightarrow> pb_ptr \<Rightarrow> pb_field" where
  "PB_OPTEXT STATIC tag st m fd ltype ptr =
     field_init tag ATYPE_STATIC HTYPE_REQUIRED ltype 0 0 (pb_membersize st m) 0 ptr"
| "PB_OPTEXT POINTER tag st m fd ltype ptr =
     field_init tag ATYPE_POINTER HTYPE_OPTIONAL ltype fd 0 (pb_elementsize st m) 0 ptr"

fun PB_RULES_ALLOCATION ::
    "pb_rules \<Rightarrow> pb_allocation \<Rightarrow> nat \<Rightarrow> c_members \<Rightarrow> string \<Rightarrow> int \<Rightarrow> pb_ltype \<Rightarrow> pb_ptr \<Rightarrow> pb_field" where
  "PB_RULES_ALLOCATION REQUIRED STATIC tag st m fd ltype ptr =
     field_init tag ATYPE_STATIC HTYPE_REQUIRED ltype fd 0 (pb_membersize st m) 0 ptr"
| "PB_RULES_ALLOCATION OPTIONAL STATIC tag st m fd ltype ptr =
     field_init tag ATYPE_STATIC HTYPE_OPTIONAL ltype fd (pb_delta st (has_name m) m) (pb_membersize st m) 0 ptr"
| "PB_RULES_ALLOCATION SINGULAR STATIC tag st m fd ltype ptr =
     field_init tag ATYPE_STATIC HTYPE_OPTIONAL ltype fd 0 (pb_membersize st m) 0 ptr"
| "PB_RULES_ALLOCATION REPEATED STATIC tag st m fd ltype ptr =
     field_init tag ATYPE_STATIC HTYPE_REPEATED ltype fd (pb_delta st (count_name m) m) (pb_elementsize st m)
       (pb_arraysize st m) ptr"
| "PB_RULES_ALLOCATION REQUIRED POINTER tag st m fd ltype ptr =
     field_init tag ATYPE_POINTER HTYPE_REQUIRED ltype fd 0 (pb_elementsize st m) 0 ptr"
| "PB_RULES_ALLOCATION OPTIONAL POINTER tag st m fd ltype ptr =
     field_init tag ATYPE_POINTER HTYPE_OPTIONAL ltype fd 0 (pb_elementsize st m) 0 ptr"
| "PB_RULES_ALLOCATION SINGULAR POINTER tag st m fd ltype ptr =
     field_init tag ATYPE_POINTER HTYPE_OPTIONAL ltype fd 0 (pb_elementsize st m) 0 ptr"
| "PB_RULES_ALLOCATION REPEATED POINTER tag st m fd ltype ptr =
     field_init tag ATYPE_POINTER HTYPE_REPEATED ltype fd (pb_delta st (count_name m) m) (pb_elementsize st m) 0 ptr"
| "PB_RULES_ALLOCATION OPTEXT allocation tag st m fd ltype ptr = PB_OPTEXT allocation tag st m fd ltype ptr"

text \<open>The types of protocol buffers, and the descriptor types they are mapped to.\<close>

datatype proto_type =
    BOOL | BYTES | DOUBLE | ENUM | UENUM | FIXED32 | FIXED64 | FLOAT | INT32 | INT64 | MESSAGE
  | SFIXED32 | SFIXED64 | SINT32 | SINT64 | STRING | UINT32 | UINT64 | FIXED_LENGTH_BYTES

fun PB_LTYPE_MAP :: "proto_type \<Rightarrow> pb_ltype" where
  "PB_LTYPE_MAP BOOL = LTYPE_BOOL"
| "PB_LTYPE_MAP BYTES = LTYPE_BYTES"
| "PB_LTYPE_MAP DOUBLE = LTYPE_FIXED64"
| "PB_LTYPE_MAP ENUM = LTYPE_VARINT"
| "PB_LTYPE_MAP UENUM = LTYPE_UVARINT"
| "PB_LTYPE_MAP FIXED32 = LTYPE_FIXED32"
| "PB_LTYPE_MAP FIXED64 = LTYPE_FIXED64"
| "PB_LTYPE_MAP FLOAT = LTYPE_FIXED32"
| "PB_LTYPE_MAP INT32 = LTYPE_VARINT"
| "PB_LTYPE_MAP INT64 = LTYPE_VARINT"
| "PB_LTYPE_MAP MESSAGE = LTYPE_SUBMESSAGE"
| "PB_LTYPE_MAP SFIXED32 = LTYPE_FIXED32"
| "PB_LTYPE_MAP SFIXED64 = LTYPE_FIXED64"
| "PB_LTYPE_MAP SINT32 = LTYPE_SVARINT"
| "PB_LTYPE_MAP SINT64 = LTYPE_SVARINT"
| "PB_LTYPE_MAP STRING = LTYPE_STRING"
| "PB_LTYPE_MAP UINT32 = LTYPE_UVARINT"
| "PB_LTYPE_MAP UINT64 = LTYPE_UVARINT"
| "PB_LTYPE_MAP FIXED_LENGTH_BYTES = LTYPE_FIXED_LENGTH_BYTES"

datatype pb_placement = FIRST | OTHER | UNION | CHOOSE

fun PB_DATAOFFSET :: "pb_placement \<Rightarrow> c_members \<Rightarrow> string \<Rightarrow> string \<Rightarrow> int" where
  "PB_DATAOFFSET FIRST = PB_DATAOFFSET_FIRST"
| "PB_DATAOFFSET OTHER = PB_DATAOFFSET_OTHER"
| "PB_DATAOFFSET UNION = PB_DATAOFFSET_UNION"
| "PB_DATAOFFSET CHOOSE = PB_DATAOFFSET_CHOOSE"

definition PB_FIELD_MACRO ::
    "nat \<Rightarrow> proto_type \<Rightarrow> pb_rules \<Rightarrow> pb_allocation \<Rightarrow> pb_placement \<Rightarrow> c_members \<Rightarrow> string \<Rightarrow> string \<Rightarrow> pb_ptr \<Rightarrow> pb_field" where
  "PB_FIELD_MACRO tag type rules allocation placement message field prevfield ptr =
     PB_RULES_ALLOCATION rules allocation tag message field (PB_DATAOFFSET placement message field prevfield)
       (PB_LTYPE_MAP type) ptr"

definition PB_REPEATED_FIXED_COUNT ::
    "nat \<Rightarrow> proto_type \<Rightarrow> pb_placement \<Rightarrow> c_members \<Rightarrow> string \<Rightarrow> string \<Rightarrow> pb_ptr \<Rightarrow> pb_field" where
  "PB_REPEATED_FIXED_COUNT tag type placement message field prevfield ptr =
     field_init tag ATYPE_STATIC HTYPE_REPEATED (PB_LTYPE_MAP type) (PB_DATAOFFSET placement message field prevfield) 0
       (pb_elementsize message field) (pb_arraysize message field) ptr"

text \<open>A member of the union \<open>u\<close> is at the offset of the union.\<close>

definition union_members :: "c_members \<Rightarrow> string \<Rightarrow> c_members" where
  "union_members st u = (case member_type st u of C_union ms \<Rightarrow> ms | t \<Rightarrow> [])"

fun PB_ONEOF :: "pb_allocation \<Rightarrow> string \<Rightarrow> nat \<Rightarrow> c_members \<Rightarrow> string \<Rightarrow> int \<Rightarrow> pb_ltype \<Rightarrow> pb_ptr \<Rightarrow> pb_field" where
  "PB_ONEOF STATIC u tag st m fd ltype ptr =
     field_init tag ATYPE_STATIC HTYPE_ONEOF ltype fd (pb_delta st (which_name u) u)
       (pb_membersize (union_members st u) m) 0 ptr"
| "PB_ONEOF POINTER u tag st m fd ltype ptr =
     field_init tag ATYPE_POINTER HTYPE_ONEOF ltype fd (pb_delta st (which_name u) u)
       (pb_elementsize (union_members st u) m) 0 ptr"

definition PB_ONEOF_FIELD ::
    "string \<Rightarrow> nat \<Rightarrow> proto_type \<Rightarrow> pb_allocation \<Rightarrow> pb_placement \<Rightarrow> c_members \<Rightarrow> string \<Rightarrow> string \<Rightarrow> pb_ptr \<Rightarrow> pb_field" where
  "PB_ONEOF_FIELD union_name tag type allocation placement message field prevfield ptr =
     PB_ONEOF allocation union_name tag message field (PB_DATAOFFSET placement message union_name prevfield)
       (PB_LTYPE_MAP type) ptr"

section \<open>The declarations of the program\<close>

definition chars :: "nat \<Rightarrow> c_type" where "chars n = Array (Scalar 1) n"

definition PB_BYTES_ARRAY_T :: "nat \<Rightarrow> c_type" where
  "PB_BYTES_ARRAY_T n = Struct [(''size'', Scalar 1), (''bytes'', Array (Scalar 1) n)]"

definition ledger_swap_NewFundResponse :: c_members where
  "ledger_swap_NewFundResponse =
     [(''user_id'', chars 50), (''account_name'', chars 50), (''in_currency'', chars 10),
      (''in_amount'', PB_BYTES_ARRAY_T 16), (''in_address'', chars 151),
      (''device_transaction_id'', PB_BYTES_ARRAY_T 32), (''in_extra_id'', chars 20)]"

definition ledger_swap_NewTransactionResponse :: c_members where
  "ledger_swap_NewTransactionResponse =
     [(''payin_address'', chars 151), (''payin_extra_id'', chars 20), (''refund_address'', chars 151),
      (''refund_extra_id'', chars 20), (''payout_address'', chars 151), (''payout_extra_id'', chars 20),
      (''currency_from'', chars 10), (''currency_to'', chars 10), (''amount_to_provider'', PB_BYTES_ARRAY_T 16),
      (''amount_to_wallet'', PB_BYTES_ARRAY_T 16), (''device_transaction_id'', chars 11),
      (''device_transaction_id_ng'', PB_BYTES_ARRAY_T 32), (''payin_extra_data'', PB_BYTES_ARRAY_T 33)]"

definition ledger_swap_UDecimal :: c_members where
  "ledger_swap_UDecimal = [(''coefficient'', PB_BYTES_ARRAY_T 16), (''exponent'', Scalar 4)]"

definition ledger_swap_NewSellResponse :: c_members where
  "ledger_swap_NewSellResponse =
     [(''trader_email'', chars 50), (''in_currency'', chars 10), (''in_amount'', PB_BYTES_ARRAY_T 16),
      (''in_address'', chars 151), (''out_currency'', chars 10), (''out_amount'', Struct ledger_swap_UDecimal),
      (''device_transaction_id'', PB_BYTES_ARRAY_T 32), (''in_extra_id'', chars 20)]"

section \<open>The tables\<close>

text \<open>
  The lines of a table: tag, type and pointer of each member, in the order of the declaration. The
  first is placed with \<open>FIRST\<close>, every other one behind its predecessor.
\<close>

fun described :: "c_members \<Rightarrow> pb_placement \<Rightarrow> string \<Rightarrow> (nat \<times> proto_type \<times> pb_ptr) list \<Rightarrow> string list \<Rightarrow> pb_field list" where
  "described st place prev ((tag, type, ptr) # ls) (m # ms) =
     PB_FIELD_MACRO tag type SINGULAR STATIC place st m prev ptr # described st OTHER m ls ms"
| "described st place prev ls ms = []"

definition table_of :: "c_members \<Rightarrow> (nat \<times> proto_type \<times> pb_ptr) list \<Rightarrow> pb_field list" where
  "table_of st ls = (case st of [] \<Rightarrow> [] | (m, t) # ms \<Rightarrow> described st FIRST m ls (map fst st))"

definition text_line :: "nat \<Rightarrow> nat \<times> proto_type \<times> pb_ptr" where "text_line tag = (tag, STRING, PTR_NULL)"
definition bytes_line :: "nat \<Rightarrow> nat \<times> proto_type \<times> pb_ptr" where "bytes_line tag = (tag, BYTES, PTR_NULL)"

definition swap_lines :: "(nat \<times> proto_type \<times> pb_ptr) list" where
  "swap_lines = map text_line [1, 2, 3, 4, 5, 6, 7, 8] @ [bytes_line 9, bytes_line 10, text_line 11, bytes_line 12, bytes_line 13]"

definition udecimal_lines :: "(nat \<times> proto_type \<times> pb_ptr) list" where
  "udecimal_lines = [bytes_line 1, (2, UINT32, PTR_NULL)]"

definition sell_lines :: "(nat \<times> proto_type \<times> pb_ptr) list" where
  "sell_lines = [text_line 1, text_line 2, bytes_line 3, text_line 4, text_line 5,
     (6, MESSAGE, PTR_FIELDS ledger_swap_UDecimal_fields), bytes_line 7, text_line 8]"

definition fund_lines :: "(nat \<times> proto_type \<times> pb_ptr) list" where
  "fund_lines = [text_line 1, text_line 2, text_line 3, bytes_line 4, text_line 5, bytes_line 6, text_line 7]"

lemmas declaration_defs = ledger_swap_NewTransactionResponse_def ledger_swap_UDecimal_def
  ledger_swap_NewSellResponse_def ledger_swap_NewFundResponse_def chars_def PB_BYTES_ARRAY_T_def

lemmas line_defs = swap_lines_def udecimal_lines_def sell_lines_def fund_lines_def text_line_def bytes_line_def

lemmas macro_defs = table_of_def PB_FIELD_MACRO_def field_init_def PB_DATAOFFSET_FIRST_def PB_DATAOFFSET_OTHER_def
  pb_membersize_def member_type_def offsetof_def align_up_def pb_size_def pb_ssize_def

lemma tables_expanded:
  "table_of ledger_swap_NewTransactionResponse swap_lines = ledger_swap_NewTransactionResponse_fields"
  "table_of ledger_swap_UDecimal udecimal_lines = ledger_swap_UDecimal_fields"
  "table_of ledger_swap_NewSellResponse sell_lines = ledger_swap_NewSellResponse_fields"
  "table_of ledger_swap_NewFundResponse fund_lines = ledger_swap_NewFundResponse_fields"
  by (simp_all add: declaration_defs line_defs macro_defs table_defs)

lemma structure_sizes:
  "sizeof (Struct ledger_swap_NewTransactionResponse) = sizeof_NewTransactionResponse"
  "sizeof (Struct ledger_swap_NewSellResponse) = sizeof_NewSellResponse"
  "sizeof (Struct ledger_swap_NewFundResponse) = sizeof_NewFundResponse"
  "sizeof (C_union [(''raw_transaction'', Array (Scalar 1) sizeof_raw_transaction),
     (''swap_transaction'', Struct ledger_swap_NewTransactionResponse),
     (''sell_transaction'', Struct ledger_swap_NewSellResponse),
     (''fund_transaction'', Struct ledger_swap_NewFundResponse)]) = sizeof_tx"
  by (simp_all add: declaration_defs layout_defs align_up_def)

text \<open>The static assertions of \<^verbatim>\<open>protocol.pb.c\<close>.\<close>

lemma descriptors_wide_enough: "pb_membersize ledger_swap_NewSellResponse ''out_amount'' < 256"
  by (simp add: declaration_defs macro_defs)

section \<open>The iterator finds the members\<close>

text \<open>A declaration whose members have descriptors: named apart, and small enough.\<close>

definition describable :: "c_members \<Rightarrow> bool" where
  "describable st \<longleftrightarrow>
     distinct (map fst st) \<and> list_all (\<lambda>(m, t). 0 < alignof t \<and> alignof t \<le> 256 \<and> sizeof t < 256) st"

lemma align_up_bounds: "0 < k \<Longrightarrow> n \<le> align_up k n \<and> align_up k n < n + k"
proof -
  assume k: "0 < k"
  have "(n + k - 1) div k * k + (n + k - 1) mod k = n + k - 1" by simp
  with mod_less_divisor [OF k, of "n + k - 1"] k show ?thesis unfolding align_up_def by linarith
qed

lemma offset_after_nth:
  assumes "distinct (map fst st)" and "Suc i < length st"
  shows "offset_after off st (fst (st ! Suc i)) =
    align_up (alignof (snd (st ! Suc i))) (offset_after off st (fst (st ! i)) + sizeof (snd (st ! i)))"
  using assms
proof (induction st arbitrary: off i)
  case (Cons mt st)
  obtain m t where mt: "mt = (m, t)" by fastforce
  have other: "m \<noteq> fst (st ! j)" if "j < length st" for j
    using Cons.prems(1) that mt nth_mem [of j st] by (auto simp: image_iff)
  show ?case
  proof (cases i)
    case 0
    obtain m' t' st' where st: "st = (m', t') # st'" using Cons.prems(2) by (cases st) auto
    with other [of 0] show ?thesis by (simp add: mt 0 Let_def)
  next
    case (Suc j)
    with Cons.prems have "j < length st" "Suc j < length st" "distinct (map fst st)" by simp_all
    with Cons.IH [of j] other show ?thesis by (simp add: mt Suc Let_def)
  qed
qed simp

lemma described_nth:
  "length ls = length ms \<Longrightarrow> i < length ms \<Longrightarrow>
   described st place prev ls ms ! i =
     (case ls ! i of (tag, type, ptr) \<Rightarrow>
        PB_FIELD_MACRO tag type SINGULAR STATIC (if i = 0 then place else OTHER) st (ms ! i)
          (if i = 0 then prev else ms ! (i - 1)) ptr)"
proof (induction st place prev ls ms arbitrary: i rule: described.induct)
  case (1 st place prev tag type ptr ls m ms)
  then show ?case by (cases i) (auto simp: nth_Cons split: prod.splits nat.splits)
qed auto

lemma length_described: "length ls = length ms \<Longrightarrow> length (described st place prev ls ms) = length ms"
  by (induction st place prev ls ms rule: described.induct) auto

lemma member_type_nth:
  assumes "distinct (map fst st)" and "i < length st"
  shows "member_type st (fst (st ! i)) = snd (st ! i)"
proof -
  have "map_of st (fst (st ! i)) = Some (snd (st ! i))"
    using assms by (intro map_of_is_SomeI) simp_all
  then show ?thesis by (simp add: member_type_def)
qed

lemma pb_size_small: "n < 256 \<Longrightarrow> pb_size (int n) = n"
  by (simp add: pb_size_def)

lemma table_entry:
  assumes "describable st" and "length ls = length st" and "i < length st"
  shows "table_of st ls ! i = (case ls ! i of (tag, type, ptr) \<Rightarrow>
    PB_FIELD (pb_size (int tag)) (PB_LTYPE_MAP type) HTYPE_OPTIONAL ATYPE_STATIC
      (if i = 0 then 0 else offsetof st (fst (st ! i)) - (offsetof st (fst (st ! (i - 1))) + sizeof (snd (st ! (i - 1)))))
      0 (sizeof (snd (st ! i))) 0 ptr)"
    and "0 < i \<Longrightarrow>
      offsetof st (fst (st ! (i - 1))) + sizeof (snd (st ! (i - 1))) \<le> offsetof st (fst (st ! i))"
    and "offsetof st (fst (st ! 0)) = 0" and "length (table_of st ls) = length st"
proof -
  obtain m t ms where st: "st = (m, t) # ms" using assms(3) by (cases st) auto
  have d: "distinct (map fst st)" using assms(1) by (simp add: describable_def)
  have ok: "0 < alignof (snd (st ! j))" "alignof (snd (st ! j)) \<le> 256" "sizeof (snd (st ! j)) < 256"
    if "j < length st" for j
    using assms(1) that by (simp_all add: describable_def list_all_length case_prod_unfold)
  have tbl: "table_of st ls = described st FIRST m ls (map fst st)" by (simp add: table_of_def st)
  have len: "length ls = length (map fst st)" using assms(2) by simp
  show first: "offsetof st (fst (st ! 0)) = 0"
    using ok(1) [of 0] by (simp add: st offsetof_def align_up_def Let_def)
  show "length (table_of st ls) = length st"
    using length_described [OF len, of st FIRST m] by (simp add: tbl)
  let ?gap = "offsetof st (fst (st ! i)) - (offsetof st (fst (st ! (i - 1))) + sizeof (snd (st ! (i - 1))))"
  have gap: "offsetof st (fst (st ! (i - 1))) + sizeof (snd (st ! (i - 1))) \<le> offsetof st (fst (st ! i)) \<and> ?gap < 256"
    if "0 < i"
  proof -
    obtain j where j: "i = Suc j" using \<open>0 < i\<close> by (cases i) auto
    from offset_after_nth [OF d, of j 0] align_up_bounds [OF ok(1) [OF assms(3)]] ok(2) [OF assms(3)] assms(3)
    show ?thesis by (simp add: j offsetof_def) (metis add.commute less_diff_conv2 order_less_le_trans)
  qed
  then show le: "0 < i \<Longrightarrow>
      offsetof st (fst (st ! (i - 1))) + sizeof (snd (st ! (i - 1))) \<le> offsetof st (fst (st ! i))" by blast
  have off: "pb_size (PB_DATAOFFSET (if i = 0 then FIRST else OTHER) st (fst (st ! i)) (if i = 0 then m else fst (st ! (i - 1))))
      = (if i = 0 then 0 else ?gap)"
  proof (cases "i = 0")
    case True
    then show ?thesis using first by (simp add: PB_DATAOFFSET_FIRST_def pb_size_def)
  next
    case False
    then have "0 < i" by simp
    have eq: "PB_DATAOFFSET_OTHER st (fst (st ! i)) (fst (st ! (i - 1))) = int ?gap"
      using gap [OF \<open>0 < i\<close>] member_type_nth [OF d, of "i - 1"] assms(3)
      by (simp add: PB_DATAOFFSET_OTHER_def pb_membersize_def of_nat_diff)
    have "pb_size (int ?gap) = ?gap" using gap [OF \<open>0 < i\<close>] by (intro pb_size_small) blast
    with False show ?thesis by (simp only: if_False PB_DATAOFFSET.simps eq)
  qed
  obtain tag type ptr where l: "ls ! i = (tag, type, ptr)" by (cases "ls ! i") auto
  have "table_of st ls ! i = PB_FIELD_MACRO tag type SINGULAR STATIC (if i = 0 then FIRST else OTHER) st (fst (st ! i))
      (if i = 0 then m else fst (st ! (i - 1))) ptr"
    using described_nth [OF len, of i st FIRST m] assms(3) l by (simp add: tbl)
  also have "\<dots> = PB_FIELD (pb_size (int tag)) (PB_LTYPE_MAP type) HTYPE_OPTIONAL ATYPE_STATIC (if i = 0 then 0 else ?gap)
      0 (sizeof (snd (st ! i))) 0 ptr"
    using member_type_nth [OF d assms(3)] ok(3) [OF assms(3)]
    by (simp only: PB_FIELD_MACRO_def PB_RULES_ALLOCATION.simps field_init_def off pb_membersize_def)
      (simp add: pb_size_small pb_ssize_def, simp add: pb_size_def)
  finally show "table_of st ls ! i = (case ls ! i of (tag, type, ptr) \<Rightarrow>
    PB_FIELD (pb_size (int tag)) (PB_LTYPE_MAP type) HTYPE_OPTIONAL ATYPE_STATIC (if i = 0 then 0 else ?gap)
      0 (sizeof (snd (st ! i))) 0 ptr)" by (simp add: l)
qed

text \<open>
  C40: The iterator finds the members that were declared: whatever the structure, if its members are
  named apart and fit the descriptors, the table that the macros make of it leads the iterator to every
  member where the compiler has put it, with the size it has.
\<close>

theorem tables_find_members:
  assumes "describable st" and "length ls = length st" and "i < length st"
  shows "field_data (table_of st ls) dest i = dest + offsetof st (fst (st ! i)) \<and>
    data_size (table_of st ls ! i) = sizeof (snd (st ! i))"
proof -
  note entry = table_entry [OF assms(1,2)]
  have "field_data (table_of st ls) dest i = dest + offsetof st (fst (st ! i))"
    using assms(3)
  proof (induction i)
    case 0
    then show ?case
      using entry(1,3,4) [OF 0] by (simp add: pb_field_iter_begin_def Let_def field_at_def split: prod.split)
  next
    case (Suc j)
    then have j: "j < length st" by simp
    show ?case
      using Suc.IH [OF j] entry(1) [OF j] entry(1,2) [OF Suc.prems] entry(3,4) [OF j] Suc.prems
      by (auto simp: Let_def field_at_def split: prod.splits if_splits)
  qed
  moreover have "data_size (table_of st ls ! i) = sizeof (snd (st ! i))"
    using entry(1) [OF assms(3)] by (simp split: prod.split)
  ultimately show ?thesis by blast
qed

lemma tables_find_members_witness:
  "field_data ledger_swap_NewSellResponse_fields 1000 5 = 1240 \<and>
   data_size (ledger_swap_NewSellResponse_fields ! 5) = 24"
proof -
  have "describable ledger_swap_NewSellResponse" "length sell_lines = length ledger_swap_NewSellResponse"
    "5 < length ledger_swap_NewSellResponse"
    "offsetof ledger_swap_NewSellResponse (fst (ledger_swap_NewSellResponse ! 5)) = 240"
    "sizeof (snd (ledger_swap_NewSellResponse ! 5)) = 24"
    by (simp_all add: describable_def declaration_defs line_defs offsetof_def align_up_def)
  with tables_find_members [of ledger_swap_NewSellResponse sell_lines 5 1000] show ?thesis
    by (simp add: tables_expanded)
qed

end
