(* ===== verification/Pb_Callback.thy ===== *)
theory Pb_Callback
  imports Pb_Decode
begin

text \<open>
  Fields that are decoded by a callback of the program (\<^verbatim>\<open>src/pb_decode.c\<close>). No table of the program has
  one, so that these functions stand beside the decoder. The callback is a parameter: a function of the
  substream, the descriptor and its argument, which it may change.
\<close>

record 'a pb_callback_t =
  decode :: "(pb_istream \<Rightarrow> pb_field \<Rightarrow> 'a \<Rightarrow> bool \<times> pb_istream \<times> 'a) option"
  arg :: 'a

section \<open>Raw values\<close>

text \<open>The bytes of a value as they are, at most \<open>max_size\<close> of them for a variable-length integer.\<close>

fun raw_varint :: "nat \<Rightarrow> pb_istream \<Rightarrow> u8 list option \<times> pb_istream" where
  "raw_varint 0 stream = (None, stream)"
| "raw_varint (Suc n) stream =
     (case pb_read stream 1 of
        (None, stream) \<Rightarrow> (None, stream)
      | (Some buf, stream) \<Rightarrow>
          if hd buf AND 0x80 = 0 then (Some buf, stream)
          else case raw_varint n stream of
            (None, stream) \<Rightarrow> (None, stream)
          | (Some bufs, stream) \<Rightarrow> (Some (buf @ bufs), stream))"

definition read_raw_value :: "pb_istream \<Rightarrow> nat \<Rightarrow> nat \<Rightarrow> u8 list option \<times> pb_istream" where
  "read_raw_value stream wire_type max_size =
     (if wire_type = PB_WT_VARINT then raw_varint max_size stream
      else if wire_type = PB_WT_64BIT then pb_read stream 8
      else if wire_type = PB_WT_32BIT then pb_read stream 4
      else (None, pb_set_error ''invalid wire_type'' stream))"

section \<open>The callback\<close>

text \<open>
  The loop over a string calls the callback until the substream is empty, at least once; it is left with
  whether no call failed. A callback that takes nothing would be called for ever: \<open>None\<close>.
\<close>

partial_function (option) callback_loop ::
    "(pb_istream \<Rightarrow> 'a \<Rightarrow> bool \<times> pb_istream \<times> 'a) \<Rightarrow> pb_istream \<Rightarrow> 'a \<Rightarrow> (bool \<times> pb_istream \<times> 'a) option" where
  "callback_loop run substream x =
     (case run substream x of
        (ok, substream, x) \<Rightarrow>
          if \<not> ok then Some (False, substream, x)
          else if bytes_left substream = 0 then Some (True, substream, x)
          else callback_loop run substream x)"

text \<open>\<open>pCallback\<close> is \<open>None\<close> for a null pointer; the callback is returned with its new argument.\<close>

definition decode_callback_field ::
    "'a pb_callback_t option \<Rightarrow> pb_field \<Rightarrow> pb_istream \<Rightarrow> nat \<Rightarrow> (bool \<times> pb_istream \<times> 'a pb_callback_t option) option" where
  "decode_callback_field pCallback field stream wire_type =
     (case Option.bind pCallback (\<lambda>cb. map_option (Pair cb) (decode cb)) of
        None \<Rightarrow> (case pb_skip_field stream wire_type of (r, stream) \<Rightarrow> Some (r \<noteq> None, stream, pCallback))
      | Some (cb, run) \<Rightarrow>
          if wire_type = PB_WT_STRING then
            (case pb_make_string_substream stream of
               (None, stream) \<Rightarrow> Some (False, stream, pCallback)
             | (Some substream, stream) \<Rightarrow>
                 (case callback_loop (\<lambda>s. run s field) substream (arg cb) of
                    None \<Rightarrow> None
                  | Some (False, substream, x) \<Rightarrow>
                      Some (False, pb_set_error ''callback failed'' stream, Some (cb\<lparr>arg := x\<rparr>))
                  | Some (True, substream, x) \<Rightarrow>
                      (case pb_close_string_substream stream substream of
                         (ok, stream) \<Rightarrow> Some (ok, stream, Some (cb\<lparr>arg := x\<rparr>)))))
          else
            (case read_raw_value stream wire_type 10 of
               (None, stream) \<Rightarrow> Some (False, stream, pCallback)
             | (Some buffer, stream) \<Rightarrow>
                 (case run (pb_istream_from_buffer buffer (length buffer)) field (arg cb) of
                    (ok, substream, x) \<Rightarrow> Some (ok, stream, Some (cb\<lparr>arg := x\<rparr>)))))"

section \<open>The field is taken whole\<close>

text \<open>
  What a callback has to do: it takes bytes from the front of its substream, one at least where there is
  one. Then the loop ends, and the field is left as if it had been skipped.
\<close>

definition consumes :: "pb_istream \<Rightarrow> pb_istream \<Rightarrow> bool" where
  "consumes s s' \<longleftrightarrow> (\<exists>k. pb_state s' = drop k (pb_state s) \<and> bytes_left s' + k = bytes_left s)"

definition callback_ok :: "(pb_istream \<Rightarrow> 'a \<Rightarrow> bool \<times> pb_istream \<times> 'a) \<Rightarrow> bool" where
  "callback_ok run \<longleftrightarrow>
     (\<forall>s x s' x'. run s x = (True, s', x') \<longrightarrow> consumes s s' \<and> (0 < bytes_left s \<longrightarrow> bytes_left s' < bytes_left s))"

lemma consumes_trans: "consumes s s' \<Longrightarrow> consumes s' s'' \<Longrightarrow> consumes s s''"
  by (fastforce simp: consumes_def)

lemma callback_loop_ends:
  assumes "callback_ok run"
  shows "\<exists>ok s' x'. callback_loop run s x = Some (ok, s', x') \<and> (ok \<longrightarrow> consumes s s' \<and> bytes_left s' = 0)"
proof (induction "bytes_left s" arbitrary: s x rule: less_induct)
  case less
  obtain ok s1 x1 where r: "run s x = (ok, s1, x1)" by (cases "run s x")
  have c: "ok \<Longrightarrow> consumes s s1 \<and> (0 < bytes_left s \<longrightarrow> bytes_left s1 < bytes_left s)"
    using r assms unfolding callback_ok_def by (cases ok) auto
  show ?case
  proof (cases "ok \<and> bytes_left s1 \<noteq> 0")
    case False
    with r c show ?thesis by (subst callback_loop.simps) (auto simp del: bytes_left_error)
  next
    case True
    with c have "bytes_left s1 < bytes_left s" by (auto simp: consumes_def)
    from less [OF this, of x1] obtain ok' s' x' where
      "callback_loop run s1 x1 = Some (ok', s', x')" "ok' \<longrightarrow> consumes s1 s' \<and> bytes_left s' = 0" by blast
    with True c consumes_trans [of s s1 s'] show ?thesis
      by (subst callback_loop.simps) (simp add: r)
  qed
qed

lemma raw_varint_skips:
  "raw_varint n s = (Some bs, s') \<Longrightarrow> pb_skip_varint s = (Some (), s')"
proof (induction n arbitrary: s bs)
  case (Suc n)
  then show ?case
    by (subst pb_skip_varint.simps) (auto split: prod.splits option.splits if_splits)
qed simp

lemma raw_value_skips:
  "wire_type \<noteq> PB_WT_STRING \<Longrightarrow> read_raw_value s wire_type n = (Some bs, s') \<Longrightarrow> pb_skip_field s wire_type = (Some (), s')"
  using raw_varint_skips by (auto simp: read_raw_value_def pb_skip_field_def Let_def split: if_splits)

lemma substream_skips:
  assumes make: "pb_make_string_substream s = (Some sub, s1)" and run: "consumes sub t"
    and close: "pb_close_string_substream s1 t = (True, s2)"
  shows "\<exists>s'. pb_skip_field s PB_WT_STRING = (Some (), s') \<and> pb_state s' = pb_state s2 \<and> bytes_left s' = bytes_left s2"
proof -
  from make obtain sz s0 where len: "pb_decode_varint32 s = (Some sz, s0)" and enough: "unat sz \<le> bytes_left s0"
    and sub: "sub = s0\<lparr>bytes_left := unat sz\<rparr>" and s1: "s1 = s0\<lparr>bytes_left := bytes_left s0 - unat sz\<rparr>"
    by (auto simp: pb_make_string_substream_def split: prod.splits option.splits if_splits)
  from run obtain k where k: "pb_state t = drop k (pb_state s0)" "bytes_left t + k = unat sz"
    by (auto simp: consumes_def sub)
  have "pb_state s2 = drop (bytes_left t) (pb_state t)" "bytes_left s2 = bytes_left s1"
    using close by (auto simp: pb_close_string_substream_def pb_read_def buf_read_def Let_def split: if_splits)
  then have "pb_state s2 = drop (unat sz) (pb_state s0)" "bytes_left s2 = bytes_left s0 - unat sz"
    using k by (simp_all add: s1)
  moreover obtain s' where "pb_read s0 (unat sz) = (Some (take (unat sz) (pb_state s0)), s')"
    "pb_state s' = drop (unat sz) (pb_state s0)" "bytes_left s' = bytes_left s0 - unat sz"
    using enough by (cases "unat sz = 0") (auto simp: pb_read_def buf_read_def)
  ultimately show ?thesis using len by (simp add: pb_skip_field_def wire_type_defs pb_skip_string_def)
qed

lemma callback_field_taken_whole:
  assumes "\<And>run. decode cb = Some run \<Longrightarrow> callback_ok (\<lambda>s. run s field)"
  shows "\<exists>ok s' cb'. decode_callback_field (Some cb) field s wire_type = Some (ok, s', cb') \<and>
    (ok \<longrightarrow> (\<exists>s''. pb_skip_field s wire_type = (Some (), s'') \<and> pb_state s'' = pb_state s' \<and> bytes_left s'' = bytes_left s'))"
proof (cases "decode cb")
  case None
  then show ?thesis by (cases "pb_skip_field s wire_type") (auto simp: decode_callback_field_def)
next
  case (Some run)
  note ok = assms [OF Some]
  show ?thesis
  proof (cases "wire_type = PB_WT_STRING")
    case False
    obtain r s1 where raw: "read_raw_value s wire_type 10 = (r, s1)" by fastforce
    show ?thesis
    proof (cases r)
      case None
      with raw False Some show ?thesis by (intro exI [of _ False]) (simp add: decode_callback_field_def)
    next
      case buffer: (Some buffer)
      with raw False Some raw_value_skips [OF False raw [unfolded buffer]] show ?thesis
        by (cases "run (pb_istream_from_buffer buffer (length buffer)) field (arg cb)") (simp add: decode_callback_field_def)
    qed
  next
    case True
    obtain r s1 where make: "pb_make_string_substream s = (r, s1)" by fastforce
    show ?thesis
    proof (cases r)
      case None
      with make True Some show ?thesis by (intro exI [of _ False]) (simp add: decode_callback_field_def)
    next
      case sub: (Some sub)
      obtain good t x where l: "callback_loop (\<lambda>s. run s field) sub (arg cb) = Some (good, t, x)"
        "good \<longrightarrow> consumes sub t" using callback_loop_ends [OF ok] by blast
      obtain closed s2 where close: "pb_close_string_substream s1 t = (closed, s2)" by fastforce
      show ?thesis
      proof (cases good)
        case False
        with make sub l(1) True Some show ?thesis by (intro exI [of _ False]) (simp add: decode_callback_field_def)
      next
        case good: True
        have "closed \<Longrightarrow> \<exists>s'. pb_skip_field s PB_WT_STRING = (Some (), s') \<and> pb_state s' = pb_state s2 \<and> bytes_left s' = bytes_left s2"
          using substream_skips [OF make [unfolded sub]] l(2) good close by simp
        with make sub l(1) True Some good close show ?thesis by (intro exI [of _ closed]) (simp add: decode_callback_field_def)
      qed
    qed
  qed
qed

end
