(* ===== verification/Swap_Context.thy ===== *)
theory Swap_Context
  imports Commands Buf Tx_Layout
begin

text \<open>
  The state of the program (\<^verbatim>\<open>src/globals.h\<close>), what it uses of the device, and its replies
  (\<^verbatim>\<open>src/io_helpers.c\<close>).

  The global variables are one record, \<open>globals\<close>: the swap context, the split reception of
  \<^verbatim>\<open>apdu_parser.c\<close>, the challenge of \<^verbatim>\<open>get_challenge_handler.c\<close>, the data that survive a cycle and
  the texts of the review. A world is the globals with what can be observed from outside: the
  responses sent and the screen.

  The operating system and the cryptographic library are not in the repository. What they compute
  is a parameter, the record \<open>platform\<close>; what they may do differently at each call, such as the
  random generator, the result of sending a response or the behaviour of the coin application
  that is called as a library, is the record \<open>outside\<close>, one for each event the program handles.
  The compile-time switches are members of \<open>platform\<close> too.
\<close>

section \<open>The swap context\<close>

type_synonym public_key = "u8 list"

record swap_app_context =
  device_transaction_id :: mem
  transaction_fee :: mem
  transaction_fee_length :: u8
  partner_name :: mem
  partner_public_key :: public_key
  ctx_state :: state_e
  ctx_subcommand :: subcommand_e
  ctx_rate :: rate_e
  tx :: mem
  sha256_digest_prefixed :: "u8 list"
  sha256_digest_no_prefix :: "u8 list"
  ledger_public_key :: public_key
  paying_sub_coin_config_size :: u8
  paying_sub_coin_config :: mem
  payin_binary_name :: mem
  printable_get_amount :: mem
  printable_send_amount :: mem
  printable_fees_amount :: mem
  other_seed_payout :: bool

definition sizeof_unified_id :: nat where "sizeof_unified_id = 32"
definition sizeof_swap_id :: nat where "sizeof_swap_id = 10"
definition sizeof_transaction_fee :: nat where "sizeof_transaction_fee = 16"
definition sizeof_unprefixed_name :: nat where
  "sizeof_unprefixed_name = MAX_PARTNER_NAME_LENGHT + 1"
definition sizeof_prefixed_name :: nat where
  "sizeof_prefixed_name = length PARTNER_NAME_PREFIX_FOR_FUND + MAX_PARTNER_NAME_LENGHT + 1"
definition sizeof_payin_binary_name :: nat where
  "sizeof_payin_binary_name = BOLOS_APPNAME_MAX_SIZE_B + 1"
definition MAX_PRINTABLE_AMOUNT_SIZE :: nat where
  \<comment> \<open>a constant of the SDK's \<^verbatim>\<open>swap_lib_calls.h\<close>\<close>
  "MAX_PRINTABLE_AMOUNT_SIZE = 50"

lemmas ctx_size_defs = sizeof_unified_id_def sizeof_swap_id_def sizeof_transaction_fee_def
  sizeof_unprefixed_name_def sizeof_prefixed_name_def sizeof_payin_binary_name_def
  MAX_PRINTABLE_AMOUNT_SIZE_def

text \<open>Every member of the context has the size it is declared with.\<close>

definition ctx_sizes :: "swap_app_context \<Rightarrow> bool" where
  "ctx_sizes c \<longleftrightarrow>
     length (device_transaction_id c) = sizeof_unified_id \<and>
     length (transaction_fee c) = sizeof_transaction_fee \<and>
     length (partner_name c) = sizeof_prefixed_name \<and>
     length (tx c) = sizeof_tx \<and>
     length (paying_sub_coin_config c) = MAX_COIN_SUB_CONFIG_SIZE \<and>
     length (payin_binary_name c) = sizeof_payin_binary_name \<and>
     length (printable_get_amount c) = MAX_PRINTABLE_AMOUNT_SIZE \<and>
     length (printable_send_amount c) = MAX_PRINTABLE_AMOUNT_SIZE \<and>
     length (printable_fees_amount c) = MAX_PRINTABLE_AMOUNT_SIZE"

text \<open>The context filled with zeros, of which \<open>0\<close> are the enumerators' first values.\<close>

definition zero_context :: swap_app_context where
  "zero_context =
     \<lparr>device_transaction_id = replicate sizeof_unified_id 0,
      transaction_fee = replicate sizeof_transaction_fee 0,
      transaction_fee_length = 0,
      partner_name = replicate sizeof_prefixed_name 0,
      partner_public_key = [],
      ctx_state = INITIAL_STATE,
      ctx_subcommand = SWAP,
      ctx_rate = FIXED,
      tx = replicate sizeof_tx 0,
      sha256_digest_prefixed = replicate 32 0,
      sha256_digest_no_prefix = replicate 32 0,
      ledger_public_key = [],
      paying_sub_coin_config_size = 0,
      paying_sub_coin_config = replicate MAX_COIN_SUB_CONFIG_SIZE 0,
      payin_binary_name = replicate sizeof_payin_binary_name 0,
      printable_get_amount = replicate MAX_PRINTABLE_AMOUNT_SIZE 0,
      printable_send_amount = replicate MAX_PRINTABLE_AMOUNT_SIZE 0,
      printable_fees_amount = replicate MAX_PRINTABLE_AMOUNT_SIZE 0,
      other_seed_payout = False\<rparr>"

lemma zero_context_sizes: "ctx_sizes zero_context"
  by (simp add: ctx_sizes_def zero_context_def)

section \<open>The other globals\<close>

text \<open>
  The constant texts of the title and of the confirmation of the review, and the sizes of their
  buffers, which \<open>sizeof\<close> of a literal gives with its final zero.
\<close>

definition REVIEW_P1_TITLE :: "u8 list" where "REVIEW_P1_TITLE = ascii ''Review transaction''"
definition REVIEW_P1_CONFIRM :: "u8 list" where "REVIEW_P1_CONFIRM = ascii ''Sign transaction''"
definition REVIEW_P2 :: "u8 list" where "REVIEW_P2 = ascii ''to''"
definition REVIEW_P3_SWAP :: "u8 list" where "REVIEW_P3_SWAP = ascii ''swap ''"
definition REVIEW_P3_SELL :: "u8 list" where "REVIEW_P3_SELL = ascii ''sell ''"
definition REVIEW_P3_FUND :: "u8 list" where "REVIEW_P3_FUND = ascii ''fund account''"
definition REVIEW_P5_SWAP :: "u8 list" where "REVIEW_P5_SWAP = ascii ''to ''"
definition REVIEW_P5_SELL :: "u8 list" where "REVIEW_P5_SELL = ascii ''for ''"
definition REVIEW_P5_FUND :: "u8 list" where "REVIEW_P5_FUND = ascii ''with ''"
definition REVIEW_P7_CONFIRM :: "u8 list" where "REVIEW_P7_CONFIRM = ascii ''?''"

definition REVIEW_TITLE_MAX_SIZE :: nat where
  "REVIEW_TITLE_MAX_SIZE =
     Suc (length REVIEW_P1_TITLE) + 1 + Suc (length REVIEW_P2) + 1 + Suc (length REVIEW_P3_SELL) +
     (snd sell_in_currency - 1) + 1 + Suc (length REVIEW_P5_SELL) + (snd sell_out_currency - 1) + 1"

definition REVIEW_CONFIRM_MAX_SIZE :: nat where
  "REVIEW_CONFIRM_MAX_SIZE =
     Suc (length REVIEW_P1_CONFIRM) + 1 + Suc (length REVIEW_P2) + 1 + Suc (length REVIEW_P3_SELL) +
     (snd sell_in_currency - 1) + 1 + Suc (length REVIEW_P5_SELL) + (snd sell_out_currency - 1) +
     Suc (length REVIEW_P7_CONFIRM) + 1"

lemmas review_defs = REVIEW_P1_TITLE_def REVIEW_P1_CONFIRM_def REVIEW_P2_def REVIEW_P3_SWAP_def
  REVIEW_P3_SELL_def REVIEW_P3_FUND_def REVIEW_P5_SWAP_def REVIEW_P5_SELL_def REVIEW_P5_FUND_def
  REVIEW_P7_CONFIRM_def REVIEW_TITLE_MAX_SIZE_def REVIEW_CONFIRM_MAX_SIZE_def

record apdu_t =
  expecting_more :: bool
  rcv_instruction :: u8
  rcv_rate :: u8
  rcv_subcommand :: u8
  rcv_data_length :: u16

definition zero_apdu :: apdu_t where
  "zero_apdu = \<lparr>expecting_more = False, rcv_instruction = 0, rcv_rate = 0, rcv_subcommand = 0,
     rcv_data_length = 0\<rparr>"

record previous_cycle_data_t =
  had_previous_cycle :: bool
  was_successful :: bool
  appname_last_cycle :: mem

definition zero_cycle :: previous_cycle_data_t where
  "zero_cycle = \<lparr>had_previous_cycle = False, was_successful = False,
     appname_last_cycle = replicate sizeof_payin_binary_name 0\<rparr>"

text \<open>
  The pairs of the review point at texts of the program or at members of the context, and are read
  when they are displayed.
\<close>

datatype text_ptr =
    Text "u8 list"
  | Unprefixed_name | Prefixed_name
  | Trader_email | User_id | Payout_address
  | Printable_send | Printable_get | Printable_fees

record globals =
  ctx :: swap_app_context
  received_apdu :: apdu_t
  challenge :: u32
  previous_cycle :: previous_cycle_data_t
  review_title_string :: mem
  review_confirm_string :: mem
  review_pairs :: "(text_ptr \<times> text_ptr) list"

section \<open>The outside\<close>

type_synonym rapdu = "u8 list \<times> u16"

datatype screen =
    Screen_off
  | Home
  | Cross_seed_warning
  | Review
  | Spinner
  | Transaction_rejected
  | Transaction_signed
  | Signing_failure "u8 list"

record world = globals +
  sent :: "rapdu list"
  screen :: screen

definition zero_globals :: globals where
  "zero_globals = \<lparr>ctx = zero_context, received_apdu = zero_apdu, challenge = 0, previous_cycle = zero_cycle,
     review_title_string = replicate REVIEW_TITLE_MAX_SIZE 0,
     review_confirm_string = replicate REVIEW_CONFIRM_MAX_SIZE 0, review_pairs = []\<rparr>"

definition world_in :: "state_e \<Rightarrow> subcommand_e \<Rightarrow> world" where
  "world_in st s = \<lparr>ctx = zero_context\<lparr>ctx_state := st, ctx_subcommand := s\<rparr>, received_apdu = zero_apdu,
     challenge = 0, previous_cycle = zero_cycle, review_title_string = replicate REVIEW_TITLE_MAX_SIZE 0,
     review_confirm_string = replicate REVIEW_CONFIRM_MAX_SIZE 0, review_pairs = [], sent = [], screen = Home\<rparr>"

definition globals_of :: "world \<Rightarrow> globals" where
  "globals_of w = \<lparr>ctx = ctx w, received_apdu = received_apdu w, challenge = challenge w,
     previous_cycle = previous_cycle w, review_title_string = review_title_string w,
     review_confirm_string = review_confirm_string w, review_pairs = review_pairs w\<rparr>"

definition with_globals :: "globals \<Rightarrow> world \<Rightarrow> world" where
  "with_globals g w = \<lparr>ctx = ctx g, received_apdu = received_apdu g, challenge = challenge g,
     previous_cycle = previous_cycle g, review_title_string = review_title_string g,
     review_confirm_string = review_confirm_string g, review_pairs = review_pairs g,
     sent = sent w, screen = screen w\<rparr>"

lemma with_globals_of [simp]: "with_globals (globals_of w) w = w"
  by (simp add: with_globals_def globals_of_def)

lemma globals_of_with [simp]: "globals_of (with_globals g w) = g"
  by (simp add: with_globals_def globals_of_def)

lemma with_globals_simps [simp]:
  "ctx (with_globals g w) = ctx g" "sent (with_globals g w) = sent w" "screen (with_globals g w) = screen w"
  by (simp_all add: with_globals_def)

datatype curve = CX_CURVE_SECP256K1 | CX_CURVE_256R1

text \<open>What the trusted name descriptor parser of the SDK returns.\<close>

record tlv_trusted_name_out =
  challenge_received :: bool
  tlv_challenge :: u32
  trusted_name_type :: u8
  trusted_name_source :: u8
  trusted_name :: "u8 list"
  tlv_address :: "u8 list"

record platform =
  SCREEN_SIZE_WALLET :: bool
  TARGET_NANOS :: bool
  TESTING :: bool
  BYPASS_TRANSACTION_ID_CHECK :: bool
  BYPASS_CHECK_ADDRESS :: bool
  FIXED_TLV_CHALLENGE :: bool
  TEST_PUBLIC_KEY :: bool
  OLD_TEST_PUBLIC_KEY :: bool
  version_bytes :: "u8 \<times> u8 \<times> u8"
  cx_sha256 :: "u8 list \<Rightarrow> u8 list option"
  cx_ecdsa_verify :: "public_key \<Rightarrow> u8 list \<Rightarrow> u8 list \<Rightarrow> bool"
  cx_ecfp_init_public_key :: "curve \<Rightarrow> u8 list \<Rightarrow> public_key option"
  cx_crc16 :: "globals \<Rightarrow> u16"
  tlv_use_case_trusted_name :: "u8 list \<Rightarrow> u8 list + tlv_trusted_name_out"
  TLV_TRUSTED_NAME_TYPE_CONTEXT_ADDRESS :: u8
  TLV_TRUSTED_NAME_SOURCE_DYNAMIC_RESOLVER :: u8

text \<open>
  The parameters of a library call, and what became of it. \<open>os_lib_call\<close> throws when the
  application is not installed. Otherwise the application may have written anywhere in the
  globals and over the canary; the rest of what it returns depends on the command.
\<close>

record check_address_parameters =
  ca_application_name :: "u8 list"
  ca_coin_configuration :: "u8 list"
  ca_address_parameters :: "u8 list"
  ca_address_to_check :: "u8 list"
  ca_extra_id_to_check :: "u8 list"

record get_printable_amount_parameters =
  pa_application_name :: "u8 list"
  pa_coin_configuration :: "u8 list"
  pa_amount :: "u8 list"
  pa_is_fee :: bool

record create_transaction_parameters =
  ct_application_name :: "u8 list"
  ct_coin_configuration :: "u8 list option"
  ct_amount :: "u8 list"
  ct_fee_amount :: "u8 list"
  ct_destination_address :: "u8 list"
  ct_destination_address_extra_id :: "u8 list"

datatype 'a lib_outcome =
    Lib_missing
  | Lib_returned (lib_result: 'a) (lib_globals: globals) (lib_canary: u16)

text \<open>
  \<open>rng_u8\<close> and \<open>rng_bytes\<close> give the bytes \<open>cx_rng_u8\<close> and \<open>cx_rng\<close> draw, by their index.
  \<open>stack_bytes\<close> is what a local array holds before anything is stored in it.
\<close>

record outside =
  io_ok :: bool
  instant_io_ok :: bool
  rng_u8 :: "nat \<Rightarrow> u8"
  rng_bytes :: "nat \<Rightarrow> u8"
  rng_u32 :: u32
  stack_bytes :: "u8 list"
  stack_frames :: nat
  lib_check_address :: "check_address_parameters \<Rightarrow> globals \<Rightarrow> u8 lib_outcome"
  lib_get_printable_amount :: "get_printable_amount_parameters \<Rightarrow> globals \<Rightarrow> mem lib_outcome"
  lib_sign_transaction :: "create_transaction_parameters \<Rightarrow> globals \<Rightarrow> u8 lib_outcome"

text \<open>
  A platform and an outside with which everything goes well, for the examples: the digest is the
  beginning of what is hashed, every signature is accepted, every application agrees.
\<close>

definition plain_platform :: platform where
  "plain_platform = \<lparr>SCREEN_SIZE_WALLET = True, TARGET_NANOS = False, TESTING = False,
     BYPASS_TRANSACTION_ID_CHECK = False, BYPASS_CHECK_ADDRESS = False, FIXED_TLV_CHALLENGE = False,
     TEST_PUBLIC_KEY = False, OLD_TEST_PUBLIC_KEY = False, version_bytes = (1, 2, 3),
     cx_sha256 = (\<lambda>xs. Some (take 32 (xs @ replicate 32 0))),
     cx_ecdsa_verify = (\<lambda>_ _ _. True),
     cx_ecfp_init_public_key = (\<lambda>_ key. Some key),
     cx_crc16 = (\<lambda>_. 0),
     tlv_use_case_trusted_name = (\<lambda>_. Inl [1]),
     TLV_TRUSTED_NAME_TYPE_CONTEXT_ADDRESS = 1, TLV_TRUSTED_NAME_SOURCE_DYNAMIC_RESOLVER = 2\<rparr>"

definition plain_outside :: outside where
  "plain_outside = \<lparr>io_ok = True, instant_io_ok = True, rng_u8 = of_nat, rng_bytes = of_nat, rng_u32 = 7,
     stack_bytes = replicate 32 0, stack_frames = 3,
     lib_check_address = (\<lambda>_ g. Lib_returned 1 g 0xCAFE),
     lib_get_printable_amount = (\<lambda>_ g. Lib_returned (ascii ''1 BTC'') g 0xCAFE),
     lib_sign_transaction = (\<lambda>_ g. Lib_returned 1 g 0xCAFE)\<rparr>"

lemmas plain_env_defs = plain_platform_def plain_outside_def

section \<open>Handlers\<close>

text \<open>
  A handler returns its C result and the new world, or an exception thrown on the way, which
  \<open>main\<close> catches.
\<close>

datatype exn = SWO_SEC_APP_14 | EXCEPTION_IO_RESET | OTHER_EXCEPTION

datatype outcome = Returned int | Threw exn

definition io_send_response_buffers :: "outside \<Rightarrow> u8 list \<Rightarrow> u16 \<Rightarrow> world \<Rightarrow> int \<times> world" where
  \<comment> \<open>of the SDK: one response, negative when it could not be sent\<close>
  "io_send_response_buffers e data sw w = (if io_ok e then 0 else -1, w\<lparr>sent := sent w @ [(data, sw)]\<rparr>)"

definition reply_error :: "outside \<Rightarrow> swap_error_e \<Rightarrow> world \<Rightarrow> int \<times> world" where
  "reply_error e error w = io_send_response_buffers e [] (status_word error) w"

definition reply_success :: "outside \<Rightarrow> world \<Rightarrow> int \<times> world" where
  "reply_success e w = reply_error e SUCCESS w"

definition instant_reply_error :: "outside \<Rightarrow> swap_error_e \<Rightarrow> world \<Rightarrow> int \<times> world" where
  "instant_reply_error e error w =
     (if instant_io_ok e then 0 else -1, w\<lparr>sent := sent w @ [([], status_word error)]\<rparr>)"

definition instant_reply_success :: "outside \<Rightarrow> world \<Rightarrow> int \<times> world" where
  "instant_reply_success e w = instant_reply_error e SUCCESS w"

text \<open>A handler that throws nothing, as a handler.\<close>

definition returning :: "int \<times> world \<Rightarrow> outcome \<times> world" where
  "returning r = (Returned (fst r), snd r)"

lemma returning_iff [simp]: "returning r = (res, w') \<longleftrightarrow> res = Returned (fst r) \<and> w' = snd r"
  by (auto simp: returning_def)

lemmas reply_defs = io_send_response_buffers_def reply_error_def reply_success_def
  instant_reply_error_def instant_reply_success_def

abbreviation upd_ctx :: "(swap_app_context \<Rightarrow> swap_app_context) \<Rightarrow> world \<Rightarrow> world" where
  "upd_ctx f w \<equiv> w\<lparr>ctx := f (ctx w)\<rparr>"

text \<open>The data of a command, wherever they are.\<close>

definition data_pointer :: "command_t \<Rightarrow> swap_app_context \<Rightarrow> cptr" where
  "data_pointer cmd c =
     (case cmd_data cmd of
        In_apdu_buffer m \<Rightarrow> Ptr m OFFSET_CDATA
      | In_raw_transaction \<Rightarrow> Ptr (tx c) 0)"

definition data_bytes :: "command_t \<Rightarrow> swap_app_context \<Rightarrow> u8 list" where
  "data_bytes cmd c = ptr_bytes (data_pointer cmd c) (unat (cmd_data_size cmd))"

definition data_ok :: "command_t \<Rightarrow> swap_app_context \<Rightarrow> bool" where
  \<comment> \<open>inside the object they are in, which for a split command is \<open>raw_transaction\<close>\<close>
  "data_ok cmd c \<longleftrightarrow>
     ptr_ok (data_pointer cmd c) (unat (cmd_data_size cmd)) \<and>
     (cmd_data cmd = In_raw_transaction \<longrightarrow> unat (cmd_data_size cmd) \<le> sizeof_raw_transaction)"

section \<open>The contract of a handler\<close>

text \<open>
  A well-behaved library leaves the globals of its caller alone: that is the documented protocol
  of \<open>os_lib_call\<close> for the commands whose result is not in the globals.
\<close>

definition libs_keep_globals :: "outside \<Rightarrow> bool" where
  "libs_keep_globals e \<longleftrightarrow>
     (\<forall>p g r g' k. lib_check_address e p g = Lib_returned r g' k \<longrightarrow> g' = g) \<and>
     (\<forall>p g r g' k. lib_get_printable_amount e p g = Lib_returned r g' k \<longrightarrow> g' = g)"

text \<open>
  Whatever the platform and the event, a handler answers at most once, keeps the sizes of the
  context, and moves the state machine only to a state of \<open>goals\<close>.
\<close>

locale handler =
  fixes run :: "outside \<Rightarrow> command_t \<Rightarrow> world \<Rightarrow> outcome \<times> world"
    and goals :: "state_e set"
    and pre :: "outside \<Rightarrow> command_t \<Rightarrow> world \<Rightarrow> bool"
  assumes replies: "pre e cmd w \<Longrightarrow> run e cmd w = (r, w') \<Longrightarrow>
      \<exists>rs. sent w' = sent w @ rs \<and> length rs \<le> 1"
    and sizes: "pre e cmd w \<Longrightarrow> run e cmd w = (r, w') \<Longrightarrow> ctx_sizes (ctx w) \<Longrightarrow> ctx_sizes (ctx w')"
    and moves: "pre e cmd w \<Longrightarrow> run e cmd w = (r, w') \<Longrightarrow>
      ctx_state (ctx w') = ctx_state (ctx w) \<or> ctx_state (ctx w') \<in> goals"
begin

lemma keeps_prefix: "pre e cmd w \<Longrightarrow> run e cmd w = (r, w') \<Longrightarrow> take (length (sent w)) (sent w') = sent w"
  using replies by fastforce

lemma stays: "pre e cmd w \<Longrightarrow> run e cmd w = (r, w') \<Longrightarrow> goals \<subseteq> {ctx_state (ctx w)} \<Longrightarrow>
    ctx_state (ctx w') = ctx_state (ctx w)"
  using moves by blast

end

end
