(* ===== verification/Apdu_Parser.thy ===== *)
theory Apdu_Parser
  imports Swap_Context
begin

text \<open>
  The reception of commands (\<^verbatim>\<open>src/apdu_parser.c\<close>): which instruction is accepted in which state and
  for which flow, the checks on the header, and the reassembly of a command that comes in several
  pieces. \<open>None\<close>, or \<open>Inr\<close> a command, is the C result 0; a result of the type \<open>swap_error_e\<close> is the
  status word that is sent at once, \<open>SUCCESS\<close> for a piece that others will follow.
\<close>

section \<open>Which instruction is accepted when\<close>

text \<open>The three local variables of \<open>check_instruction\<close>: its \<open>switch\<close>.\<close>

fun instruction_rules :: "command_e \<Rightarrow> bool \<times> bool \<times> state_e option" where
  \<comment> \<open>\<open>check_subcommand_context\<close>, \<open>allowed_during_waiting_for_signing\<close>, \<open>check_current_state\<close>\<close>
  "instruction_rules GET_VERSION_COMMAND = (False, False, None)"
| "instruction_rules START_NEW_TRANSACTION_COMMAND = (False, True, None)"
| "instruction_rules SET_PARTNER_KEY_COMMAND = (True, False, Some WAITING_TRANSACTION)"
| "instruction_rules CHECK_PARTNER_COMMAND = (True, False, Some PROVIDER_SET)"
| "instruction_rules PROCESS_TRANSACTION_RESPONSE_COMMAND = (True, False, Some PROVIDER_CHECKED)"
| "instruction_rules CHECK_TRANSACTION_SIGNATURE_COMMAND = (True, False, Some TRANSACTION_RECEIVED)"
| "instruction_rules GET_CHALLENGE = (True, False, Some SIGNATURE_CHECKED)"
| "instruction_rules SEND_TRUSTED_NAME_DESCRIPTOR = (True, False, Some SIGNATURE_CHECKED)"
| "instruction_rules CHECK_PAYOUT_ADDRESS = (True, False, Some SIGNATURE_CHECKED)"
| "instruction_rules CHECK_ASSET_IN_AND_DISPLAY = (True, False, Some SIGNATURE_CHECKED)"
| "instruction_rules CHECK_ASSET_IN_NO_DISPLAY = (True, False, Some SIGNATURE_CHECKED)"
| "instruction_rules CHECK_REFUND_ADDRESS_AND_DISPLAY = (True, False, Some PAYOUT_ADDRESS_CHECKED)"
| "instruction_rules CHECK_REFUND_ADDRESS_NO_DISPLAY = (True, False, Some PAYOUT_ADDRESS_CHECKED)"
| "instruction_rules PROMPT_UI_DISPLAY = (True, False, Some ALL_ADDRESSES_CHECKED)"
| "instruction_rules START_SIGNING_TRANSACTION = (True, True, Some WAITING_SIGNING)"

definition check_instruction :: "u8 \<Rightarrow> subcommand_e \<Rightarrow> swap_app_context \<Rightarrow> swap_error_e option" where
  "check_instruction instruction subcommand c =
     (let ins = ins_of_byte instruction in
      if ins \<in> {Some CHECK_ASSET_IN_AND_DISPLAY, Some CHECK_ASSET_IN_NO_DISPLAY} \<and>
         subcommand \<in> {SWAP, SWAP_NG}
      then Some INVALID_INSTRUCTION
      else if ins = Some CHECK_PAYOUT_ADDRESS \<and> subcommand \<notin> {SWAP, SWAP_NG}
      then Some INVALID_INSTRUCTION
      else if ins = Some GET_CHALLENGE \<and> subcommand \<notin> {SWAP, SWAP_NG}
      then Some INVALID_INSTRUCTION
      else if ins = Some SEND_TRUSTED_NAME_DESCRIPTOR \<and> subcommand \<notin> {SWAP, SWAP_NG}
      then Some INVALID_INSTRUCTION
      else if ins \<in> {Some CHECK_REFUND_ADDRESS_AND_DISPLAY, Some CHECK_REFUND_ADDRESS_NO_DISPLAY} \<and>
              subcommand \<notin> {SWAP, SWAP_NG}
      then Some INVALID_INSTRUCTION
      else case ins of
        None \<Rightarrow> Some INVALID_INSTRUCTION
      | Some i \<Rightarrow>
          (case instruction_rules i of
             (check_subcommand_context, allowed_during_waiting_for_signing, check_current_state) \<Rightarrow>
               if ctx_state c = WAITING_USER_VALIDATION then Some UNEXPECTED_INSTRUCTION
               else if \<not> allowed_during_waiting_for_signing \<and> ctx_state c = WAITING_SIGNING
               then Some UNEXPECTED_INSTRUCTION
               else if check_subcommand_context \<and> subcommand \<noteq> ctx_subcommand c
               then Some UNEXPECTED_INSTRUCTION
               else if check_current_state \<noteq> None \<and> check_current_state \<noteq> Some (ctx_state c)
               then Some UNEXPECTED_INSTRUCTION
               else None))"

section \<open>Reception\<close>

text \<open>
  The values of the enumerations that come out of \<open>G_received_apdu\<close>; they were checked before they
  were stored, so that the last case of each conversion is not met.
\<close>

definition to_command_e :: "u8 \<Rightarrow> command_e" where
  "to_command_e b = (case ins_of_byte b of Some i \<Rightarrow> i | None \<Rightarrow> GET_VERSION_COMMAND)"

definition to_rate_e :: "u8 \<Rightarrow> rate_e" where
  "to_rate_e b = (case rate_of_byte b of Some r \<Rightarrow> r | None \<Rightarrow> FIXED)"

definition to_subcommand_e :: "u8 \<Rightarrow> subcommand_e" where
  "to_subcommand_e b = (case subcommand_of_byte b of Some s \<Rightarrow> s | None \<Rightarrow> SWAP)"

text \<open>The reception proper, once the header is found to be acceptable.\<close>

definition store_data :: "mem \<Rightarrow> u8 \<Rightarrow> u8 \<Rightarrow> u8 \<Rightarrow> u8 \<Rightarrow> u8 \<Rightarrow> world \<Rightarrow> swap_error_e option \<times> world" where
  "store_data apdu instruction rate subcommand extension data_length w =
     (let is_first_data_chunk = (extension AND P2_EXTEND = 0);
          is_last_data_chunk = (extension AND P2_MORE = 0);
          data = mread OFFSET_CDATA (unat data_length) apdu;
          g = received_apdu w
      in if is_first_data_chunk then
           let w = w\<lparr>received_apdu := g\<lparr>rcv_instruction := instruction, rcv_rate := rate,
                       rcv_subcommand := subcommand, rcv_data_length := ucast data_length\<rparr>\<rparr>
           in if \<not> is_last_data_chunk
              then (None, w\<lparr>ctx := (ctx w)\<lparr>tx := mwrite 0 data (tx (ctx w))\<rparr>,
                            received_apdu := (received_apdu w)\<lparr>expecting_more := True\<rparr>\<rparr>)
              else (None, w)
         else if \<not> expecting_more g then (Some INVALID_P2_EXTENSION, w)
         else if rcv_instruction g \<noteq> instruction \<or> rcv_rate g \<noteq> rate \<or> rcv_subcommand g \<noteq> subcommand
         then (Some INVALID_P2_EXTENSION, w)
         else if unat (rcv_data_length g) + unat data_length > sizeof_raw_transaction
         then (Some INVALID_P2_EXTENSION, w)
         else (None, w\<lparr>ctx := (ctx w)\<lparr>tx := mwrite (unat (rcv_data_length g)) data (tx (ctx w))\<rparr>,
                       received_apdu := g\<lparr>rcv_data_length := rcv_data_length g + ucast data_length\<rparr>\<rparr>))"

definition receive_data ::
    "mem \<Rightarrow> u8 \<Rightarrow> u8 \<Rightarrow> u8 \<Rightarrow> u8 \<Rightarrow> u8 \<Rightarrow> world \<Rightarrow> (swap_error_e + command_t) \<times> world" where
  "receive_data apdu instruction rate subcommand extension data_length w =
     (case store_data apdu instruction rate subcommand extension data_length w of
        (Some err, w) \<Rightarrow> (Inl err, w)
      | (None, w) \<Rightarrow>
          if extension AND P2_MORE \<noteq> 0 then (Inl SUCCESS, w)
          else
            let g = received_apdu w; is_whole_apdu = (extension AND P2_EXTEND = 0) in
            (Inr \<lparr>cmd_ins = to_command_e (rcv_instruction g), cmd_rate = to_rate_e (rcv_rate g),
                  cmd_subcommand = to_subcommand_e (rcv_subcommand g),
                  cmd_data = (if is_whole_apdu then In_apdu_buffer apdu else In_raw_transaction),
                  cmd_data_size = rcv_data_length g\<rparr>,
             w\<lparr>received_apdu := g\<lparr>expecting_more := False\<rparr>\<rparr>))"

text \<open>The legacy value of \<open>CHECK_ASSET_IN_AND_DISPLAY\<close>, in the flows that use it.\<close>

definition replace_legacy :: "u8 \<Rightarrow> subcommand_e \<Rightarrow> u8" where
  "replace_legacy instruction subcommand =
     (if instruction = ins_value CHECK_ASSET_IN_LEGACY_AND_DISPLAY \<and>
         (subcommand = SELL \<or> subcommand = FUND)
      then ins_value CHECK_ASSET_IN_AND_DISPLAY else instruction)"

text \<open>The three refusals of the extension in P2.\<close>

definition check_extension :: "u8 \<Rightarrow> u8 \<Rightarrow> subcommand_e \<Rightarrow> swap_error_e option" where
  "check_extension extension instruction subcommand =
     (let is_whole_apdu = (extension AND P2_EXTEND = 0 \<and> extension AND P2_MORE = 0) in
      if extension AND NOT (P2_NONE OR P2_MORE OR P2_EXTEND) \<noteq> 0 then Some WRONG_P2_EXTENSION
      else if subcommand \<notin> {SWAP_NG, SELL_NG, FUND_NG} \<and> \<not> is_whole_apdu then Some WRONG_P2_EXTENSION
      else if instruction \<noteq> ins_value PROCESS_TRANSACTION_RESPONSE_COMMAND \<and> \<not> is_whole_apdu
      then Some WRONG_P2_EXTENSION
      else None)"

definition check_apdu_validity ::
    "mem \<Rightarrow> nat \<Rightarrow> world \<Rightarrow> (swap_error_e + command_t) \<times> world" where
  "check_apdu_validity apdu apdu_length w =
     (if apdu_length < OFFSET_CDATA then (Inl MALFORMED_APDU, w)
      else
        let data_length = apdu ! OFFSET_LC in
        if unat data_length \<noteq> apdu_length - OFFSET_CDATA then (Inl MALFORMED_APDU, w)
        else if apdu ! OFFSET_CLA \<noteq> CLA then (Inl CLASS_NOT_SUPPORTED, w)
        else
          let rate = apdu ! OFFSET_P1 in
          if rate_of_byte rate = None then (Inl WRONG_P1, w)
          else case subcommand_of_byte (apdu ! OFFSET_P2 AND SUBCOMMAND_MASK) of
            None \<Rightarrow> (Inl WRONG_P2_SUBCOMMAND, w)
          | Some subcommand \<Rightarrow>
              let instruction = replace_legacy (apdu ! OFFSET_INS) subcommand
              in case check_instruction instruction subcommand (ctx w) of
                Some err \<Rightarrow> (Inl err, w)
              | None \<Rightarrow>
                  let extension = apdu ! OFFSET_P2 AND EXTENSION_MASK in
                  case check_extension extension instruction subcommand of
                    Some err \<Rightarrow> (Inl err, w)
                  | None \<Rightarrow>
                      receive_data apdu instruction rate (subcommand_value subcommand) extension data_length w)"

section \<open>The table of the protocol\<close>

text \<open>
  Which flows an instruction belongs to, and the states in which the code accepts it, as a table.
\<close>

definition flow_allows :: "command_e \<Rightarrow> subcommand_e \<Rightarrow> bool" where
  "flow_allows i s \<longleftrightarrow>
     (if i \<in> {CHECK_PAYOUT_ADDRESS, CHECK_REFUND_ADDRESS_AND_DISPLAY, CHECK_REFUND_ADDRESS_NO_DISPLAY,
             GET_CHALLENGE, SEND_TRUSTED_NAME_DESCRIPTOR} then swap_based s
      else if i \<in> {CHECK_ASSET_IN_AND_DISPLAY, CHECK_ASSET_IN_NO_DISPLAY} then \<not> swap_based s
      else True)"

fun allowed_states :: "command_e \<Rightarrow> state_e set" where
  "allowed_states GET_VERSION_COMMAND = UNIV - {WAITING_USER_VALIDATION, WAITING_SIGNING}"
| "allowed_states START_NEW_TRANSACTION_COMMAND = UNIV - {WAITING_USER_VALIDATION}"
| "allowed_states SET_PARTNER_KEY_COMMAND = {WAITING_TRANSACTION}"
| "allowed_states CHECK_PARTNER_COMMAND = {PROVIDER_SET}"
| "allowed_states PROCESS_TRANSACTION_RESPONSE_COMMAND = {PROVIDER_CHECKED}"
| "allowed_states CHECK_TRANSACTION_SIGNATURE_COMMAND = {TRANSACTION_RECEIVED}"
| "allowed_states GET_CHALLENGE = {SIGNATURE_CHECKED}"
| "allowed_states SEND_TRUSTED_NAME_DESCRIPTOR = {SIGNATURE_CHECKED}"
| "allowed_states CHECK_PAYOUT_ADDRESS = {SIGNATURE_CHECKED}"
| "allowed_states CHECK_ASSET_IN_AND_DISPLAY = {SIGNATURE_CHECKED}"
| "allowed_states CHECK_ASSET_IN_NO_DISPLAY = {SIGNATURE_CHECKED}"
| "allowed_states CHECK_REFUND_ADDRESS_AND_DISPLAY = {PAYOUT_ADDRESS_CHECKED}"
| "allowed_states CHECK_REFUND_ADDRESS_NO_DISPLAY = {PAYOUT_ADDRESS_CHECKED}"
| "allowed_states PROMPT_UI_DISPLAY = {ALL_ADDRESSES_CHECKED}"
| "allowed_states START_SIGNING_TRANSACTION = {WAITING_SIGNING}"

definition flowless :: "command_e set" where
  "flowless = {GET_VERSION_COMMAND, START_NEW_TRANSACTION_COMMAND}"

definition accepts :: "command_e \<Rightarrow> subcommand_e \<Rightarrow> swap_app_context \<Rightarrow> bool" where
  "accepts i s c \<longleftrightarrow>
     flow_allows i s \<and> ctx_state c \<in> allowed_states i \<and> (i \<in> flowless \<or> s = ctx_subcommand c)"

lemma check_instruction_known: "check_instruction (ins_value i) s c = None \<longleftrightarrow> accepts i s c"
  unfolding check_instruction_def Let_def ins_of_byte_value accepts_def flow_allows_def flowless_def
  by (cases i) auto

lemma check_instruction_unknown: "ins_of_byte b = None \<Longrightarrow> check_instruction b s c = Some INVALID_INSTRUCTION"
  by (simp add: check_instruction_def)

lemma check_instruction_accepts:
  "check_instruction b s c = None \<longleftrightarrow> (\<exists>i. b = ins_value i \<and> accepts i s c)"
proof (cases "ins_of_byte b")
  case None
  then show ?thesis using check_instruction_unknown by auto
next
  case (Some i)
  then show ?thesis using check_instruction_known ins_value_inject by (auto simp: ins_of_byte_Some)
qed

text \<open>
  The protocol as \<^verbatim>\<open>docs/technical_information/protocol.md\<close> has it: each command comes after those that
  it lists before, in the states that stand for having received them; a new transaction can be started at
  any time but during the review; the version can be asked for independently of the state.
\<close>

fun documented_states :: "command_e \<Rightarrow> state_e set" where
  "documented_states GET_VERSION_COMMAND = UNIV"
| "documented_states START_NEW_TRANSACTION_COMMAND = - {WAITING_USER_VALIDATION}"
| "documented_states SET_PARTNER_KEY_COMMAND = {WAITING_TRANSACTION}"
| "documented_states CHECK_PARTNER_COMMAND = {PROVIDER_SET}"
| "documented_states PROCESS_TRANSACTION_RESPONSE_COMMAND = {PROVIDER_CHECKED}"
| "documented_states CHECK_TRANSACTION_SIGNATURE_COMMAND = {TRANSACTION_RECEIVED}"
| "documented_states PROMPT_UI_DISPLAY = {ALL_ADDRESSES_CHECKED}"
| "documented_states START_SIGNING_TRANSACTION = {WAITING_SIGNING}"
| "documented_states i =
     (if i \<in> {CHECK_REFUND_ADDRESS_AND_DISPLAY, CHECK_REFUND_ADDRESS_NO_DISPLAY} then {PAYOUT_ADDRESS_CHECKED}
      else {SIGNATURE_CHECKED})"

definition documented :: "command_e \<Rightarrow> subcommand_e \<Rightarrow> swap_app_context \<Rightarrow> bool" where
  "documented i s c \<longleftrightarrow>
     flow_allows i s \<and> ctx_state c \<in> documented_states i \<and> (i \<in> flowless \<or> s = ctx_subcommand c)"

lemma accepts_documented:
  "accepts i s c \<longleftrightarrow>
     documented i s c \<and> \<not> (i = GET_VERSION_COMMAND \<and> ctx_state c \<in> {WAITING_USER_VALIDATION, WAITING_SIGNING})"
  by (cases i) (auto simp: accepts_def documented_def)

text \<open>
  C19: The instructions let through are those of the documented protocol, with one departure. The byte is
  one of the protocol's, the instruction belongs to the flow, the state is one that the document has for it,
  and, except for the two instructions that no flow owns, the flow is the current one. The departure
  is \<open>GET_VERSION_COMMAND\<close>: the document lets it be sent in every state, and the code refuses it while
  the user is asked and while the signature is awaited.
\<close>

theorem check_instruction_iff:
  "check_instruction b s c = None \<longleftrightarrow>
    (\<exists>i. b = ins_value i \<and> documented i s c) \<and>
    \<not> (b = ins_value GET_VERSION_COMMAND \<and> ctx_state c \<in> {WAITING_USER_VALIDATION, WAITING_SIGNING})"
  unfolding check_instruction_accepts accepts_documented by (metis ins_value_inject)

section \<open>What the header must be\<close>

lemma validity_cases:
  assumes "check_apdu_validity apdu n w = (res, w')"
  obtains (refused) err where "w' = w" and "res = Inl err" and "err \<noteq> SUCCESS"
  | (received) i sub ext where "OFFSET_CDATA \<le> n" and "unat (apdu ! OFFSET_LC) = n - OFFSET_CDATA"
      and "rate_of_byte (apdu ! OFFSET_P1) \<noteq> None"
      and "subcommand_of_byte (apdu ! OFFSET_P2 AND SUBCOMMAND_MASK) = Some sub"
      and "accepts i sub (ctx w)" and "ext = apdu ! OFFSET_P2 AND EXTENSION_MASK"
      and "ext AND P2_EXTEND = 0 \<and> ext AND P2_MORE = 0 \<or>
           unified_flow sub \<and> i = PROCESS_TRANSACTION_RESPONSE_COMMAND"
      and "receive_data apdu (ins_value i) (apdu ! OFFSET_P1) (subcommand_value sub) ext (apdu ! OFFSET_LC) w = (res, w')"
proof -
  let ?sub = "subcommand_of_byte (apdu ! OFFSET_P2 AND SUBCOMMAND_MASK)"
  show ?thesis
  proof (cases "OFFSET_CDATA \<le> n \<and> unat (apdu ! OFFSET_LC) = n - OFFSET_CDATA \<and>
      apdu ! OFFSET_CLA = CLA \<and> rate_of_byte (apdu ! OFFSET_P1) \<noteq> None \<and> ?sub \<noteq> None")
    case False
    then show ?thesis
      using assms refused [of MALFORMED_APDU] refused [of CLASS_NOT_SUPPORTED] refused [of WRONG_P1]
        refused [of WRONG_P2_SUBCOMMAND]
      by (auto simp: check_apdu_validity_def Let_def split: if_splits)
  next
    case True
    then obtain sub where sub: "?sub = Some sub" by auto
    define ins where "ins = replace_legacy (apdu ! OFFSET_INS) sub"
    note unfold = assms [unfolded check_apdu_validity_def Let_def]
    show ?thesis
    proof (cases "check_instruction ins sub (ctx w)")
      case (Some err)
      then have "err \<noteq> SUCCESS"
        by (auto simp: check_instruction_def Let_def split: if_splits option.splits prod.splits)
      moreover have "res = Inl err \<and> w' = w"
        using unfold True sub Some by (auto simp: ins_def)
      ultimately show ?thesis using refused by blast
    next
      case None
      then obtain i where i: "ins = ins_value i" "accepts i sub (ctx w)"
        using check_instruction_accepts by blast
      let ?ext = "apdu ! OFFSET_P2 AND EXTENSION_MASK"
      show ?thesis
      proof (cases "check_extension ?ext ins sub")
        case (Some err)
        then have "err \<noteq> SUCCESS" by (auto simp: check_extension_def Let_def split: if_splits)
        moreover have "res = Inl err \<and> w' = w"
          using unfold True sub None Some by (simp add: ins_def [symmetric] not_less)
        ultimately show ?thesis using refused by blast
      next
        case okay: None
        then have ext: "?ext AND P2_EXTEND = 0 \<and> ?ext AND P2_MORE = 0 \<or>
            unified_flow sub \<and> i = PROCESS_TRANSACTION_RESPONSE_COMMAND"
          unfolding i(1) check_extension_def Let_def ins_value_inject by (auto split: if_splits)
        have "receive_data apdu ins (apdu ! OFFSET_P1) (subcommand_value sub) ?ext (apdu ! OFFSET_LC) w = (res, w')"
          using unfold True sub None okay by (simp add: ins_def [symmetric] not_less)
        from received [OF _ _ _ sub i(2) refl ext this [unfolded i(1)]] True show ?thesis by blast
      qed
    qed
  qed
qed

section \<open>A command in several pieces\<close>

text \<open>A piece of a \<open>PROCESS_TRANSACTION_RESPONSE_COMMAND\<close>, and the pieces of a split command.\<close>

definition piece :: "rate_e \<Rightarrow> subcommand_e \<Rightarrow> u8 \<Rightarrow> u8 list \<Rightarrow> mem" where
  "piece r s flags d =
     [CLA, ins_value PROCESS_TRANSACTION_RESPONSE_COMMAND, rate_value r, subcommand_value s OR flags,
      of_nat (length d)] @ d"

fun more_pieces :: "rate_e \<Rightarrow> subcommand_e \<Rightarrow> u8 list list \<Rightarrow> mem list" where
  "more_pieces r s [] = []"
| "more_pieces r s [d] = [piece r s P2_EXTEND d]"
| "more_pieces r s (d # d' # ds) = piece r s (P2_EXTEND OR P2_MORE) d # more_pieces r s (d' # ds)"

definition split_command :: "rate_e \<Rightarrow> subcommand_e \<Rightarrow> u8 list \<Rightarrow> u8 list list \<Rightarrow> mem list" where
  "split_command r s d ds = piece r s P2_MORE d # more_pieces r s ds"

fun receive_all :: "mem list \<Rightarrow> world \<Rightarrow> (swap_error_e + command_t) list \<times> world" where
  "receive_all [] w = ([], w)"
| "receive_all (apdu # apdus) w =
     (case check_apdu_validity apdu (length apdu) w of
        (res, w) \<Rightarrow> case receive_all apdus w of (rs, w) \<Rightarrow> (res # rs, w))"

definition piece_flags :: "u8 list" where
  "piece_flags = [P2_MORE, P2_EXTEND, P2_EXTEND OR P2_MORE]"

lemma flags_known: "P2_MORE \<in> set piece_flags" "P2_EXTEND \<in> set piece_flags" "P2_EXTEND OR P2_MORE \<in> set piece_flags"
  by (simp_all add: piece_flags_def)

lemma piece_p2:
  assumes "flags \<in> set piece_flags"
  shows "(subcommand_value s OR flags) AND SUBCOMMAND_MASK = subcommand_value s"
    and "(subcommand_value s OR flags) AND EXTENSION_MASK = flags"
    and "flags AND NOT (P2_NONE OR P2_MORE OR P2_EXTEND) = 0"
  using assms by (cases s; auto simp: piece_flags_def p2_defs)+

lemma rate_of_byte_None [simp]: "rate_of_byte (rate_value r) \<noteq> None"
  by simp

lemma receive_piece:
  assumes "flags \<in> set piece_flags" and "accepts PROCESS_TRANSACTION_RESPONSE_COMMAND s (ctx w)"
    and "unified_flow s" and "length d \<le> 255"
  shows "check_apdu_validity (piece r s flags d) (length (piece r s flags d)) w =
    receive_data (piece r s flags d) (ins_value PROCESS_TRANSACTION_RESPONSE_COMMAND) (rate_value r)
      (subcommand_value s) flags (of_nat (length d)) w"
proof -
  let ?p = "piece r s flags d" and ?i = "ins_value PROCESS_TRANSACTION_RESPONSE_COMMAND"
  have at: "?p ! OFFSET_CLA = CLA" "?p ! OFFSET_INS = ?i" "?p ! OFFSET_P1 = rate_value r"
    "?p ! OFFSET_P2 = subcommand_value s OR flags" "?p ! OFFSET_LC = of_nat (length d)"
    "length ?p = OFFSET_CDATA + length d"
    by (simp_all add: piece_def offset_defs)
  have len: "unat (of_nat (length d) :: u8) = length d" using assms(4) unat_of_nat_u8 by simp
  have "replace_legacy ?i s = ?i" by (simp add: replace_legacy_def)
  moreover have "check_instruction ?i s (ctx w) = None"
    using check_instruction_known assms(2) by blast
  moreover have "check_extension flags ?i s = None"
    using piece_p2(3) [OF assms(1)] assms(3) by (auto simp: check_extension_def)
  moreover have "(subcommand_value s OR flags) AND SUBCOMMAND_MASK = subcommand_value s"
    "(subcommand_value s OR flags) AND EXTENSION_MASK = flags"
    using piece_p2 [OF assms(1)] by blast+
  ultimately show ?thesis
    unfolding check_apdu_validity_def at Let_def
    by (simp add: len del: ins_value.simps subcommand_value.simps rate_value.simps)
qed

lemma piece_data: "mread OFFSET_CDATA (length d) (piece r s flags d) = d"
  by (simp add: piece_def offset_defs mread_def)

text \<open>What is in place while the pieces come in: \<open>xs\<close> is what was received.\<close>

definition receiving :: "rate_e \<Rightarrow> subcommand_e \<Rightarrow> u8 list \<Rightarrow> world \<Rightarrow> world" where
  "receiving r s xs w =
     w\<lparr>ctx := (ctx w)\<lparr>tx := mwrite 0 xs (tx (ctx w))\<rparr>,
       received_apdu := (received_apdu w)\<lparr>
         rcv_instruction := ins_value PROCESS_TRANSACTION_RESPONSE_COMMAND, rcv_rate := rate_value r,
         rcv_subcommand := subcommand_value s, rcv_data_length := of_nat (length xs),
         expecting_more := True\<rparr>\<rparr>"

definition received :: "rate_e \<Rightarrow> subcommand_e \<Rightarrow> u8 list \<Rightarrow> world \<Rightarrow> world" where
  "received r s xs w =
     (receiving r s xs w)\<lparr>received_apdu := (received_apdu (receiving r s xs w))\<lparr>expecting_more := False\<rparr>\<rparr>"

definition split_cmd :: "rate_e \<Rightarrow> subcommand_e \<Rightarrow> u8 list \<Rightarrow> command_t" where
  "split_cmd r s xs =
     \<lparr>cmd_ins = PROCESS_TRANSACTION_RESPONSE_COMMAND, cmd_rate = r, cmd_subcommand = s,
      cmd_data = In_raw_transaction, cmd_data_size = of_nat (length xs)\<rparr>"

lemma accepts_receiving [simp]: "accepts i s (ctx (receiving r s' xs w)) = accepts i s (ctx w)"
  by (simp add: receiving_def accepts_def)

lemma flags_bits:
  "P2_MORE AND P2_EXTEND = 0" "P2_MORE \<noteq> 0" "P2_EXTEND \<noteq> 0" "P2_EXTEND AND P2_MORE = 0"
  "(P2_EXTEND OR P2_MORE) AND P2_EXTEND \<noteq> 0" "(P2_EXTEND OR P2_MORE) AND P2_MORE \<noteq> 0"
  by (simp_all add: p2_defs)

lemma to_e_value [simp]:
  "to_command_e (ins_value i) = i" "to_rate_e (rate_value r) = r" "to_subcommand_e (subcommand_value s) = s"
  by (simp_all add: to_command_e_def to_rate_e_def to_subcommand_e_def del: ins_value.simps)

lemma first_piece:
  assumes "accepts PROCESS_TRANSACTION_RESPONSE_COMMAND s (ctx w)" and "unified_flow s" and "length d \<le> 255"
  shows "check_apdu_validity (piece r s P2_MORE d) (length (piece r s P2_MORE d)) w =
    (Inl SUCCESS, receiving r s d w)"
proof -
  have len: "unat (of_nat (length d) :: u8) = length d" using assms(3) unat_of_nat_u8 by simp
  have "(ucast (of_nat (length d) :: u8) :: u16) = of_nat (length d)"
    using assms(3) take_bit_nat_eq_self [of "length d" 8] by (simp add: unsigned_of_nat)
  then show ?thesis
    unfolding receive_piece [OF flags_known(1) assms]
    by (simp add: receive_data_def store_data_def flags_bits len piece_data receiving_def Let_def
        del: ins_value.simps subcommand_value.simps rate_value.simps)
qed

lemma next_piece:
  assumes "accepts PROCESS_TRANSACTION_RESPONSE_COMMAND s (ctx w)" and "unified_flow s" and "length d \<le> 255"
    and "length xs + length d \<le> sizeof_raw_transaction" and "length (tx (ctx w)) = sizeof_tx"
  shows "check_apdu_validity (piece r s (P2_EXTEND OR P2_MORE) d) (length (piece r s (P2_EXTEND OR P2_MORE) d))
      (receiving r s xs w) = (Inl SUCCESS, receiving r s (xs @ d) w)"
    and "check_apdu_validity (piece r s P2_EXTEND d) (length (piece r s P2_EXTEND d))
      (receiving r s xs w) = (Inr (split_cmd r s (xs @ d)), received r s (xs @ d) w)"
proof -
  have len: "unat (of_nat (length d) :: u8) = length d" using assms(3) unat_of_nat_u8 by simp
  have xs: "unat (of_nat (length xs) :: u16) = length xs"
    using assms(4) unat_of_nat_u16 by (simp add: sizeof_raw_transaction_def)
  have d: "(ucast (of_nat (length d) :: u8) :: u16) = of_nat (length d)"
    using assms(3) take_bit_nat_eq_self [of "length d" 8] by (simp add: unsigned_of_nat)
  have w: "mwrite (length xs) d (mwrite 0 xs (tx (ctx w))) = mwrite 0 (xs @ d) (tx (ctx w))"
    using assms(4,5) by (intro mwrite_mwrite_adjacent) (simp_all add: layout_defs)
  have acc: "accepts PROCESS_TRANSACTION_RESPONSE_COMMAND s (ctx (receiving r s xs w))" using assms(1) by simp
  let ?w = "receiving r s xs w" and ?i = "ins_value PROCESS_TRANSACTION_RESPONSE_COMMAND"
  have g: "expecting_more (received_apdu ?w)" "rcv_instruction (received_apdu ?w) = ?i"
    "rcv_rate (received_apdu ?w) = rate_value r" "rcv_subcommand (received_apdu ?w) = subcommand_value s"
    "rcv_data_length (received_apdu ?w) = of_nat (length xs)"
    by (simp_all add: receiving_def del: ins_value.simps)
  have more: "?w\<lparr>ctx := (ctx ?w)\<lparr>tx := mwrite (length xs) d (tx (ctx ?w))\<rparr>,
      received_apdu := (received_apdu ?w)\<lparr>rcv_data_length := of_nat (length xs) + of_nat (length d)\<rparr>\<rparr> =
      receiving r s (xs @ d) w"
    using w by (simp add: receiving_def del: ins_value.simps)
  note eval = receive_data_def store_data_def flags_bits len piece_data Let_def xs d g more
  note keep = ins_value.simps subcommand_value.simps rate_value.simps
  show "check_apdu_validity (piece r s (P2_EXTEND OR P2_MORE) d) (length (piece r s (P2_EXTEND OR P2_MORE) d))
      (receiving r s xs w) = (Inl SUCCESS, receiving r s (xs @ d) w)"
    unfolding receive_piece [OF flags_known(3) acc assms(2,3)]
    using assms(4) by (simp add: eval del: keep)
  show "check_apdu_validity (piece r s P2_EXTEND d) (length (piece r s P2_EXTEND d))
      (receiving r s xs w) = (Inr (split_cmd r s (xs @ d)), received r s (xs @ d) w)"
    unfolding receive_piece [OF flags_known(2) acc assms(2,3)]
    using assms(4) by (simp add: eval del: keep) (simp add: receiving_def received_def split_cmd_def del: keep)
qed

lemma receive_more:
  assumes "accepts PROCESS_TRANSACTION_RESPONSE_COMMAND s (ctx w)" and "unified_flow s" and "length (tx (ctx w)) = sizeof_tx"
    and "ds \<noteq> []" and "list_all (\<lambda>d. length d \<le> 255) ds" and "length xs + length (concat ds) \<le> sizeof_raw_transaction"
  shows "receive_all (more_pieces r s ds) (receiving r s xs w) =
    (replicate (length ds - 1) (Inl SUCCESS) @ [Inr (split_cmd r s (xs @ concat ds))], received r s (xs @ concat ds) w)"
  using assms(4-)
proof (induction ds arbitrary: xs)
  case (Cons d ds)
  then show ?case
    using Cons.IH [of "xs @ d"] next_piece [OF assms(1,2) _ _ assms(3), of d xs r]
    by (cases ds) (simp_all add: numeral_2_eq_2)
qed simp

text \<open>
  C32: A split command is reassembled. In a state that accepts the transaction of a unified flow, when a
  payload of at most 512 bytes arrives in pieces of at most 255, every piece but the last is
  answered with \<open>SUCCESS\<close>, and the last yields the command, whose data are exactly the payload; of
  the context only the first bytes of the reception buffer have changed.
\<close>

theorem split_command_reassembled:
  assumes "accepts PROCESS_TRANSACTION_RESPONSE_COMMAND s (ctx w)" and "unified_flow s"
    and "length (tx (ctx w)) = sizeof_tx"
    and "ds \<noteq> []" and "list_all (\<lambda>d. length d \<le> 255) (d # ds)"
    and "length (concat (d # ds)) \<le> sizeof_raw_transaction"
  shows "\<exists>w'. receive_all (split_command r s d ds) w =
      (replicate (length ds) (Inl SUCCESS) @ [Inr (split_cmd r s (concat (d # ds)))], w') \<and>
    data_bytes (split_cmd r s (concat (d # ds))) (ctx w') = concat (d # ds) \<and>
    ctx w' = (ctx w)\<lparr>tx := concat (d # ds) @ drop (length (concat (d # ds))) (tx (ctx w))\<rparr>"
proof -
  let ?xs = "concat (d # ds)"
  have "receive_all (split_command r s d ds) w =
      (replicate (length ds) (Inl SUCCESS) @ [Inr (split_cmd r s ?xs)], received r s ?xs w)"
    using receive_more [OF assms(1-4), of d r] first_piece [OF assms(1,2), of d r] assms(4-)
    by (cases ds) (simp_all add: split_command_def)
  moreover have ctx: "ctx (received r s ?xs w) = (ctx w)\<lparr>tx := ?xs @ drop (length ?xs) (tx (ctx w))\<rparr>"
    by (simp add: received_def receiving_def mwrite_def)
  moreover have "data_bytes (split_cmd r s ?xs) (ctx (received r s ?xs w)) = ?xs"
    using assms(6) unat_of_nat_u16 [of "length ?xs"]
    by (simp add: ctx data_bytes_def data_pointer_def split_cmd_def mread_def sizeof_raw_transaction_def
        del: concat.simps)
  ultimately show ?thesis by blast
qed

section \<open>What reception changes, and what it delivers\<close>

text \<open>While a command is being received, what was received fits the buffer.\<close>

definition reception_ok :: "world \<Rightarrow> bool" where
  "reception_ok w \<longleftrightarrow>
     length (tx (ctx w)) = sizeof_tx \<and>
     (expecting_more (received_apdu w) \<longrightarrow>
        unat (rcv_data_length (received_apdu w)) \<le> sizeof_raw_transaction)"

lemma unat_add_small:
  "unat (a :: u16) + unat (b :: u8) \<le> 512 \<Longrightarrow> unat (a + ucast b) = unat a + unat b"
  by (simp add: unat_word_ariths)

lemma receive_data_stored:
  assumes "receive_data apdu ins r s ext dl w = (res, w')" and "store_data apdu ins r s ext dl w = (err, w1)"
  shows "\<exists>x. w' = w1\<lparr>received_apdu := (received_apdu w1)\<lparr>expecting_more := x\<rparr>\<rparr> \<and>
    (x \<longrightarrow> expecting_more (received_apdu w1))"
proof -
  have keep: "w1 = w1\<lparr>received_apdu := (received_apdu w1)\<lparr>expecting_more := expecting_more (received_apdu w1)\<rparr>\<rparr>"
    by simp
  have "w' = w1 \<or> w' = w1\<lparr>received_apdu := (received_apdu w1)\<lparr>expecting_more := False\<rparr>\<rparr>"
    using assms by (auto simp: receive_data_def Let_def split: option.splits if_splits)
  then show ?thesis using keep by metis
qed

text \<open>A piece stored at \<open>off\<close> that ends within the reception buffer.\<close>

lemma store_frame:
  assumes "reception_ok w" and "OFFSET_CDATA + unat dl \<le> length apdu" and "off + unat dl \<le> sizeof_raw_transaction"
  shows "same_outside 0 sizeof_raw_transaction (tx (ctx w)) (mwrite off (mread OFFSET_CDATA (unat dl) apdu) (tx (ctx w)))"
    and "length (mwrite off (mread OFFSET_CDATA (unat dl) apdu) (tx (ctx w))) = sizeof_tx"
  using assms by (simp_all add: same_outside_mwrite length_mwrite length_mread reception_ok_def layout_defs)

lemma store_data_frame:
  assumes "store_data apdu ins r s ext dl w = (err, w1)" and "OFFSET_CDATA + unat dl \<le> length apdu"
    and "reception_ok w"
  shows "\<exists>t a. w1 = w\<lparr>ctx := (ctx w)\<lparr>tx := t\<rparr>, received_apdu := a\<rparr> \<and>
      same_outside 0 sizeof_raw_transaction (tx (ctx w)) t \<and> length t = sizeof_tx \<and>
      (err = None \<longrightarrow> unat (rcv_data_length a) \<le> sizeof_raw_transaction) \<and> (err \<noteq> None \<longrightarrow> w1 = w) \<and>
      (ext AND P2_EXTEND = 0 \<and> ext AND P2_MORE = 0 \<longrightarrow> t = tx (ctx w))"
proof -
  have dl: "0 + unat dl \<le> sizeof_raw_transaction"
    using unat_u8_less [of dl] by (simp add: sizeof_raw_transaction_def)
  note first = store_frame [OF assms(3,2) dl]
  have same: "same_outside 0 sizeof_raw_transaction (tx (ctx w)) (tx (ctx w))" "length (tx (ctx w)) = sizeof_tx"
    using assms(3) by (simp_all add: same_outside_def reception_ok_def)
  let ?d = "mread OFFSET_CDATA (unat dl) apdu"
  let ?n = "rcv_data_length (received_apdu w)"
  show ?thesis
  proof (cases "ext AND P2_EXTEND = 0")
    case True
    define t where "t = (if ext AND P2_MORE \<noteq> 0 then mwrite 0 ?d (tx (ctx w)) else tx (ctx w))"
    have w1: "w1 = w\<lparr>ctx := (ctx w)\<lparr>tx := t\<rparr>, received_apdu := received_apdu w1\<rparr>" "err = None"
      "rcv_data_length (received_apdu w1) = ucast dl"
      using True assms(1) by (auto simp: store_data_def Let_def t_def split: if_splits)
    have "same_outside 0 sizeof_raw_transaction (tx (ctx w)) t" "length t = sizeof_tx"
      using first same by (simp_all add: t_def)
    moreover have "unat (rcv_data_length (received_apdu w1)) \<le> sizeof_raw_transaction" using w1(3) dl by simp
    moreover have "ext AND P2_MORE = 0 \<Longrightarrow> t = tx (ctx w)" by (simp add: t_def)
    ultimately show ?thesis using w1(1,2) by blast
  next
    case False
    show ?thesis
    proof (cases err)
      case None
      then have le: "unat ?n + unat dl \<le> sizeof_raw_transaction"
        and w1: "w1 = w\<lparr>ctx := (ctx w)\<lparr>tx := mwrite (unat ?n) ?d (tx (ctx w))\<rparr>, received_apdu := received_apdu w1\<rparr>"
          "rcv_data_length (received_apdu w1) = ?n + ucast dl"
        using False assms(1) by (auto simp: store_data_def Let_def split: if_splits)
      have "unat (rcv_data_length (received_apdu w1)) \<le> sizeof_raw_transaction"
        using w1(2) le unat_add_small [of ?n dl] by (simp add: sizeof_raw_transaction_def)
      then show ?thesis using w1(1) store_frame [OF assms(3,2) le] None False by blast
    next
      case (Some e)
      then have "w1 = w" using False assms(1) by (auto simp: store_data_def Let_def split: if_splits)
      then have "w1 = w\<lparr>ctx := (ctx w)\<lparr>tx := tx (ctx w)\<rparr>, received_apdu := received_apdu w\<rparr>" by simp
      then show ?thesis using same Some False \<open>w1 = w\<close> by blast
    qed
  qed
qed

lemma receive_data_frame:
  assumes "receive_data apdu ins r s ext dl w = (res, w')" and "OFFSET_CDATA + unat dl \<le> length apdu"
    and "reception_ok w"
  shows "\<exists>t a. w' = w\<lparr>ctx := (ctx w)\<lparr>tx := t\<rparr>, received_apdu := a\<rparr> \<and>
      same_outside 0 sizeof_raw_transaction (tx (ctx w)) t \<and> reception_ok w' \<and>
      (ext AND P2_EXTEND = 0 \<and> ext AND P2_MORE = 0 \<longrightarrow> t = tx (ctx w))"
proof -
  obtain err w1 where st: "store_data apdu ins r s ext dl w = (err, w1)" by fastforce
  obtain t a where f: "w1 = w\<lparr>ctx := (ctx w)\<lparr>tx := t\<rparr>, received_apdu := a\<rparr>"
    "same_outside 0 sizeof_raw_transaction (tx (ctx w)) t" "length t = sizeof_tx"
    "err = None \<longrightarrow> unat (rcv_data_length a) \<le> sizeof_raw_transaction" "err \<noteq> None \<longrightarrow> w1 = w"
    "ext AND P2_EXTEND = 0 \<and> ext AND P2_MORE = 0 \<longrightarrow> t = tx (ctx w)"
    using store_data_frame [OF st assms(2,3)] by blast
  obtain x where x: "w' = w1\<lparr>received_apdu := (received_apdu w1)\<lparr>expecting_more := x\<rparr>\<rparr>"
    "x \<longrightarrow> expecting_more (received_apdu w1)"
    using receive_data_stored [OF assms(1) st] by blast
  have "reception_ok w1" using f(1,3-5) assms(3) by (cases err) (simp_all add: reception_ok_def)
  then have "reception_ok w'" using x by (simp add: reception_ok_def)
  moreover have "w' = w\<lparr>ctx := (ctx w)\<lparr>tx := t\<rparr>, received_apdu := received_apdu w'\<rparr>"
    using x(1) f(1) by simp
  ultimately show ?thesis using f(2,6) by blast
qed

lemma validity_frame:
  assumes "check_apdu_validity apdu n w = (res, w')" and "n \<le> length apdu" and "reception_ok w"
  shows "\<exists>t a. w' = w\<lparr>ctx := (ctx w)\<lparr>tx := t\<rparr>, received_apdu := a\<rparr> \<and>
      same_outside 0 sizeof_raw_transaction (tx (ctx w)) t \<and> reception_ok w' \<and>
      (t = tx (ctx w) \<or> ctx_state (ctx w) = PROVIDER_CHECKED \<and> unified_flow (ctx_subcommand (ctx w)))"
  using assms(1)
proof (cases rule: validity_cases)
  case (refused err)
  then have "w' = w\<lparr>ctx := (ctx w)\<lparr>tx := tx (ctx w)\<rparr>, received_apdu := received_apdu w\<rparr>"
    "same_outside 0 sizeof_raw_transaction (tx (ctx w)) (tx (ctx w))" "reception_ok w'"
    using assms(3) by (simp_all add: same_outside_def)
  then show ?thesis by blast
next
  case (received i sub ext)
  have "OFFSET_CDATA + unat (apdu ! OFFSET_LC) \<le> length apdu" using received(1,2) assms(2) by simp
  from receive_data_frame [OF received(8) this assms(3)] received(5,7) show ?thesis
    by (auto simp: accepts_def flowless_def)
qed

text \<open>
  C33: Reception touches nothing else. Whatever the bytes received, of all the globals only the
  reassembly data and the first 512 bytes of the transaction buffer can change, and the buffer only
  in the state in which a transaction is expected, in a unified flow; where the decoded transaction
  is in use no reception overwrites it.
\<close>

theorem check_apdu_validity_frame:
  assumes "check_apdu_validity apdu n w = (res, w')" and "n \<le> length apdu" and "reception_ok w"
  shows "\<exists>t a. w' = w\<lparr>ctx := (ctx w)\<lparr>tx := t\<rparr>, received_apdu := a\<rparr> \<and>
      same_outside 0 sizeof_raw_transaction (tx (ctx w)) t \<and> reception_ok w' \<and>
      (t = tx (ctx w) \<or> ctx_state (ctx w) = PROVIDER_CHECKED \<and> unified_flow (ctx_subcommand (ctx w)))"
  by (rule validity_frame [OF assms])

lemma validity_delivers:
  assumes "check_apdu_validity apdu n w = (Inr cmd, w')" and "n \<le> length apdu" and "reception_ok w"
  shows "accepts (cmd_ins cmd) (cmd_subcommand cmd) (ctx w) \<and> data_ok cmd (ctx w') \<and>
    \<not> expecting_more (received_apdu w') \<and>
    (cmd_data cmd = In_apdu_buffer apdu \<and> tx (ctx w') = tx (ctx w) \<and>
       data_bytes cmd (ctx w') = mread OFFSET_CDATA (n - OFFSET_CDATA) apdu \<or>
     cmd_data cmd = In_raw_transaction \<and> cmd_ins cmd = PROCESS_TRANSACTION_RESPONSE_COMMAND \<and>
       unified_flow (cmd_subcommand cmd))"
  using assms(1)
proof (cases rule: validity_cases)
  case (received i sub ext)
  let ?dl = "apdu ! OFFSET_LC" and ?g = "received_apdu w"
  have room: "OFFSET_CDATA + unat ?dl \<le> length apdu" using received(1,2) assms(2) by simp
  have r: "to_rate_e (apdu ! OFFSET_P1) = r" if "rate_of_byte (apdu ! OFFSET_P1) = Some r" for r
    using that by (simp add: to_rate_e_def)
  note frame = receive_data_frame [OF received(8) room assms(3)]
  note keep = ins_value.simps subcommand_value.simps
  show ?thesis
  proof (cases "ext AND P2_EXTEND = 0 \<and> ext AND P2_MORE = 0")
    case True
    then have "cmd_ins cmd = i" "cmd_subcommand cmd = sub" "cmd_data cmd = In_apdu_buffer apdu"
      "cmd_data_size cmd = ucast ?dl" "\<not> expecting_more (received_apdu w')" "ctx w' = ctx w"
      using received(8) by (auto simp: receive_data_def store_data_def Let_def simp del: keep)
    then show ?thesis
      using received(2,5) room by (simp add: data_ok_def data_bytes_def data_pointer_def)
  next
    case False
    then have nt: "unified_flow sub" "i = PROCESS_TRANSACTION_RESPONSE_COMMAND" using received(7) by auto
    have ext: "ext AND P2_MORE = 0" "ext AND P2_EXTEND \<noteq> 0" using False received(8)
      by (auto simp: receive_data_def split: if_splits option.splits prod.splits)
    then have "cmd_ins cmd = i" "cmd_subcommand cmd = sub" "cmd_data cmd = In_raw_transaction"
      "cmd_data_size cmd = rcv_data_length ?g + ucast ?dl" "\<not> expecting_more (received_apdu w')"
      and le: "unat (rcv_data_length ?g) + unat ?dl \<le> sizeof_raw_transaction"
      using received(8) by (auto simp: receive_data_def store_data_def Let_def simp del: keep split: if_splits)
    then show ?thesis
      using received(5) nt frame unat_add_small [of "rcv_data_length ?g" ?dl] assms(3)
      by (auto simp: data_ok_def data_pointer_def reception_ok_def layout_defs)
  qed
qed simp

text \<open>
  C34: What reception delivers. A command comes out only when the protocol's table accepts it, with its
  data inside the buffer they are in; the data are the bytes after the header of this message, or,
  for the transaction of a unified flow alone, the reassembled ones.
\<close>

theorem check_apdu_validity_delivers:
  assumes "check_apdu_validity apdu n w = (Inr cmd, w')" and "n \<le> length apdu" and "reception_ok w"
  shows "accepts (cmd_ins cmd) (cmd_subcommand cmd) (ctx w) \<and> data_ok cmd (ctx w') \<and>
    \<not> expecting_more (received_apdu w') \<and>
    (cmd_data cmd = In_apdu_buffer apdu \<and> tx (ctx w') = tx (ctx w) \<and>
       data_bytes cmd (ctx w') = mread OFFSET_CDATA (n - OFFSET_CDATA) apdu \<or>
     cmd_data cmd = In_raw_transaction \<and> cmd_ins cmd = PROCESS_TRANSACTION_RESPONSE_COMMAND \<and>
       unified_flow (cmd_subcommand cmd))"
  by (rule validity_delivers [OF assms])

lemma validity_data_size:
  assumes "check_apdu_validity apdu n w = (Inr cmd, w')" and "n \<le> length apdu" and "reception_ok w"
  shows "unat (cmd_data_size cmd) \<le> sizeof_raw_transaction"
  using assms(1)
proof (cases rule: validity_cases)
  case (received i sub ext)
  let ?dl = "apdu ! OFFSET_LC"
  have "cmd_data_size cmd = ucast ?dl \<or>
      cmd_data_size cmd = rcv_data_length (received_apdu w) + ucast ?dl \<and>
      unat (rcv_data_length (received_apdu w)) + unat ?dl \<le> sizeof_raw_transaction"
    using received(8)
    by (auto simp: receive_data_def store_data_def Let_def simp del: ins_value.simps subcommand_value.simps
        split: if_splits)
  then show ?thesis
    using unat_u8_less [of ?dl] unat_add_small [of "rcv_data_length (received_apdu w)" ?dl]
    by (auto simp: sizeof_raw_transaction_def)
qed simp

section \<open>Concrete instances\<close>

lemma reception_ok_world_in: "reception_ok (world_in st s)"
  by (simp add: reception_ok_def world_in_def zero_context_def zero_apdu_def sizeof_tx_def)

lemma accepts_process_world_in:
  "accepts PROCESS_TRANSACTION_RESPONSE_COMMAND s (ctx (world_in PROVIDER_CHECKED s))"
  by (simp add: accepts_def flow_allows_def world_in_def)

theorem split_command_reassembled_witness:
  "\<exists>w'. receive_all (split_command FIXED SELL_NG [1, 2] [[3], [4, 5]]) (world_in PROVIDER_CHECKED SELL_NG) =
      (replicate 2 (Inl SUCCESS) @ [Inr (split_cmd FIXED SELL_NG [1, 2, 3, 4, 5])], w') \<and>
    take 5 (tx (ctx w')) = [1, 2, 3, 4, 5]"
proof -
  let ?w = "world_in PROVIDER_CHECKED SELL_NG"
  have len: "length (tx (ctx ?w)) = sizeof_tx" by (simp add: world_in_def zero_context_def)
  obtain w' where "receive_all (split_command FIXED SELL_NG [1, 2] [[3], [4, 5]]) ?w =
      (replicate 2 (Inl SUCCESS) @ [Inr (split_cmd FIXED SELL_NG [1, 2, 3, 4, 5])], w')"
    "take 5 (tx (ctx w')) = [1, 2, 3, 4, 5]"
    using split_command_reassembled [OF accepts_process_world_in _ len, of "[[3], [4, 5]]" "[1, 2]" FIXED]
    by (auto simp: sizeof_raw_transaction_def numeral_2_eq_2)
  then show ?thesis by simp
qed

theorem check_apdu_validity_frame_witness:
  "case check_apdu_validity (piece FIXED SELL_NG P2_MORE [7, 8]) 7 (world_in PROVIDER_CHECKED SELL_NG) of
     (res, w') \<Rightarrow>
       same_outside 0 sizeof_raw_transaction (tx (ctx (world_in PROVIDER_CHECKED SELL_NG))) (tx (ctx w')) \<and>
       sent w' = sent (world_in PROVIDER_CHECKED SELL_NG)"
proof -
  let ?w = "world_in PROVIDER_CHECKED SELL_NG" and ?a = "piece FIXED SELL_NG P2_MORE [7, 8]"
  obtain res w' where r: "check_apdu_validity ?a 7 ?w = (res, w')" by fastforce
  have "7 \<le> length ?a" by (simp add: piece_def)
  from check_apdu_validity_frame [OF r this reception_ok_world_in]
  show ?thesis unfolding r prod.case by fastforce
qed

theorem check_apdu_validity_delivers_witness:
  "check_apdu_validity [CLA, 0x02, 0, 0, 1, 9] 6 (world_in PROVIDER_SET SWAP) =
     (Inr \<lparr>cmd_ins = GET_VERSION_COMMAND, cmd_rate = FIXED, cmd_subcommand = SWAP,
           cmd_data = In_apdu_buffer [CLA, 0x02, 0, 0, 1, 9], cmd_data_size = 1\<rparr>,
      (world_in PROVIDER_SET SWAP)\<lparr>received_apdu := zero_apdu\<lparr>rcv_instruction := 2, rcv_data_length := 1\<rparr>\<rparr>) \<and>
   data_bytes \<lparr>cmd_ins = GET_VERSION_COMMAND, cmd_rate = FIXED, cmd_subcommand = SWAP,
           cmd_data = In_apdu_buffer [CLA, 0x02, 0, 0, 1, 9], cmd_data_size = 1\<rparr>
     ((ctx (world_in PROVIDER_SET SWAP))) = [9]"
proof -
  let ?w = "world_in PROVIDER_SET SWAP" and ?a = "[CLA, 0x02, 0, 0, 1, 9] :: mem"
  let ?cmd = "\<lparr>cmd_ins = GET_VERSION_COMMAND, cmd_rate = FIXED, cmd_subcommand = SWAP,
           cmd_data = In_apdu_buffer ?a, cmd_data_size = 1\<rparr>"
  let ?w' = "?w\<lparr>received_apdu := zero_apdu\<lparr>rcv_instruction := 2, rcv_data_length := 1\<rparr>\<rparr>"
  have run: "check_apdu_validity ?a 6 ?w = (Inr ?cmd, ?w')"
    by code_simp
  from check_apdu_validity_delivers [OF run _ reception_ok_world_in] have "data_bytes ?cmd (ctx ?w') = [9]"
    by (simp add: offset_defs mread_def)
  with run show ?thesis by (simp add: world_in_def)
qed

end
