(* ===== verification/Session_Start.thy ===== *)
theory Session_Start
  imports Swap_Context
begin

text \<open>
  The commands that need no session: \<^verbatim>\<open>src/init.c\<close>, \<^verbatim>\<open>src/start_new_transaction.c\<close>,
  \<^verbatim>\<open>src/get_version_handler.c\<close> and \<^verbatim>\<open>src/get_challenge_handler.c\<close>. A new transaction clears the whole
  context, loads the key of the signer of the configurations and draws the identifier that the
  partner has to sign with the transaction.
\<close>

section \<open>The context of a new transaction\<close>

definition LedgerPubKey :: "platform \<Rightarrow> u8 list" where
  "LedgerPubKey P =
     (if TEST_PUBLIC_KEY P then
        [0x4,
         0x20, 0xDA, 0x62, 0x00, 0x3C, 0x0C, 0xE0, 0x97,
         0xE3, 0x36, 0x44, 0xA1, 0x0F, 0xE4, 0xC3, 0x04,
         0x54, 0x06, 0x9A, 0x44, 0x54, 0xF0, 0xFA, 0x9D,
         0x4E, 0x84, 0xF4, 0x50, 0x91, 0x42, 0x9B, 0x52,
         0x20, 0xAF, 0x9E, 0x35, 0xC0, 0xB2, 0xD9, 0x28,
         0x93, 0x80, 0x13, 0x73, 0x07, 0xDE, 0x4D, 0xD1,
         0xD4, 0x18, 0x42, 0x8C, 0xF2, 0x1A, 0x93, 0xB3,
         0x35, 0x61, 0xBB, 0x09, 0xD8, 0x8F, 0xE5, 0x79]
      else if OLD_TEST_PUBLIC_KEY P then
        [0x4,
         0x5,  0xC5, 0x2E, 0xC5, 0xFE, 0x24, 0x5A, 0x55,
         0x7B, 0x86, 0x1D, 0x22, 0x18, 0x50, 0x1A, 0x81,
         0x2D, 0x32, 0xE0, 0x34, 0xE1, 0x5E, 0x9D, 0x96,
         0x1C, 0x1B, 0x1A, 0x13, 0x8C, 0x7F, 0xB1, 0x49,
         0x6B, 0x4F, 0xBA, 0x66, 0x65, 0x56, 0x66, 0x62,
         0x3E, 0xB7, 0x8C, 0x93, 0xE9, 0xF0, 0x0,  0x8F,
         0xCC, 0xA6, 0xA,  0x53, 0x85, 0x88, 0x13, 0x1A,
         0x2A, 0xC7, 0xBA, 0x98, 0xE1, 0xF6, 0x20, 0xCE]
      else
        [0x04,
         0x0c, 0x17, 0xfd, 0xc5, 0xc0, 0x62, 0x9e, 0xca,
         0x77, 0xe0, 0xa7, 0x10, 0xcd, 0xe9, 0x66, 0xba,
         0xe1, 0xa3, 0x2c, 0x84, 0xe3, 0x83, 0xe3, 0x28,
         0xa5, 0x52, 0x1c, 0x28, 0x1e, 0xfb, 0xa4, 0x99,
         0x07, 0x44, 0xea, 0xbc, 0xb5, 0x91, 0xb0, 0xd8,
         0xbe, 0x59, 0x8a, 0x2f, 0xfa, 0xca, 0x8d, 0x29,
         0xbc, 0x79, 0xfb, 0x20, 0x68, 0x6c, 0xc7, 0xc0,
         0x06, 0x0c, 0x53, 0x86, 0x2c, 0x5c, 0xe3, 0x8c])"

definition init_application_context :: "platform \<Rightarrow> world \<Rightarrow> int \<times> world" where
  "init_application_context P w =
     (let w = w\<lparr>ctx := zero_context\<rparr> in
      case cx_ecfp_init_public_key P CX_CURVE_SECP256K1 (LedgerPubKey P) of
        None \<Rightarrow> (-1, w)
      | Some key \<Rightarrow> (0, w\<lparr>ctx := (ctx w)\<lparr>ledger_public_key := key, ctx_state := INITIAL_STATE\<rparr>\<rparr>))"

definition ui_idle :: "world \<Rightarrow> world" where
  \<comment> \<open>of \<^verbatim>\<open>ui/menu_nbgl.c\<close>: the home screen\<close>
  "ui_idle w = w\<lparr>screen := Home\<rparr>"

definition testing_tx_id :: "u8 list" where
  "testing_tx_id =
     [0x35, 0x0a, 0xea, 0x0c, 0x97, 0xf7, 0x47, 0xf1,
      0xd0, 0xf7, 0x60, 0x81, 0x46, 0x14, 0xa4, 0x75,
      0x23, 0x80, 0x1b, 0x1a, 0xeb, 0x7d, 0x0b, 0xcb,
      0xba, 0xa2, 0xa4, 0xf4, 0x6b, 0xf8, 0x18, 0x4b]"

text \<open>The identifier of a transaction: ten letters in the first flow, 32 bytes in the others.\<close>

definition new_transaction_id :: "platform \<Rightarrow> outside \<Rightarrow> subcommand_e \<Rightarrow> u8 list" where
  "new_transaction_id P e s =
     (if s = SWAP then
        map (\<lambda>i. if TESTING P then of_nat (65 + 42 mod 26) else of_nat (65 + unat (rng_u8 e i) mod 26))
          [0..<sizeof_swap_id]
      else if TESTING P then testing_tx_id
      else map (rng_bytes e) [0..<sizeof_unified_id])"

definition start_new_transaction :: "platform \<Rightarrow> outside \<Rightarrow> command_t \<Rightarrow> world \<Rightarrow> int \<times> world" where
  "start_new_transaction P e cmd w =
     (let w = (if ctx_state (ctx w) = WAITING_SIGNING then ui_idle w else w) in
      case init_application_context P w of
        (ret, w) \<Rightarrow>
          if ret \<noteq> 0 then reply_error e INTERNAL_ERROR w
          else
            let tx_id = new_transaction_id P e (cmd_subcommand cmd);
                w = upd_ctx (\<lambda>c. c\<lparr>device_transaction_id := mwrite 0 tx_id (device_transaction_id c)\<rparr>) w
            in case io_send_response_buffers e tx_id (status_word SUCCESS) w of
                 (n, w) \<Rightarrow>
                   if n < 0 then (-1, w)
                   else (0, upd_ctx (\<lambda>c. c\<lparr>ctx_state := WAITING_TRANSACTION,
                                          ctx_subcommand := cmd_subcommand cmd\<rparr>) w))"

section \<open>Version and challenge\<close>

definition get_version_handler :: "platform \<Rightarrow> outside \<Rightarrow> world \<Rightarrow> int \<times> world" where
  "get_version_handler P e w =
     (case version_bytes P of
        (major, minor, patch) \<Rightarrow>
          case io_send_response_buffers e [major, minor, patch] (status_word SUCCESS) w of
            (n, w) \<Rightarrow> if n < 0 then (-1, w) else (0, w))"

definition roll_challenge :: "platform \<Rightarrow> outside \<Rightarrow> world \<Rightarrow> world" where
  "roll_challenge P e w =
     w\<lparr>challenge := (if FIXED_TLV_CHALLENGE P then 0xdeadbeef else rng_u32 e)\<rparr>"

definition get_challenge :: "world \<Rightarrow> u32" where
  "get_challenge w = challenge w"

definition u4be_encode :: "u32 \<Rightarrow> u8 list" where
  \<comment> \<open>\<open>U4BE_ENCODE\<close> of the SDK\<close>
  "u4be_encode v = [ucast (drop_bit 24 v), ucast (drop_bit 16 v), ucast (drop_bit 8 v), ucast v]"

definition get_challenge_handler :: "outside \<Rightarrow> world \<Rightarrow> int \<times> world" where
  "get_challenge_handler e w =
     (case io_send_response_buffers e (u4be_encode (challenge w)) (status_word SUCCESS) w of
        (n, w) \<Rightarrow> if n < 0 then (-1, w) else (0, w))"

section \<open>What they do\<close>

lemma length_new_transaction_id:
  "length (new_transaction_id P e s) = (if s = SWAP then sizeof_swap_id else sizeof_unified_id)"
  by (simp add: new_transaction_id_def testing_tx_id_def sizeof_unified_id_def)

lemmas start_defs = start_new_transaction_def init_application_context_def ui_idle_def Let_def reply_defs

interpretation start_handler: handler "\<lambda>e cmd w. returning (start_new_transaction P e cmd w)"
  "{INITIAL_STATE, WAITING_TRANSACTION}" "\<lambda>_ _ _. True" for P
proof (unfold_locales, goal_cases)
  case (1 e cmd w r w')
  then show ?case by (auto simp: start_defs split: option.splits if_splits)
next
  case (2 e cmd w r w')
  have len: "length (mwrite 0 (new_transaction_id P e (cmd_subcommand cmd)) (device_transaction_id zero_context)) =
      sizeof_unified_id"
    by (subst length_mwrite)
       (simp_all add: length_new_transaction_id zero_context_def sizeof_swap_id_def sizeof_unified_id_def)
  from 2 zero_context_sizes len show ?case
    by (auto simp: start_defs ctx_sizes_def split: option.splits if_splits)
next
  case (3 e cmd w r w')
  then show ?case
    by (auto simp: start_defs zero_context_def split: option.splits if_splits)
qed

text \<open>The context right after the start of a transaction: nothing of the previous one is left.\<close>

definition fresh_context :: "public_key \<Rightarrow> u8 list \<Rightarrow> subcommand_e \<Rightarrow> swap_app_context" where
  "fresh_context key tx_id s =
     zero_context\<lparr>ledger_public_key := key,
       device_transaction_id := tx_id @ replicate (sizeof_unified_id - length tx_id) 0,
       ctx_state := WAITING_TRANSACTION, ctx_subcommand := s\<rparr>"

lemma start_new_transaction_run:
  assumes "cx_ecfp_init_public_key P CX_CURVE_SECP256K1 (LedgerPubKey P) = Some key" and "io_ok e"
  shows "start_new_transaction P e cmd w =
    (0, w\<lparr>ctx := fresh_context key (new_transaction_id P e (cmd_subcommand cmd)) (cmd_subcommand cmd),
          sent := sent w @ [(new_transaction_id P e (cmd_subcommand cmd), status_word SUCCESS)],
          screen := (if ctx_state (ctx w) = WAITING_SIGNING then Home else screen w)\<rparr>)"
proof -
  let ?id = "new_transaction_id P e (cmd_subcommand cmd)"
  have "mwrite 0 ?id (device_transaction_id zero_context) = ?id @ replicate (sizeof_unified_id - length ?id) 0"
    by (simp add: mwrite_def zero_context_def)
  with assms show ?thesis
    by (simp add: start_defs fresh_context_def)
qed

text \<open>
  C35: A new transaction starts from a context in which everything but the key of the signer, the
  new identifier and the flow is zero, whatever the state before; the identifier, and nothing
  else, is sent back. A modal of an interrupted signature is dismissed.
\<close>

theorem start_new_transaction_fresh:
  assumes "cx_ecfp_init_public_key P CX_CURVE_SECP256K1 (LedgerPubKey P) = Some key" and "io_ok e"
  shows "start_new_transaction P e cmd w =
    (0, w\<lparr>ctx := fresh_context key (new_transaction_id P e (cmd_subcommand cmd)) (cmd_subcommand cmd),
          sent := sent w @ [(new_transaction_id P e (cmd_subcommand cmd), status_word SUCCESS)],
          screen := (if ctx_state (ctx w) = WAITING_SIGNING then Home else screen w)\<rparr>)"
  by (rule start_new_transaction_run [OF assms])

lemma start_new_transaction_fresh_witness:
  "start_new_transaction plain_platform plain_outside
     \<lparr>cmd_ins = START_NEW_TRANSACTION_COMMAND, cmd_rate = FIXED, cmd_subcommand = SELL_NG,
      cmd_data = In_apdu_buffer (replicate 5 0), cmd_data_size = 0\<rparr> (world_in WAITING_SIGNING SWAP) =
   (0, (world_in WAITING_SIGNING SWAP)
        \<lparr>ctx := fresh_context (LedgerPubKey plain_platform) (map of_nat [0..<32]) SELL_NG,
         sent := [(map of_nat [0..<32], 0x9000)], screen := Home\<rparr>)"
proof -
  have "new_transaction_id plain_platform plain_outside SELL_NG = map of_nat [0..<32]"
    by (simp add: new_transaction_id_def plain_env_defs sizeof_unified_id_def)
  with start_new_transaction_fresh [of plain_platform "LedgerPubKey plain_platform" plain_outside]
  show ?thesis by (simp add: plain_env_defs world_in_def)
qed

end
