(* ===== verification/Partner.thy ===== *)
theory Partner
  imports Session_Start Coin_Config
begin

text \<open>
  The partner of the exchange: \<^verbatim>\<open>src/set_partner_key.c\<close>, which takes its name and its key, and
  \<^verbatim>\<open>src/check_partner.c\<close>, which takes the signature of both by the key of the signer of the
  configurations.
\<close>

section \<open>The credentials of a partner\<close>

text \<open>The curve is the flow's, or is named in the command.\<close>

definition read_curve :: "cptr \<Rightarrow> u16 \<Rightarrow> subcommand_e \<Rightarrow> u16 \<Rightarrow> (curve \<times> u16) option" where
  "read_curve p n s offset =
     (if s = SWAP then Some (CX_CURVE_SECP256K1, offset)
      else if s = SELL \<or> s = FUND then Some (CX_CURVE_256R1, offset)
      else case pop_uint8_from_buffer p n offset of
        None \<Rightarrow> None
      | Some (i, offset) \<Rightarrow>
          if i = CURVE_SECP256K1 then Some (CX_CURVE_SECP256K1, offset)
          else if i = CURVE_SECP256R1 then Some (CX_CURVE_256R1, offset)
          else None)"

definition parse_set_partner_key_command ::
    "cptr \<Rightarrow> u16 \<Rightarrow> subcommand_e \<Rightarrow> swap_error_e + (buf_t \<times> cptr \<times> curve)" where
  "parse_set_partner_key_command p n subcommand =
     (case parse_to_sized_buffer p n 1 0 of
        None \<Rightarrow> Inl INCORRECT_COMMAND_DATA
      | Some (partner, offset) \<Rightarrow>
          if unat (bsize partner) < MIN_PARTNER_NAME_LENGHT \<or>
             unat (bsize partner) > MAX_PARTNER_NAME_LENGHT then Inl INCORRECT_COMMAND_DATA
          else
            case read_curve p n subcommand offset of
              None \<Rightarrow> Inl INCORRECT_COMMAND_DATA
            | Some (curve, offset) \<Rightarrow>
                if unat offset + UNCOMPRESSED_KEY_LENGTH \<noteq> unat n
                then Inl INCORRECT_COMMAND_DATA
                else Inr (partner, ptr_add p (unat offset), curve))"

text \<open>The name, in the union of the plain name and the name prefixed for the review.\<close>

definition save_partner_name :: "buf_t \<Rightarrow> swap_app_context \<Rightarrow> swap_app_context" where
  "save_partner_name partner c =
     (if fund_based (ctx_subcommand c) then
        let m = memset 0 0 sizeof_prefixed_name (partner_name c);
            m = strlcpy m PARTNER_NAME_PREFIX_FOR_FUND sizeof_prefixed_name
        in c\<lparr>partner_name := strncat m (buf_bytes partner) (unat (bsize partner))\<rparr>
      else
        let m = memset 0 0 sizeof_unprefixed_name (partner_name c)
        in c\<lparr>partner_name := strncpy m (buf_bytes partner) (unat (bsize partner))\<rparr>)"

definition set_partner_key :: "platform \<Rightarrow> outside \<Rightarrow> command_t \<Rightarrow> world \<Rightarrow> int \<times> world" where
  "set_partner_key P e cmd w =
     (case parse_set_partner_key_command (data_pointer cmd (ctx w)) (cmd_data_size cmd) (cmd_subcommand cmd) of
        Inl err \<Rightarrow> reply_error e err w
      | Inr (partner, raw_pubkey, curve) \<Rightarrow>
          let w = w\<lparr>ctx := save_partner_name partner (ctx w)\<rparr> in
          case cx_ecfp_init_public_key P curve (ptr_bytes raw_pubkey UNCOMPRESSED_KEY_LENGTH) of
            None \<Rightarrow> reply_error e INTERNAL_ERROR w
          | Some key \<Rightarrow>
              let w = w\<lparr>ctx := (ctx w)\<lparr>partner_public_key := key\<rparr>\<rparr> in
              case cx_sha256 P (data_bytes cmd (ctx w)) of
                None \<Rightarrow> reply_error e INTERNAL_ERROR w
              | Some digest \<Rightarrow>
                  let w = w\<lparr>ctx := (ctx w)\<lparr>sha256_digest_no_prefix := digest\<rparr>\<rparr> in
                  case reply_success e w of
                    (n, w) \<Rightarrow>
                      if n < 0 then (-1, w)
                      else (0, w\<lparr>ctx := (ctx w)\<lparr>ctx_state := PROVIDER_SET\<rparr>\<rparr>))"

definition check_partner :: "platform \<Rightarrow> outside \<Rightarrow> command_t \<Rightarrow> world \<Rightarrow> int \<times> world" where
  "check_partner P e cmd w =
     (if unat (cmd_data_size cmd) < MIN_DER_SIGNATURE_LENGTH \<or>
         unat (cmd_data_size cmd) > MAX_DER_SIGNATURE_LENGTH
      then reply_error e INCORRECT_COMMAND_DATA w
      else if \<not> cx_ecdsa_verify P (ledger_public_key (ctx w)) (sha256_digest_no_prefix (ctx w))
                  (data_bytes cmd (ctx w))
      then reply_error e SIGN_VERIFICATION_FAIL w
      else case reply_success e w of
        (n, w) \<Rightarrow>
          if n < 0 then (-1, w)
          else (0, w\<lparr>ctx := (ctx w)\<lparr>ctx_state := PROVIDER_CHECKED\<rparr>\<rparr>))"

section \<open>The credentials accepted\<close>

fun curve_id :: "curve \<Rightarrow> u8" where
  "curve_id CX_CURVE_SECP256K1 = CURVE_SECP256K1"
| "curve_id CX_CURVE_256R1 = CURVE_SECP256R1"

text \<open>The format: the name with its length, in the unified flows the curve, and the key.\<close>

definition partner_credentials :: "subcommand_e \<Rightarrow> u8 list \<Rightarrow> curve \<Rightarrow> u8 list \<Rightarrow> u8 list" where
  "partner_credentials s name curve key =
     enc_sized1 name @ (if unified_flow s then [curve_id curve] else []) @ key"

definition partner_credentials_ok :: "subcommand_e \<Rightarrow> u8 list \<Rightarrow> curve \<Rightarrow> u8 list \<Rightarrow> bool" where
  "partner_credentials_ok s name curve key \<longleftrightarrow>
     3 \<le> length name \<and> length name \<le> 15 \<and> length key = 65 \<and>
     (s = SWAP \<longrightarrow> curve = CX_CURVE_SECP256K1) \<and> (s = SELL \<or> s = FUND \<longrightarrow> curve = CX_CURVE_256R1)"

lemma read_curve_sound:
  assumes p: "ptr_ok p (unat n)" "unat o1 \<le> unat n" and run: "read_curve p n s o1 = Some (c, o2)"
  shows "drop (unat o1) (ptr_bytes p (unat n)) =
      (if unified_flow s then [curve_id c] else []) @ drop (unat o2) (ptr_bytes p (unat n))"
    and "unat o2 = unat o1 + (if unified_flow s then 1 else 0)"
    and "s = SWAP \<longrightarrow> c = CX_CURVE_SECP256K1" and "s = SELL \<or> s = FUND \<longrightarrow> c = CX_CURVE_256R1"
proof -
  consider "s = SWAP" "c = CX_CURVE_SECP256K1" "o2 = o1"
    | "s = SELL \<or> s = FUND" "c = CX_CURVE_256R1" "o2 = o1"
    | i where "unified_flow s" "pop_uint8_from_buffer p n o1 = Some (i, o2)" "i = curve_id c"
    using run by (cases s) (auto simp: read_curve_def split: if_splits option.splits)
  then have "drop (unat o1) (ptr_bytes p (unat n)) =
      (if unified_flow s then [curve_id c] else []) @ drop (unat o2) (ptr_bytes p (unat n)) \<and>
      unat o2 = unat o1 + (if unified_flow s then 1 else 0) \<and>
      (s = SWAP \<longrightarrow> c = CX_CURVE_SECP256K1) \<and> (s = SELL \<or> s = FUND \<longrightarrow> c = CX_CURVE_256R1)"
    by cases (use byte_field.dec_sound [OF p] in auto)
  then show "drop (unat o1) (ptr_bytes p (unat n)) =
      (if unified_flow s then [curve_id c] else []) @ drop (unat o2) (ptr_bytes p (unat n))"
    and "unat o2 = unat o1 + (if unified_flow s then 1 else 0)"
    and "s = SWAP \<longrightarrow> c = CX_CURVE_SECP256K1" and "s = SELL \<or> s = FUND \<longrightarrow> c = CX_CURVE_256R1"
    by blast+
qed

lemma read_curve_complete:
  assumes p: "ptr_ok p (unat n)" "unat o1 \<le> unat n"
    and w: "drop (unat o1) (ptr_bytes p (unat n)) = (if unified_flow s then [curve_id c] else []) @ ys"
    and c: "s = SWAP \<longrightarrow> c = CX_CURVE_SECP256K1" "s = SELL \<or> s = FUND \<longrightarrow> c = CX_CURVE_256R1"
  shows "\<exists>o2. read_curve p n s o1 = Some (c, o2) \<and> unat o2 = unat o1 + (if unified_flow s then 1 else 0)"
proof (cases "unified_flow s")
  case True
  then obtain o2 where "pop_uint8_from_buffer p n o1 = Some (curve_id c, o2)" "unat o2 = unat o1 + 1"
    using byte_field.dec_complete [OF p, of "curve_id c" ys] w by auto
  with True show ?thesis by (cases c) (auto simp: read_curve_def selector_defs)
next
  case False
  with c show ?thesis by (cases s) (auto simp: read_curve_def)
qed

lemma key_bytes:
  assumes "ptr_ok p (unat n)" and "unat o1 + 65 = unat n"
  shows "ptr_bytes (ptr_add p (unat o1)) 65 = drop (unat o1) (ptr_bytes p (unat n))"
  using assms ptr_bytes_add [of p "unat n" "unat o1" 65]
  by (simp add: mread_def length_ptr_bytes)

lemma parse_set_partner_key_format:
  assumes p: "ptr_ok p (unat n)"
  shows "(\<exists>b q. parse_set_partner_key_command p n s = Inr (b, q, c) \<and> buf_bytes b = name \<and>
      ptr_bytes q UNCOMPRESSED_KEY_LENGTH = key) \<longleftrightarrow>
    ptr_bytes p (unat n) = partner_credentials s name c key \<and> partner_credentials_ok s name c key"
    (is "?parsed \<longleftrightarrow> ?format")
proof
  assume ?parsed
  then obtain b o1 o2 where r1: "parse_to_sized_buffer p n 1 0 = Some (b, o1)"
    and len: "3 \<le> unat (bsize b)" "unat (bsize b) \<le> 15"
    and r2: "read_curve p n s o1 = Some (c, o2)" and o2: "unat o2 + 65 = unat n"
    and b: "buf_bytes b = name" and key: "ptr_bytes (ptr_add p (unat o2)) 65 = key"
    by (auto simp: parse_set_partner_key_command_def size_defs split: option.splits if_splits)
  note s1 = sized1_sound [OF p _ r1, simplified]
  note s2 = read_curve_sound [OF p s1(4) r2]
  have "ptr_bytes p (unat n) = partner_credentials s name c key"
    using s1(2) s2(1) b key key_bytes [OF p o2] by (simp add: partner_credentials_def)
  moreover have "length key = 65"
    using key o2 ptr_ok_add [OF p, of "unat o2" 65] length_ptr_bytes by fastforce
  ultimately show ?format
    using len s1(5) b s2(3,4) by (simp add: partner_credentials_ok_def bsize_length)
next
  assume ?format
  then have w: "ptr_bytes p (unat n) =
      enc_sized1 name @ (if unified_flow s then [curve_id c] else []) @ key"
    and ok: "3 \<le> length name" "length name \<le> 15" "length key = 65"
    and c: "s = SWAP \<longrightarrow> c = CX_CURVE_SECP256K1" "s = SELL \<or> s = FUND \<longrightarrow> c = CX_CURVE_256R1"
    by (simp_all add: partner_credentials_def partner_credentials_ok_def)
  have n: "unat n = Suc (length name) + (if unified_flow s then 1 else 0) + 65"
    using arg_cong [OF w, of length] ok by (simp add: length_ptr_bytes [OF p] split: if_splits)
  obtain b o1 where r1: "parse_to_sized_buffer p n 1 0 = Some (b, o1)" "buf_bytes b = name"
      "unat o1 = Suc (length name)"
    using sized1_complete [OF p, of 0 name] w ok by auto
  have d1: "drop (unat o1) (ptr_bytes p (unat n)) = (if unified_flow s then [curve_id c] else []) @ key"
    using w r1(3) by simp
  obtain o2 where r2: "read_curve p n s o1 = Some (c, o2)"
      "unat o2 = unat o1 + (if unified_flow s then 1 else 0)"
    using read_curve_complete [OF p _ d1 c] n r1(3) by auto
  have o2: "unat o2 + 65 = unat n" using r2(2) r1(3) n by simp
  have "drop (unat o2) (ptr_bytes p (unat n)) = key"
    using read_curve_sound(1) [OF p _ r2(1)] d1 n r1(3) by simp
  then have key: "ptr_bytes (ptr_add p (unat o2)) 65 = key" using key_bytes [OF p o2] by simp
  have "buf_ok b" using sized1_sound(5) [OF p _ r1(1)] by simp
  then have "unat (bsize b) = length name" using r1(2) bsize_length by simp
  with r1 r2 o2 key ok show ?parsed
    by (auto simp: parse_set_partner_key_command_def size_defs)
qed

text \<open>
  C36: The credentials of a partner are accepted exactly when they are a name of 3 to 15 bytes, in the
  unified flows a known curve, and a key of 65 bytes, and nothing after it; and these are what is
  returned, with the curve of the flow in the others.
\<close>

theorem parse_set_partner_key_iff:
  assumes p: "ptr_ok p (unat n)"
  shows "(\<exists>b q. parse_set_partner_key_command p n s = Inr (b, q, c) \<and> buf_bytes b = name \<and>
      ptr_bytes q UNCOMPRESSED_KEY_LENGTH = key) \<longleftrightarrow>
    ptr_bytes p (unat n) = partner_credentials s name c key \<and> partner_credentials_ok s name c key"
    (is "?parsed \<longleftrightarrow> ?format")
  by (rule parse_set_partner_key_format [OF assms])

section \<open>The name that is displayed\<close>

definition displayed_partner :: "swap_app_context \<Rightarrow> u8 list" where
  "displayed_partner c =
     cstr (if fund_based (ctx_subcommand c) then partner_name c else take sizeof_unprefixed_name (partner_name c))"

definition partner_label :: "subcommand_e \<Rightarrow> u8 list \<Rightarrow> u8 list" where
  "partner_label s name = (if fund_based s then PARTNER_NAME_PREFIX_FOR_FUND else []) @ cstr name"

lemma length_cstr_le: "length (cstr xs) \<le> length xs"
  using cstrlen_le [of xs] by (simp add: cstrlen_def)

lemma prefix_facts [simp]: "cstr PARTNER_NAME_PREFIX_FOR_FUND = PARTNER_NAME_PREFIX_FOR_FUND"
  "length PARTNER_NAME_PREFIX_FOR_FUND = 3" "0 \<notin> set PARTNER_NAME_PREFIX_FOR_FUND"
  by (simp_all add: PARTNER_NAME_PREFIX_FOR_FUND_def ascii_def)

lemma prefixed_start:
  "length m = sizeof_prefixed_name \<Longrightarrow>
   strlcpy (memset 0 0 sizeof_prefixed_name m) PARTNER_NAME_PREFIX_FOR_FUND sizeof_prefixed_name =
   PARTNER_NAME_PREFIX_FOR_FUND @ replicate 16 0"
  by (simp add: strlcpy_def memset_def mwrite_def ctx_size_defs size_defs)
     (simp add: replicate_app_Cons_same numeral_eq_Suc)

lemma save_partner_name_fund:
  assumes "length (partner_name c) = sizeof_prefixed_name" and "fund_based (ctx_subcommand c)"
    and "length (buf_bytes b) = unat (bsize b)" and "unat (bsize b) \<le> 15"
  shows "partner_name (save_partner_name b c) =
    PARTNER_NAME_PREFIX_FOR_FUND @ cstr (buf_bytes b) @ replicate (16 - length (cstr (buf_bytes b))) 0"
proof -
  have "length (cstr (buf_bytes b)) \<le> 15" using length_cstr_le [of "buf_bytes b"] assms(3,4) by simp
  moreover have "cstrlen (PARTNER_NAME_PREFIX_FOR_FUND @ replicate 16 0) = 3"
    by (simp add: cstrlen_def cstr_append_no_zero numeral_eq_Suc)
  moreover have "(0 :: u8) # replicate (15 - k) 0 = replicate (16 - k) 0" if "k \<le> 15" for k
    using that by (simp add: Suc_diff_le flip: replicate_Suc)
  ultimately show ?thesis
    using assms by (simp add: save_partner_name_def Let_def prefixed_start strncat_def mwrite_def)
qed

lemma save_partner_name_plain:
  assumes "length (partner_name c) = sizeof_prefixed_name" and "\<not> fund_based (ctx_subcommand c)"
    and "length (buf_bytes b) = unat (bsize b)" and "unat (bsize b) \<le> 15"
  shows "partner_name (save_partner_name b c) =
    take (unat (bsize b)) (cstr (buf_bytes b) @ replicate (unat (bsize b)) 0) @
    replicate (16 - unat (bsize b)) 0 @ drop 16 (partner_name c)"
  using assms
  by (simp add: save_partner_name_def Let_def strncpy_def memset_def mwrite_def ctx_size_defs size_defs)

lemma save_partner_name_only:
  "save_partner_name b c = c\<lparr>partner_name := partner_name (save_partner_name b c)\<rparr>"
  by (simp add: save_partner_name_def Let_def)

lemma length_save_partner_name:
  assumes "length (partner_name c) = sizeof_prefixed_name"
    and "length (buf_bytes b) = unat (bsize b)" and "unat (bsize b) \<le> 15"
  shows "length (partner_name (save_partner_name b c)) = sizeof_prefixed_name"
proof (cases "fund_based (ctx_subcommand c)")
  case True
  have "length (cstr (buf_bytes b)) \<le> 15" using length_cstr_le [of "buf_bytes b"] assms(2,3) by simp
  with save_partner_name_fund [OF assms(1) True assms(2,3)] show ?thesis
    by (simp add: ctx_size_defs size_defs)
next
  case False
  with save_partner_name_plain [OF assms(1) False assms(2,3)] show ?thesis
    using assms by (simp add: ctx_size_defs size_defs)
qed

lemma displayed_save_partner_name:
  assumes "length (partner_name c) = sizeof_prefixed_name"
    and "length (buf_bytes b) = unat (bsize b)" and "unat (bsize b) \<le> 15"
  shows "displayed_partner (save_partner_name b c) = partner_label (ctx_subcommand c) (buf_bytes b)"
proof -
  have flow: "ctx_subcommand (save_partner_name b c) = ctx_subcommand c"
    by (subst save_partner_name_only) simp
  show ?thesis
  proof (cases "fund_based (ctx_subcommand c)")
    case True
    have "length (cstr (buf_bytes b)) \<le> 15" using length_cstr_le [of "buf_bytes b"] assms(2,3) by simp
    then have "cstr (replicate (16 - length (cstr (buf_bytes b))) 0) = []" by (cases "16 - length (cstr (buf_bytes b))") auto
    with save_partner_name_fund [OF assms(1) True assms(2,3)] True flow show ?thesis
      by (simp add: displayed_partner_def partner_label_def cstr_append_no_zero cstr_no_zero)
  next
    case False
    let ?n = "unat (bsize b)" and ?s = "cstr (buf_bytes b)"
    have l: "length ?s \<le> ?n" using length_cstr_le [of "buf_bytes b"] assms(2) by simp
    have z: "cstr (replicate k 0) = []" for k by (cases k) auto
    have "take 16 (partner_name (save_partner_name b c)) = ?s @ replicate (16 - length ?s) 0"
      using save_partner_name_plain [OF assms(1) False assms(2,3)] l assms(3)
      by (simp add: min_def flip: replicate_add)
    with False flow show ?thesis
      by (simp add: displayed_partner_def partner_label_def cstr_append_no_zero cstr_no_zero z
          sizeof_unprefixed_name_def size_defs)
  qed
qed

section \<open>The certification of a partner\<close>

lemma parse_set_partner_key_buffer:
  assumes "ptr_ok p (unat n)" and "parse_set_partner_key_command p n s = Inr (b, q, c)"
  shows "length (buf_bytes b) = unat (bsize b)" and "unat (bsize b) \<le> 15"
  using assms sized1_sound(5) [OF assms(1), of 0 b]
  by (auto simp: parse_set_partner_key_command_def size_defs length_buf_bytes split: option.splits if_splits)

lemmas partner_handler_defs = set_partner_key_def check_partner_def reply_defs Let_def

interpretation set_partner_handler: handler "\<lambda>e cmd w. returning (set_partner_key P e cmd w)"
  "{PROVIDER_SET}" "\<lambda>e cmd w. data_ok cmd (ctx w)" for P
proof (unfold_locales, goal_cases)
  case (1 e cmd w r w')
  then show ?case by (auto simp: partner_handler_defs split: sum.splits option.splits if_splits)
next
  case (2 e cmd w r w')
  show ?case
  proof (cases "parse_set_partner_key_command (data_pointer cmd (ctx w)) (cmd_data_size cmd) (cmd_subcommand cmd)")
    case (Inl err)
    with 2 show ?thesis by (auto simp: partner_handler_defs)
  next
    case (Inr res)
    obtain b q c where res: "res = (b, q, c)" by (cases res)
    have "ptr_ok (data_pointer cmd (ctx w)) (unat (cmd_data_size cmd))" using 2(1) by (simp add: data_ok_def)
    note b = parse_set_partner_key_buffer [OF this Inr [unfolded res]]
    have "ctx_sizes (save_partner_name b (ctx w))"
      using 2(3) length_save_partner_name [OF _ b] save_partner_name_only [of b "ctx w"]
      by (simp add: ctx_sizes_def) (metis swap_app_context.select_convs swap_app_context.surjective
          swap_app_context.update_convs(4))
    with 2 Inr res show ?thesis
      by (auto simp: partner_handler_defs ctx_sizes_def split: option.splits if_splits)
  qed
next
  case (3 e cmd w r w')
  have "ctx_state (save_partner_name b (ctx w)) = ctx_state (ctx w)" for b
    by (subst save_partner_name_only) simp
  with 3 show ?case by (auto simp: partner_handler_defs split: sum.splits option.splits if_splits)
qed

interpretation check_partner_handler: handler "\<lambda>e cmd w. returning (check_partner P e cmd w)"
  "{PROVIDER_CHECKED}" "\<lambda>_ _ _. True" for P
  by unfold_locales (auto simp: partner_handler_defs ctx_sizes_def split: if_splits)

lemma set_partner_key_done:
  assumes run: "set_partner_key P e cmd w = (0, w')" and moved: "ctx_state (ctx w') = PROVIDER_SET"
    and was: "ctx_state (ctx w) \<noteq> PROVIDER_SET"
    and data: "data_ok cmd (ctx w)" and size: "ctx_sizes (ctx w)"
  shows "\<exists>name curve key digest k.
    data_bytes cmd (ctx w) = partner_credentials (cmd_subcommand cmd) name curve key \<and>
    partner_credentials_ok (cmd_subcommand cmd) name curve key \<and>
    cx_ecfp_init_public_key P curve key = Some k \<and>
    cx_sha256 P (data_bytes cmd (ctx w)) = Some digest \<and>
    (\<exists>m. ctx w' = (ctx w)\<lparr>partner_name := m, partner_public_key := k, sha256_digest_no_prefix := digest,
           ctx_state := PROVIDER_SET\<rparr>) \<and>
    displayed_partner (ctx w') = partner_label (ctx_subcommand (ctx w)) name"
proof -
  let ?p = "data_pointer cmd (ctx w)" and ?n = "cmd_data_size cmd"
  have p: "ptr_ok ?p (unat ?n)" using data by (simp add: data_ok_def)
  have stay: "ctx_state (save_partner_name b (ctx w)) = ctx_state (ctx w)"
    "data_bytes cmd (save_partner_name b (ctx w)\<lparr>partner_public_key := k\<rparr>) = data_bytes cmd (ctx w)" for b k
    by (subst save_partner_name_only; simp add: data_bytes_def data_pointer_def split: data_ptr.splits)+
  obtain b q curve where parsed: "parse_set_partner_key_command ?p ?n (cmd_subcommand cmd) = Inr (b, q, curve)"
    using run moved was
    by (cases "parse_set_partner_key_command ?p ?n (cmd_subcommand cmd)") (auto simp: partner_handler_defs)
  obtain k digest where k: "cx_ecfp_init_public_key P curve (ptr_bytes q UNCOMPRESSED_KEY_LENGTH) = Some k"
    and d: "cx_sha256 P (data_bytes cmd (ctx w)) = Some digest"
    and w': "ctx w' = (save_partner_name b (ctx w))\<lparr>partner_public_key := k, sha256_digest_no_prefix := digest,
           ctx_state := PROVIDER_SET\<rparr>"
    using run moved was parsed stay
    by (auto simp: partner_handler_defs split: option.splits if_splits)
  note b = parse_set_partner_key_buffer [OF p parsed]
  have "displayed_partner (ctx w') = displayed_partner (save_partner_name b (ctx w))"
    by (simp add: w' displayed_partner_def)
  also have "\<dots> = partner_label (ctx_subcommand (ctx w)) (buf_bytes b)"
    using displayed_save_partner_name [OF _ b] size by (simp add: ctx_sizes_def)
  finally have shown: "displayed_partner (ctx w') = partner_label (ctx_subcommand (ctx w)) (buf_bytes b)" .
  have ctx': "\<exists>m. ctx w' = (ctx w)\<lparr>partner_name := m, partner_public_key := k, sha256_digest_no_prefix := digest,
           ctx_state := PROVIDER_SET\<rparr>"
    using w' save_partner_name_only [of b "ctx w"] by metis
  from parse_set_partner_key_format [OF p, of "cmd_subcommand cmd" curve "buf_bytes b" "ptr_bytes q UNCOMPRESSED_KEY_LENGTH"] parsed
  show ?thesis using k d shown ctx' unfolding data_bytes_def by blast
qed

lemma check_partner_done:
  assumes "check_partner P e cmd w = (r, w')" and "ctx_state (ctx w') = PROVIDER_CHECKED"
    and "ctx_state (ctx w) \<noteq> PROVIDER_CHECKED"
  shows "cx_ecdsa_verify P (ledger_public_key (ctx w)) (sha256_digest_no_prefix (ctx w)) (data_bytes cmd (ctx w)) \<and>
    67 \<le> unat (cmd_data_size cmd) \<and> unat (cmd_data_size cmd) \<le> 73 \<and>
    ctx w' = (ctx w)\<lparr>ctx_state := PROVIDER_CHECKED\<rparr>"
  using assms by (auto simp: partner_handler_defs size_defs split: if_splits)

text \<open>
  C14: A partner is used only when it is certified: when the two commands have brought the program to
  \<open>PROVIDER_CHECKED\<close>, the data of the first were the credentials of a partner, the name that the
  review displays and the key that will verify the transaction are the ones in them, and the second
  carried a signature of their digest by the key of the signer of the configurations.
\<close>

theorem partner_certified:
  assumes run1: "set_partner_key P e1 cmd1 w = (0, w1)" and st1: "ctx_state (ctx w1) = PROVIDER_SET"
    and run2: "check_partner P e2 cmd2 w1 = (r, w2)" and st2: "ctx_state (ctx w2) = PROVIDER_CHECKED"
    and w: "ctx_state (ctx w) = WAITING_TRANSACTION" "ctx_sizes (ctx w)" and data: "data_ok cmd1 (ctx w)"
  shows "\<exists>name curve key digest.
    data_bytes cmd1 (ctx w) = partner_credentials (cmd_subcommand cmd1) name curve key \<and>
    partner_credentials_ok (cmd_subcommand cmd1) name curve key \<and>
    displayed_partner (ctx w2) = partner_label (ctx_subcommand (ctx w2)) name \<and>
    cx_ecfp_init_public_key P curve key = Some (partner_public_key (ctx w2)) \<and>
    cx_sha256 P (data_bytes cmd1 (ctx w)) = Some digest \<and>
    cx_ecdsa_verify P (ledger_public_key (ctx w)) digest (data_bytes cmd2 (ctx w1))"
proof -
  note saved = set_partner_key_done [OF run1 st1 _ data w(2)]
  note checked = check_partner_done [OF run2 st2]
  from checked st1 have w2: "ctx w2 = (ctx w1)\<lparr>ctx_state := PROVIDER_CHECKED\<rparr>" by simp
  then have shown: "displayed_partner (ctx w2) = displayed_partner (ctx w1)"
    and flow: "ctx_subcommand (ctx w2) = ctx_subcommand (ctx w1)"
    and key: "partner_public_key (ctx w2) = partner_public_key (ctx w1)"
    by (simp_all add: displayed_partner_def)
  from saved w(1) obtain name curve k digest key m where
    s: "data_bytes cmd1 (ctx w) = partner_credentials (cmd_subcommand cmd1) name curve key"
      "partner_credentials_ok (cmd_subcommand cmd1) name curve key"
      "cx_ecfp_init_public_key P curve key = Some k" "cx_sha256 P (data_bytes cmd1 (ctx w)) = Some digest"
      "displayed_partner (ctx w1) = partner_label (ctx_subcommand (ctx w)) name"
    and w1: "ctx w1 = (ctx w)\<lparr>partner_name := m, partner_public_key := k, sha256_digest_no_prefix := digest,
           ctx_state := PROVIDER_SET\<rparr>"
    by auto
  have "ledger_public_key (ctx w1) = ledger_public_key (ctx w)" "sha256_digest_no_prefix (ctx w1) = digest"
    "partner_public_key (ctx w1) = k" "ctx_subcommand (ctx w1) = ctx_subcommand (ctx w)"
    by (simp_all add: w1)
  with s checked st1 show ?thesis unfolding shown flow key by auto
qed

definition sample_credentials :: command_t where
  "sample_credentials = \<lparr>cmd_ins = SET_PARTNER_KEY_COMMAND, cmd_rate = FIXED, cmd_subcommand = FUND_NG,
     cmd_data = In_apdu_buffer (replicate 5 0 @ partner_credentials FUND_NG (ascii ''Acme'') CX_CURVE_256R1 (replicate 65 4)),
     cmd_data_size = 71\<rparr>"

definition sample_certificate :: command_t where
  "sample_certificate = \<lparr>cmd_ins = CHECK_PARTNER_COMMAND, cmd_rate = FIXED, cmd_subcommand = FUND_NG,
     cmd_data = In_apdu_buffer (replicate 75 1), cmd_data_size = 70\<rparr>"

lemma partner_certified_witness:
  "let w = world_in WAITING_TRANSACTION FUND_NG;
       w1 = snd (set_partner_key plain_platform plain_outside sample_credentials w);
       w2 = snd (check_partner plain_platform plain_outside sample_certificate w1) in
   displayed_partner (ctx w2) = ascii ''To Acme'' \<and>
   (\<exists>name curve key. data_bytes sample_credentials (ctx w) =
      partner_credentials FUND_NG name curve key \<and> partner_public_key (ctx w2) = key)"
proof -
  let ?w = "world_in WAITING_TRANSACTION FUND_NG"
  let ?w1 = "snd (set_partner_key plain_platform plain_outside sample_credentials ?w)"
  let ?w2 = "snd (check_partner plain_platform plain_outside sample_certificate ?w1)"
  have run: "fst (set_partner_key plain_platform plain_outside sample_credentials ?w) = 0"
    "ctx_state (ctx ?w1) = PROVIDER_SET" "ctx_state (ctx ?w2) = PROVIDER_CHECKED"
    "displayed_partner (ctx ?w2) = ascii ''To Acme''"
    by code_simp+
  have "ctx_state (ctx ?w) = WAITING_TRANSACTION" "ctx_sizes (ctx ?w)" "data_ok sample_credentials (ctx ?w)"
    by code_simp+
  from partner_certified [of plain_platform plain_outside sample_credentials ?w ?w1 plain_outside sample_certificate
      "fst (check_partner plain_platform plain_outside sample_certificate ?w1)" ?w2, OF _ run(2) _ run(3) this] run
  show ?thesis by (auto simp: Let_def plain_platform_def sample_credentials_def prod_eq_iff)
qed

lemma parse_set_partner_key_iff_witness:
  "(\<exists>b q. parse_set_partner_key_command (Ptr (partner_credentials SELL_NG (ascii ''Acme'') CX_CURVE_SECP256K1 (replicate 65 4)) 0) 71 SELL_NG
      = Inr (b, q, CX_CURVE_SECP256K1) \<and> buf_bytes b = ascii ''Acme'' \<and>
      ptr_bytes q UNCOMPRESSED_KEY_LENGTH = replicate 65 4)"
proof -
  let ?m = "partner_credentials SELL_NG (ascii ''Acme'') CX_CURVE_SECP256K1 (replicate 65 4)"
  have "ptr_ok (Ptr ?m 0) (unat (71 :: u16))" "ptr_bytes (Ptr ?m 0) (unat (71 :: u16)) = ?m"
    "partner_credentials_ok SELL_NG (ascii ''Acme'') CX_CURVE_SECP256K1 (replicate 65 4)"
    by code_simp+
  with parse_set_partner_key_iff [of "Ptr ?m 0" 71 SELL_NG CX_CURVE_SECP256K1 "ascii ''Acme''" "replicate 65 4"]
  show ?thesis by simp
qed

end
