(* ===== verification/Process_Transaction.thy ===== *)
theory Process_Transaction
  imports Session_Start Coin_Config Base64 Tickers Pb_Wellformed
begin

text \<open>
  \<^verbatim>\<open>src/process_transaction.c\<close>: the transaction the partner signed is taken out of the command,
  hashed, decoded into the context, checked against the identifier of the session, and normalised.
  A member of the decoded structures is read and written at its offset in the union of the
  context (\<open>Tx_Layout\<close>).
\<close>

section \<open>The parts of the command\<close>

text \<open>Whether the payload is encoded in base 64: the flow says it, or the first byte.\<close>

definition read_encoding :: "cptr \<Rightarrow> u16 \<Rightarrow> subcommand_e \<Rightarrow> (bool \<times> u16) option" where
  "read_encoding in_buffer in_size subcommand =
     (if subcommand = SWAP then Some (False, 0)
      else if subcommand = SELL \<or> subcommand = FUND then Some (True, 0)
      else case pop_uint8_from_buffer in_buffer in_size 0 of
        None \<Rightarrow> None
      | Some (encoding_selector, offset) \<Rightarrow>
          if encoding_selector = ENCODING_BYTES_ARRAY then Some (False, offset)
          else if encoding_selector = ENCODING_BASE_64_URL then Some (True, offset)
          else None)"

definition parse_transaction :: "cptr \<Rightarrow> u16 \<Rightarrow> subcommand_e \<Rightarrow> (buf_t \<times> buf_t \<times> bool) option" where
  "parse_transaction in_buffer in_size subcommand =
     (let payload_length_field_size = (if subcommand = SWAP \<or> subcommand = SELL \<or> subcommand = FUND then 1 else 2) in
      case read_encoding in_buffer in_size subcommand of
        None \<Rightarrow> None
      | Some (needs_base64_decoding, offset) \<Rightarrow>
          case parse_to_sized_buffer in_buffer in_size payload_length_field_size offset of
            None \<Rightarrow> None
          | Some (payload, offset) \<Rightarrow>
              case parse_to_sized_buffer in_buffer in_size 1 offset of
                None \<Rightarrow> None
              | Some (fees, offset) \<Rightarrow>
                  if offset \<noteq> in_size then None
                  else if unat (bsize fees) > sizeof_transaction_fee then None
                  else Some (payload, fees, needs_base64_decoding))"

text \<open>Both digests of the payload: after a dot, and alone.\<close>

definition calculate_sha256_digest :: "platform \<Rightarrow> buf_t \<Rightarrow> swap_app_context \<Rightarrow> bool \<times> swap_app_context" where
  "calculate_sha256_digest P payload c =
     (case cx_sha256 P (ascii ''.'' @ buf_bytes payload) of
        None \<Rightarrow> (False, c)
      | Some prefixed \<Rightarrow>
          let c = c\<lparr>sha256_digest_prefixed := prefixed\<rparr> in
          case cx_sha256 P (buf_bytes payload) of
            None \<Rightarrow> (False, c)
          | Some no_prefix \<Rightarrow> (True, c\<lparr>sha256_digest_no_prefix := no_prefix\<rparr>))"

section \<open>Deserialisation\<close>

definition local_array :: "outside \<Rightarrow> nat \<Rightarrow> mem" where
  \<comment> \<open>a local array of \<open>n\<close> bytes, not initialised\<close>
  "local_array e n = take n (stack_bytes e @ replicate n 0)"

definition message_table :: "subcommand_e \<Rightarrow> pb_field list" where
  "message_table subcommand =
     (if swap_based subcommand then ledger_swap_NewTransactionResponse_fields
      else if sell_based subcommand then ledger_swap_NewSellResponse_fields
      else ledger_swap_NewFundResponse_fields)"

definition deserialize_protobuf_payload ::
    "outside \<Rightarrow> buf_t \<Rightarrow> subcommand_e \<Rightarrow> bool \<Rightarrow> mem \<Rightarrow> bool \<times> mem" where
  "deserialize_protobuf_payload e payload subcommand needs_base64_decoding m =
     (case (if needs_base64_decoding
            then (case base64_decode (local_array e 512) 512 (buf_bytes payload) (unat (bsize payload)) of
                    (n, decoded) \<Rightarrow>
                      if n \<le> 0 then None else Some \<lparr>bptr = Ptr decoded 0, bsize = of_int n\<rparr>)
            else Some payload) of
        None \<Rightarrow> (False, m)
      | Some to_deserialize \<Rightarrow>
          let stream = pb_istream_from_buffer (buf_bytes to_deserialize) (unat (bsize to_deserialize)) in
          case pb_decode (stack_frames e) stream (message_table subcommand) 0 m of
            (ok, m, _) \<Rightarrow> (ok, m))"

section \<open>Checks\<close>

text \<open>A byte array of a structure: its size, then its bytes.\<close>

definition pb_array_size :: "member \<Rightarrow> mem \<Rightarrow> nat" where
  "pb_array_size mb m = unat (m ! fst mb)"

definition pb_array_bytes :: "member \<Rightarrow> mem \<Rightarrow> u8 list" where
  "pb_array_bytes mb m = mread (fst mb + 1) (pb_array_size mb m) m"

definition check_extra_id_extra_data :: "platform \<Rightarrow> subcommand_e \<Rightarrow> mem \<Rightarrow> bool" where
  "check_extra_id_extra_data P subcommand m =
     (if swap_based subcommand then
        let extra_size = pb_array_size swap_payin_extra_data m;
            has_extra_id = (m ! fst swap_payin_extra_id \<noteq> 0);
            has_extra_data = (extra_size \<noteq> 0 \<and>
              \<not> (extra_size = 1 \<and> m ! (fst swap_payin_extra_data + 1) = 0))
        in if has_extra_id \<and> has_extra_data then False
           else if has_extra_data then
             if TARGET_NANOS P then False
             else if extra_size \<noteq> 33 then False
             else True
           else True
      else True)"

definition id_member :: "subcommand_e \<Rightarrow> member" where
  "id_member subcommand =
     (if sell_based subcommand then sell_device_transaction_id
      else if fund_based subcommand then fund_device_transaction_id
      else swap_device_transaction_id_ng)"

definition check_transaction_id :: "subcommand_e \<Rightarrow> swap_app_context \<Rightarrow> bool" where
  "check_transaction_id subcommand c =
     (let m = tx c in
      if subcommand = SWAP then
        if m ! (fst swap_device_transaction_id + 10) \<noteq> 0 then False
        else if take sizeof_swap_id (device_transaction_id c) \<noteq>
                mread (fst swap_device_transaction_id) sizeof_swap_id m then False
        else True
      else
        let tx_id = id_member subcommand in
        if pb_array_size tx_id m \<noteq> sizeof_unified_id then False
        else if take (pb_array_size tx_id m) (device_transaction_id c) \<noteq> pb_array_bytes tx_id m then False
        else True)"

section \<open>Normalisation\<close>

definition normalize_currency :: "member \<Rightarrow> mem \<Rightarrow> mem" where
  "normalize_currency mb m =
     (let m = mwrite (fst mb) (to_uppercase (member_bytes mb m) (of_nat (snd mb))) m
      in mwrite (fst mb) (set_ledger_currency_name (member_bytes mb m) (snd mb)) m)"

text \<open>The prefix of the address up to the first colon of the member is removed.\<close>

definition strip_address_header :: "mem \<Rightarrow> mem" where
  "strip_address_header m =
     (let off = fst swap_payin_address; sz = snd swap_payin_address in
      case find (\<lambda>i. m ! (off + i) = 0x3A) [0..<sz] of
        None \<Rightarrow> m
      | Some i \<Rightarrow> memmove off (off + i + 1) (sz - i - 1) m)"

definition normalize_currencies :: "subcommand_e \<Rightarrow> mem \<Rightarrow> mem" where
  "normalize_currencies subcommand m =
     (if swap_based subcommand then
        strip_address_header (normalize_currency swap_currency_to (normalize_currency swap_currency_from m))
      else if sell_based subcommand then normalize_currency sell_in_currency m
      else if fund_based subcommand then normalize_currency fund_in_currency m
      else m)"

text \<open>The loop of \<open>trim_pb_bytes_array\<close>: how many leading zeros the first \<open>n\<close> bytes have.\<close>

fun leading_zeros :: "nat \<Rightarrow> u8 list \<Rightarrow> nat" where
  "leading_zeros (Suc n) (b # bs) = (if b \<noteq> 0 then 0 else Suc (leading_zeros n bs))"
| "leading_zeros _ _ = 0"

definition trim_pb_bytes_array :: "member \<Rightarrow> mem \<Rightarrow> mem" where
  "trim_pb_bytes_array mb m =
     (let bytes = fst mb + 1;
          i = leading_zeros (pb_array_size mb m) (drop bytes m)
      in if i = 0 then m
         else
           let m = m[fst mb := m ! fst mb - of_nat i]
           in memmove bytes (bytes + i) (pb_array_size mb m) m)"

definition trim_amounts :: "subcommand_e \<Rightarrow> mem \<Rightarrow> mem" where
  "trim_amounts subcommand m =
     (if swap_based subcommand then
        trim_pb_bytes_array swap_amount_to_wallet (trim_pb_bytes_array swap_amount_to_provider m)
      else if sell_based subcommand then trim_pb_bytes_array sell_in_amount m
      else if fund_based subcommand then trim_pb_bytes_array fund_in_amount m
      else m)"

definition save_fees :: "buf_t \<Rightarrow> swap_app_context \<Rightarrow> swap_app_context" where
  "save_fees fees c =
     c\<lparr>transaction_fee_length := ucast (bsize fees),
       transaction_fee := mwrite 0 (ptr_bytes (bptr fees) (unat (ucast (bsize fees) :: u8)))
         (memset 0 0 sizeof_transaction_fee (transaction_fee c))\<rparr>"

section \<open>The command\<close>

definition undecoded_transaction :: "outside \<Rightarrow> command_t \<Rightarrow> swap_app_context \<Rightarrow> cptr" where
  \<comment> \<open>the data, copied to the stack when they are in the union that the decoder fills\<close>
  "undecoded_transaction e cmd c =
     (case cmd_data cmd of
        In_raw_transaction \<Rightarrow>
          Ptr (mwrite 0 (mread 0 (unat (cmd_data_size cmd)) (tx c)) (local_array e sizeof_raw_transaction)) 0
      | In_apdu_buffer m \<Rightarrow> Ptr m OFFSET_CDATA)"

text \<open>The checks of a decoded transaction, and the error each answers with.\<close>

definition check_decoded :: "platform \<Rightarrow> subcommand_e \<Rightarrow> swap_app_context \<Rightarrow> swap_error_e option" where
  "check_decoded P subcommand c =
     (if \<not> check_extra_id_extra_data P subcommand (tx c) then Some WRONG_EXTRA_ID_OR_EXTRA_DATA
      else if \<not> check_transaction_id subcommand c \<and> \<not> BYPASS_TRANSACTION_ID_CHECK P
      then Some WRONG_TRANSACTION_ID
      else None)"

text \<open>The command up to its answer: the error, if any, and the context it leaves.\<close>

definition receive_transaction ::
    "platform \<Rightarrow> outside \<Rightarrow> command_t \<Rightarrow> swap_app_context \<Rightarrow> swap_error_e option \<times> swap_app_context" where
  "receive_transaction P e cmd c =
     (case parse_transaction (undecoded_transaction e cmd c) (cmd_data_size cmd) (cmd_subcommand cmd) of
        None \<Rightarrow> (Some INCORRECT_COMMAND_DATA, c)
      | Some (payload, fees, needs_base64_decoding) \<Rightarrow>
          case calculate_sha256_digest P payload c of
            (hashed, c) \<Rightarrow>
              if \<not> hashed then (Some INTERNAL_ERROR, c)
              else case deserialize_protobuf_payload e payload (cmd_subcommand cmd) needs_base64_decoding (tx c) of
                (decoded, m) \<Rightarrow>
                  if \<not> decoded then (Some DESERIALIZATION_FAILED, c\<lparr>tx := m\<rparr>)
                  else case check_decoded P (cmd_subcommand cmd) (c\<lparr>tx := m\<rparr>) of
                    Some err \<Rightarrow> (Some err, c\<lparr>tx := m\<rparr>)
                  | None \<Rightarrow>
                      let m = normalize_currencies (cmd_subcommand cmd) m;
                          m = trim_amounts (cmd_subcommand cmd) m
                      in (None, save_fees fees (c\<lparr>tx := m\<rparr>)))"

definition process_transaction :: "platform \<Rightarrow> outside \<Rightarrow> command_t \<Rightarrow> world \<Rightarrow> int \<times> world" where
  "process_transaction P e cmd w =
     (case receive_transaction P e cmd (ctx w) of
        (Some err, c) \<Rightarrow> reply_error e err (w\<lparr>ctx := c\<rparr>)
      | (None, c) \<Rightarrow>
          case reply_success e (w\<lparr>ctx := c\<rparr>) of
            (n, w) \<Rightarrow>
              if n < 0 then (-1, w)
              else (0, w\<lparr>ctx := (ctx w)\<lparr>ctx_state := TRANSACTION_RECEIVED\<rparr>\<rparr>))"

section \<open>The format of the command\<close>

definition encoding_byte :: "bool \<Rightarrow> u8" where
  "encoding_byte b64 = (if b64 then ENCODING_BASE_64_URL else ENCODING_BYTES_ARRAY)"

definition transaction_command :: "subcommand_e \<Rightarrow> bool \<Rightarrow> u8 list \<Rightarrow> u8 list \<Rightarrow> u8 list" where
  "transaction_command s b64 payload fees =
     (if unified_flow s then encoding_byte b64 # enc_sized2 payload else enc_sized1 payload) @ enc_sized1 fees"

definition transaction_command_ok :: "subcommand_e \<Rightarrow> bool \<Rightarrow> u8 list \<Rightarrow> u8 list \<Rightarrow> bool" where
  "transaction_command_ok s b64 payload fees \<longleftrightarrow>
     length payload < (if unified_flow s then 65536 else 256) \<and> length fees \<le> 16 \<and>
     (s = SWAP \<longrightarrow> \<not> b64) \<and> (s = SELL \<or> s = FUND \<longrightarrow> b64)"

lemma encoding_bytes [simp]: "encoding_byte b64 = ENCODING_BYTES_ARRAY \<longleftrightarrow> \<not> b64"
  "encoding_byte b64 = ENCODING_BASE_64_URL \<longleftrightarrow> b64"
  by (simp_all add: encoding_byte_def selector_defs)

lemma read_encoding_sound:
  assumes p: "ptr_ok p (unat n)" and run: "read_encoding p n s = Some (b64, off)"
  shows "ptr_bytes p (unat n) = (if unified_flow s then [encoding_byte b64] else []) @ drop (unat off) (ptr_bytes p (unat n)) \<and>
    unat off \<le> unat n \<and> (s = SWAP \<longrightarrow> \<not> b64) \<and> (s = SELL \<or> s = FUND \<longrightarrow> b64)"
proof (cases "unified_flow s")
  case True
  then obtain i where "pop_uint8_from_buffer p n 0 = Some (i, off)" "i = encoding_byte b64"
    using run by (auto simp: read_encoding_def encoding_byte_def split: option.splits if_splits)
  with True byte_field.dec_sound [OF p, of 0 i off] show ?thesis by auto
next
  case False
  with run show ?thesis by (cases s) (auto simp: read_encoding_def)
qed

lemma read_encoding_complete:
  assumes p: "ptr_ok p (unat n)"
    and w: "ptr_bytes p (unat n) = (if unified_flow s then [encoding_byte b64] else []) @ ys"
    and s: "s = SWAP \<longrightarrow> \<not> b64" "s = SELL \<or> s = FUND \<longrightarrow> b64"
  shows "\<exists>off. read_encoding p n s = Some (b64, off) \<and> unat off = (if unified_flow s then 1 else 0)"
proof (cases "unified_flow s")
  case True
  then obtain off where "pop_uint8_from_buffer p n 0 = Some (encoding_byte b64, off)" "unat off = 1"
    using byte_field.dec_complete [OF p, of 0 "encoding_byte b64" ys] w by auto
  with True show ?thesis by (auto simp: read_encoding_def)
next
  case False
  with s show ?thesis by (cases s) (auto simp: read_encoding_def)
qed

text \<open>The payload, with a length of one byte or of two.\<close>

definition enc_payload :: "subcommand_e \<Rightarrow> u8 list \<Rightarrow> u8 list" where
  "enc_payload s payload = (if unified_flow s then enc_sized2 payload else enc_sized1 payload)"

lemma transaction_command_parts:
  "transaction_command s b64 payload fees =
   (if unified_flow s then [encoding_byte b64] else []) @ enc_payload s payload @ enc_sized1 fees"
  by (simp add: transaction_command_def enc_payload_def)

lemma payload_sound:
  assumes p: "ptr_ok p (unat n)" "unat o1 \<le> unat n"
    and run: "parse_to_sized_buffer p n (if unified_flow s then 2 else 1) o1 = Some (b, o2)"
  shows "length (buf_bytes b) < (if unified_flow s then 65536 else 256)"
    and "drop (unat o1) (ptr_bytes p (unat n)) = enc_payload s (buf_bytes b) @ drop (unat o2) (ptr_bytes p (unat n))"
    and "unat o2 \<le> unat n" and "buf_ok b"
  using run sized1_field.dec_sound [OF p, of b o2] sized2_field.dec_sound [OF p, of b o2]
  by (auto simp: enc_payload_def split: if_splits)

lemma payload_complete:
  assumes p: "ptr_ok p (unat n)" "unat o1 \<le> unat n" and len: "length x < (if unified_flow s then 65536 else 256)"
    and w: "drop (unat o1) (ptr_bytes p (unat n)) = enc_payload s x @ ys"
  shows "\<exists>b o2. parse_to_sized_buffer p n (if unified_flow s then 2 else 1) o1 = Some (b, o2) \<and>
    buf_bytes b = x \<and> unat o2 = unat o1 + length (enc_payload s x)"
proof (cases "unified_flow s")
  case True
  then have "length x < 65536" "drop (unat o1) (ptr_bytes p (unat n)) = enc_sized2 x @ ys"
    using len w by (simp_all add: enc_payload_def)
  from sized2_field.dec_complete [OF p this] True show ?thesis by (simp add: enc_payload_def)
next
  case False
  then have "length x < 256" "drop (unat o1) (ptr_bytes p (unat n)) = enc_sized1 x @ ys"
    using len w by (simp_all add: enc_payload_def split: if_splits)
  from sized1_field.dec_complete [OF p this] False show ?thesis by (simp add: enc_payload_def)
qed

lemma length_field_size:
  "(if s = SWAP \<or> s = SELL \<or> s = FUND then 1 else 2) = (if unified_flow s then 2 else (1 :: u8))"
  by (cases s) auto

lemma parse_transaction_Some:
  "parse_transaction p n s = Some (b, f, b64) \<longleftrightarrow>
   (\<exists>o1 o2. read_encoding p n s = Some (b64, o1) \<and>
     parse_to_sized_buffer p n (if unified_flow s then 2 else 1) o1 = Some (b, o2) \<and>
     parse_to_sized_buffer p n 1 o2 = Some (f, n) \<and> unat (bsize f) \<le> 16)"
proof -
  define k where "k = (if unified_flow s then 2 else (1 :: u8))"
  show ?thesis
    unfolding parse_transaction_def length_field_size Let_def sizeof_transaction_fee_def k_def [symmetric]
    by (auto split: option.split prod.split if_split)
qed

lemma parse_transaction_format:
  assumes p: "ptr_ok p (unat n)"
  shows "(\<exists>b f. parse_transaction p n s = Some (b, f, b64) \<and> buf_bytes b = payload \<and> buf_bytes f = fees) \<longleftrightarrow>
    ptr_bytes p (unat n) = transaction_command s b64 payload fees \<and> transaction_command_ok s b64 payload fees"
    (is "?parsed \<longleftrightarrow> ?format")
proof
  assume ?parsed
  then obtain b f where run: "parse_transaction p n s = Some (b, f, b64)"
    and eq: "buf_bytes b = payload" "buf_bytes f = fees"
    by (elim exE conjE)
  from run obtain o1 o2 where r1: "read_encoding p n s = Some (b64, o1)"
    and r2: "parse_to_sized_buffer p n (if unified_flow s then 2 else 1) o1 = Some (b, o2)"
    and r3: "parse_to_sized_buffer p n 1 o2 = Some (f, n)" and f: "unat (bsize f) \<le> 16"
    unfolding parse_transaction_Some by (elim exE conjE)
  note s1 = read_encoding_sound [OF p r1]
  note s2 = payload_sound [OF p conjunct1 [OF conjunct2 [OF s1]] r2]
  note s3 = sized1_sound [OF p s2(3) r3]
  have w: "ptr_bytes p (unat n) = (if unified_flow s then [encoding_byte b64] else []) @
      enc_payload s (buf_bytes b) @ enc_sized1 (buf_bytes f)"
    using conjunct1 [OF s1] unfolding s2(2) s3(2) drop_at_end [OF p] by simp
  have flow: "s = SWAP \<longrightarrow> \<not> b64" "s = SELL \<or> s = FUND \<longrightarrow> b64" using s1 by blast+
  have "length fees \<le> 16" using f bsize_length [OF s3(5)] eq(2) by simp
  with w s2(1) flow eq show ?format unfolding transaction_command_parts transaction_command_ok_def by blast
next
  assume ?format
  then have w: "ptr_bytes p (unat n) = (if unified_flow s then [encoding_byte b64] else []) @
      enc_payload s payload @ enc_sized1 fees"
    and len: "length payload < (if unified_flow s then 65536 else 256)" "length fees \<le> 16"
    and s: "s = SWAP \<longrightarrow> \<not> b64" "s = SELL \<or> s = FUND \<longrightarrow> b64"
    by (simp_all add: transaction_command_parts transaction_command_ok_def)
  have n: "unat n = (if unified_flow s then 1 else 0) + length (enc_payload s payload) + Suc (length fees)"
    using arg_cong [OF w, of length] by (simp add: length_ptr_bytes [OF p] split: if_splits)
  obtain o1 where r1: "read_encoding p n s = Some (b64, o1)" "unat o1 = (if unified_flow s then 1 else 0)"
    using read_encoding_complete [OF p w s] by blast
  have d1: "drop (unat o1) (ptr_bytes p (unat n)) = enc_payload s payload @ enc_sized1 fees"
    unfolding w by (simp add: r1(2))
  obtain b o2 where r2: "parse_to_sized_buffer p n (if unified_flow s then 2 else 1) o1 = Some (b, o2)"
      "buf_bytes b = payload" "unat o2 = unat o1 + length (enc_payload s payload)"
    using payload_complete [OF p _ len(1) d1] r1(2) n by auto
  have o1n: "unat o1 \<le> unat n" using r1(2) n by simp
  have d2: "drop (unat o2) (ptr_bytes p (unat n)) = enc_sized1 fees @ []"
    using payload_sound(2) [OF p o1n r2(1)] d1 r2(2) by simp
  have o2n: "unat o2 \<le> unat n" using r1(2) r2(3) n by simp
  obtain f o3 where r3: "parse_to_sized_buffer p n 1 o2 = Some (f, o3)" "buf_bytes f = fees"
      "unat o3 = unat o2 + Suc (length fees)"
    using sized1_complete [OF p o2n _ d2] len(2) by auto
  have "o3 = n" using n r1(2) r2(3) r3(3) by (simp add: word_unat_eq_iff)
  moreover have "unat (bsize f) \<le> 16"
    using sized1_sound(5) [OF p o2n r3(1)] r3(2) len(2) bsize_length by simp
  ultimately show ?parsed
    using r1(1) r2(1,2) r3(1,2) unfolding parse_transaction_Some by blast
qed

text \<open>
  C37: The command that carries a transaction is taken apart exactly when it is well-formed: in the
  unified flows the byte that selects the encoding and a payload with a length of two bytes, in the
  others a payload with a length of one byte, then the fees, of at most 16 bytes, and nothing after;
  the parts returned are these, and the encoding is the flow's or the one selected.
\<close>

theorem parse_transaction_iff:
  assumes p: "ptr_ok p (unat n)"
  shows "(\<exists>b f. parse_transaction p n s = Some (b, f, b64) \<and> buf_bytes b = payload \<and> buf_bytes f = fees) \<longleftrightarrow>
    ptr_bytes p (unat n) = transaction_command s b64 payload fees \<and> transaction_command_ok s b64 payload fees"
    (is "?parsed \<longleftrightarrow> ?format")
  by (rule parse_transaction_format [OF assms])

lemma parse_transaction_iff_witness:
  "\<exists>b f. parse_transaction (Ptr [1, 0, 2, 0x5A, 0x41, 1, 5] 0) 7 SELL_NG = Some (b, f, True) \<and>
     buf_bytes b = [0x5A, 0x41] \<and> buf_bytes f = [5]"
proof -
  have "ptr_ok (Ptr [1, 0, 2, 0x5A, 0x41, 1, 5] 0) (unat (7 :: u16))"
    "ptr_bytes (Ptr [1, 0, 2, 0x5A, 0x41, 1, 5] 0) (unat (7 :: u16)) = transaction_command SELL_NG True [0x5A, 0x41] [5]"
    "transaction_command_ok SELL_NG True [0x5A, 0x41] [5]"
    by code_simp+
  with parse_transaction_iff [of "Ptr [1, 0, 2, 0x5A, 0x41, 1, 5] 0" 7 SELL_NG True "[0x5A, 0x41]" "[5]"] show ?thesis by simp
qed

section \<open>Amounts keep their value\<close>

definition amount_ok :: "member \<Rightarrow> mem \<Rightarrow> bool" where
  "amount_ok mb m \<longleftrightarrow> fst mb + snd mb \<le> length m \<and> pb_array_size mb m < snd mb"

lemma leading_zeros_eq: "leading_zeros n bs = length (takeWhile (\<lambda>b. b = 0) (take n bs))"
  by (induction n bs rule: leading_zeros.induct) auto

lemma trim_no_change:
  "leading_zeros (pb_array_size mb m) (drop (fst mb + 1) m) = 0 \<Longrightarrow> trim_pb_bytes_array mb m = m"
  by (simp add: trim_pb_bytes_array_def Let_def)

text \<open>The size and the bytes after the leading zeros are cut.\<close>

lemma trim_bytes:
  assumes "amount_ok mb m"
  shows "pb_array_bytes mb (trim_pb_bytes_array mb m) = dropWhile (\<lambda>b. b = 0) (pb_array_bytes mb m)"
    and "same_outside (fst mb) (snd mb) m (trim_pb_bytes_array mb m)"
    and "amount_ok mb (trim_pb_bytes_array mb m)"
proof -
  let ?o = "fst mb" and ?n = "pb_array_size mb m"
  let ?i = "leading_zeros ?n (drop (?o + 1) m)"
  have room: "?o + snd mb \<le> length m" "?n < snd mb" "?o < length m" using assms by (auto simp: amount_ok_def)
  have bytes: "pb_array_bytes mb m = take ?n (drop (?o + 1) m)"
    by (simp add: pb_array_bytes_def mread_def)
  have i: "?i \<le> ?n" and rest: "drop ?i (pb_array_bytes mb m) = dropWhile (\<lambda>b. b = 0) (pb_array_bytes mb m)"
    using length_takeWhile_le [of _ "pb_array_bytes mb m"] room
    by (simp_all add: leading_zeros_eq bytes dropWhile_eq_drop)
  have len: "length (pb_array_bytes mb m) = ?n" using room by (simp add: bytes)
  define m1 where "m1 = m[?o := m ! ?o - of_nat ?i]"
  have u: "unat (m ! ?o - of_nat ?i) = ?n - ?i"
    using i unat_u8_less [of "m ! ?o"] by (subst unat_sub) (simp_all add: pb_array_size_def unat_of_nat_u8 word_le_nat_alt)
  have size1: "pb_array_size mb m1 = ?n - ?i"
    using room(3) u by (simp add: pb_array_size_def m1_def)
  have m1: "length m1 = length m" "drop (?o + 1) m1 = drop (?o + 1) m"
    by (simp_all add: m1_def)
  have "drop (?o + 1 + ?i) m1 = drop ?i (drop (?o + 1) m1)"
    by (simp only: drop_drop ac_simps)
  then have src: "mread (?o + 1 + ?i) (?n - ?i) m1 = drop ?i (pb_array_bytes mb m)"
    unfolding mread_def bytes drop_take m1(2) by (rule arg_cong)
  let ?t = "trim_pb_bytes_array mb m"
  show "pb_array_bytes mb ?t = dropWhile (\<lambda>b. b = 0) (pb_array_bytes mb m)"
    and "same_outside ?o (snd mb) m ?t" and "amount_ok mb ?t"
  proof -
    have "pb_array_bytes mb ?t = dropWhile (\<lambda>b. b = 0) (pb_array_bytes mb m) \<and>
        same_outside ?o (snd mb) m ?t \<and> pb_array_size mb ?t < snd mb"
    proof (cases "?i = 0")
      case True
      then show ?thesis using trim_no_change [OF True] rest room by simp
    next
      case False
      let ?bs = "drop ?i (pb_array_bytes mb m)"
      have t: "?t = mwrite (?o + 1) ?bs m1"
        unfolding trim_pb_bytes_array_def Let_def memmove_def m1_def [symmetric] size1 src using False by simp
      have fits: "?o + 1 + length ?bs \<le> ?o + snd mb" "length ?bs = ?n - ?i" using len room(2) by simp_all
      have same1: "same_outside ?o (snd mb) m m1"
        using room same_outside_mwrite [of ?o ?o "[m ! ?o - of_nat ?i]" "snd mb" m]
        by (simp add: m1_def mwrite_def upd_conv_take_nth_drop)
      have same: "same_outside ?o (snd mb) m ?t"
        unfolding t by (rule same_outside_then_mwrite [OF same1]) (use fits room in auto)
      have at: "?t ! ?o = m1 ! ?o" using fits room m1(1) by (simp add: t nth_mwrite)
      then have sz: "pb_array_size mb ?t = ?n - ?i" using size1 by (simp add: pb_array_size_def)
      have "mread (?o + 1) (?n - ?i) (mwrite (?o + 1) ?bs m1) = ?bs"
        by (rule mread_mwrite_same) (use fits room m1(1) in linarith)+
      then have "mread (?o + 1) (?n - ?i) ?t = ?bs" by (simp only: t)
      then have "pb_array_bytes mb ?t = ?bs" by (simp only: pb_array_bytes_def [of mb ?t] sz)
      then show ?thesis using rest same sz room(2) by simp
    qed
    then show "pb_array_bytes mb ?t = dropWhile (\<lambda>b. b = 0) (pb_array_bytes mb m)"
      "same_outside ?o (snd mb) m ?t" "amount_ok mb ?t"
      using same_outside_length [of ?o "snd mb" m ?t] room(1) by (auto simp: amount_ok_def)
  qed
qed

lemma array_frame:
  assumes "same_outside off k m m'" and "off + k \<le> fst mb \<or> fst mb + snd mb \<le> off" and "amount_ok mb m"
  shows "pb_array_size mb m' = pb_array_size mb m" and "pb_array_bytes mb m' = pb_array_bytes mb m"
    and "amount_ok mb m'"
proof -
  have room: "fst mb + snd mb \<le> length m" "pb_array_size mb m < snd mb" using assms(3) by (auto simp: amount_ok_def)
  show sz: "pb_array_size mb m' = pb_array_size mb m"
    using frame_reads(1) [OF assms(1,2) room(1)] room(2) by (simp add: pb_array_size_def)
  have "mread (fst mb + 1) (pb_array_size mb m) m' = mread (fst mb + 1) (pb_array_size mb m) m"
    by (rule same_outside_mread [OF assms(1)]) (use assms(2) room in auto)
  then show "pb_array_bytes mb m' = pb_array_bytes mb m" by (simp add: pb_array_bytes_def sz)
  show "amount_ok mb m'"
    using sz room same_outside_length [OF assms(1)] by (simp add: amount_ok_def)
qed

text \<open>The amounts of a flow.\<close>

definition amount_members :: "subcommand_e \<Rightarrow> member list" where
  "amount_members s =
     (if swap_based s then [swap_amount_to_provider, swap_amount_to_wallet]
      else if sell_based s then [sell_in_amount] else [fund_in_amount])"

lemma trim_amounts_effect:
  assumes "\<forall>mb \<in> set (amount_members s). amount_ok mb m"
  shows "(\<forall>mb \<in> set (amount_members s).
      pb_array_bytes mb (trim_amounts s m) = dropWhile (\<lambda>b. b = 0) (pb_array_bytes mb m) \<and>
      be_value (pb_array_bytes mb (trim_amounts s m)) = be_value (pb_array_bytes mb m)) \<and>
    length (trim_amounts s m) = length m \<and>
    (\<forall>i < length m. (\<forall>mb \<in> set (amount_members s). i < fst mb \<or> fst mb + snd mb \<le> i) \<longrightarrow>
       trim_amounts s m ! i = m ! i)"
proof (cases "swap_based s")
  case False
  then obtain mb where mb: "amount_members s = [mb]" "trim_amounts s m = trim_pb_bytes_array mb m"
    by (cases s) (auto simp: amount_members_def trim_amounts_def)
  with trim_bytes [of mb m] assms show ?thesis by (simp add: same_outside_def)
next
  case True
  let ?a = swap_amount_to_provider and ?b = swap_amount_to_wallet
  let ?m = "trim_pb_bytes_array ?a m"
  have ok: "amount_ok ?a m" "amount_ok ?b m" using assms True by (simp_all add: amount_members_def)
  note a = trim_bytes [OF ok(1)]
  have apart: "fst ?a + snd ?a \<le> fst ?b \<or> fst ?b + snd ?b \<le> fst ?a"
    by (simp add: layout_defs)
  note b = array_frame [OF a(2) apart ok(2)]
  note c = trim_bytes [OF b(3)]
  have apart': "fst ?b + snd ?b \<le> fst ?a \<or> fst ?a + snd ?a \<le> fst ?b"
    by (simp add: layout_defs)
  note d = array_frame [OF c(2) apart' a(3)]
  have "trim_amounts s m = trim_pb_bytes_array ?b ?m" using True by (auto simp: trim_amounts_def)
  moreover have "amount_members s = [?a, ?b]" using True by (auto simp: amount_members_def)
  ultimately show ?thesis
    using a(1,2) b(2) c(1,2) d(2) by (auto simp: same_outside_def)
qed

text \<open>
  C38: Trimming cuts the leading zeros of the amounts of the flow and nothing else: the bytes of each
  amount are the ones before without the zeros in front, so that the big-endian number they denote
  is the same and its first byte is not zero; and no other byte of the transaction changes.
\<close>

theorem trim_amounts_value:
  assumes "\<forall>mb \<in> set (amount_members s). amount_ok mb m"
  shows "(\<forall>mb \<in> set (amount_members s).
      pb_array_bytes mb (trim_amounts s m) = dropWhile (\<lambda>b. b = 0) (pb_array_bytes mb m) \<and>
      be_value (pb_array_bytes mb (trim_amounts s m)) = be_value (pb_array_bytes mb m)) \<and>
    length (trim_amounts s m) = length m \<and>
    (\<forall>i < length m. (\<forall>mb \<in> set (amount_members s). i < fst mb \<or> fst mb + snd mb \<le> i) \<longrightarrow>
       trim_amounts s m ! i = m ! i)"
  by (rule trim_amounts_effect [OF assms])

lemma trim_amounts_value_witness:
  "let m = mwrite 110 [3, 0, 0, 5] (replicate 648 0) in
   be_value (pb_array_bytes fund_in_amount (trim_amounts FUND m)) = be_value [0, 0, 5]"
proof -
  let ?m = "mwrite 110 [3, 0, 0, 5] (replicate 648 0) :: mem"
  have "?m ! 110 = 3" "length ?m = 648" by (simp_all add: mwrite_def nth_append)
  then have "\<forall>mb \<in> set (amount_members FUND). amount_ok mb ?m" and "pb_array_size fund_in_amount ?m = 3"
    by (simp_all add: amount_members_def amount_ok_def fund_in_amount_def pb_array_size_def)
  moreover have "mread 111 3 ?m = [0, 0, 5]"
    by (simp add: mwrite_def mread_def)
  ultimately have "pb_array_bytes fund_in_amount ?m = [0, 0, 5]"
    by (simp add: pb_array_bytes_def fund_in_amount_def)
  with trim_amounts_value [of FUND ?m] \<open>\<forall>mb \<in> set (amount_members FUND). amount_ok mb ?m\<close> show ?thesis
    by (simp add: Let_def amount_members_def)
qed

section \<open>The data, wherever they are\<close>

lemma undecoded_ok:
  assumes "data_ok cmd c"
  shows "ptr_ok (undecoded_transaction e cmd c) (unat (cmd_data_size cmd))"
    and "ptr_bytes (undecoded_transaction e cmd c) (unat (cmd_data_size cmd)) = data_bytes cmd c"
proof -
  have "ptr_ok (undecoded_transaction e cmd c) (unat (cmd_data_size cmd)) \<and>
    ptr_bytes (undecoded_transaction e cmd c) (unat (cmd_data_size cmd)) = data_bytes cmd c"
  proof (cases "cmd_data cmd")
    case (In_apdu_buffer m)
    with assms show ?thesis by (simp add: undecoded_transaction_def data_ok_def data_pointer_def data_bytes_def)
  next
    case In_raw_transaction
    let ?n = "unat (cmd_data_size cmd)" and ?l = "local_array e sizeof_raw_transaction"
    have "?n \<le> length (tx c)" "?n \<le> sizeof_raw_transaction"
      using assms In_raw_transaction by (simp_all add: data_ok_def data_pointer_def)
    then have "length (mread 0 ?n (tx c)) = ?n" "0 + ?n \<le> length ?l"
      by (simp_all add: length_mread local_array_def)
    with mread_mwrite_same [of 0 "mread 0 ?n (tx c)" ?l ?n] In_raw_transaction show ?thesis
      by (simp add: undecoded_transaction_def data_pointer_def data_bytes_def length_mwrite)
  qed
  then show "ptr_ok (undecoded_transaction e cmd c) (unat (cmd_data_size cmd))"
    "ptr_bytes (undecoded_transaction e cmd c) (unat (cmd_data_size cmd)) = data_bytes cmd c" by blast+
qed

section \<open>The decoded structure\<close>

definition message_depth :: "subcommand_e \<Rightarrow> nat" where
  "message_depth s = (if sell_based s then 1 else 0)"

definition message_size :: "subcommand_e \<Rightarrow> nat" where
  "message_size s = (if swap_based s then sizeof_NewTransactionResponse
     else if sell_based s then sizeof_NewSellResponse else sizeof_NewFundResponse)"

lemma message_table_fits: "table_fits (message_depth s) (message_table s) (message_size s)"
  and message_table_plain: "plain_table (message_depth s) (message_table s)"
  and message_size_le: "message_size s \<le> sizeof_tx"
  using swap_table_fits sell_table_fits fund_table_fits swap_table_plain sell_table_plain fund_table_plain
  by (cases s; simp add: message_depth_def message_table_def message_size_def layout_defs)+

definition message_ok :: "subcommand_e \<Rightarrow> mem \<Rightarrow> bool" where
  "message_ok s m \<longleftrightarrow> length m = sizeof_tx \<and> well_formed (message_depth s) (message_table s) 0 m"

lemma deserialize_frame:
  assumes "deserialize_protobuf_payload e payload s b64 m = (ok, m')" and "length m = sizeof_tx"
  shows "length m' = sizeof_tx" and "ok \<Longrightarrow> message_ok s m'"
proof -
  have "length m' = sizeof_tx \<and> (ok \<longrightarrow> well_formed (message_depth s) (message_table s) 0 m')"
  proof (cases "\<exists>st s2. pb_decode (stack_frames e) st (message_table s) 0 m = (ok, m', s2)")
    case True
    then obtain st s2 where d: "pb_decode (stack_frames e) st (message_table s) 0 m = (ok, m', s2)" by blast
    have room: "0 + message_size s \<le> length m" using assms(2) message_size_le by simp
    have "length m' = length m"
      using same_outside_length pb_decode_within [OF message_table_fits room d] by blast
    moreover have "ok \<Longrightarrow> well_formed (message_depth s) (message_table s) 0 m'"
      using pb_decode_wf [OF message_table_fits message_table_plain room] d by simp
    ultimately show ?thesis using assms(2) by simp
  next
    case False
    then have "\<not> ok \<and> m' = m"
      using assms(1)
      by (auto simp: deserialize_protobuf_payload_def Let_def split: prod.splits option.splits if_splits)
    with assms(2) show ?thesis by simp
  qed
  then show "length m' = sizeof_tx" "ok \<Longrightarrow> message_ok s m'" by (auto simp: message_ok_def)
qed

text \<open>What is known of the members of a well-formed message.\<close>

lemma wf_member:
  assumes "message_ok s m" and "i < length (message_table s)"
  shows "f_ltype (message_table s ! i) = LTYPE_BYTES \<Longrightarrow> amount_ok (members_from 0 (message_table s) ! i) m"
    and "f_ltype (message_table s ! i) = LTYPE_STRING \<Longrightarrow> 0 \<in> set (member_bytes (members_from 0 (message_table s) ! i) m)"
proof -
  let ?mb = "members_from 0 (message_table s) ! i"
  have pl: "list_all plain (message_table s)"
    using message_table_plain [of s] plain_table_nth(1) by (auto simp: list_all_length)
  have mb: "fst ?mb = field_data (message_table s) 0 i" "snd ?mb = data_size (message_table s ! i)"
    using members_from_field_data [OF pl assms(2), of 0] by simp_all
  have room: "fst ?mb + snd ?mb \<le> length m"
    using field_room(2) [OF message_table_fits message_table_plain assms(2), of 0] message_size_le [of s] assms(1)
    by (simp add: mb message_ok_def)
  have wf: "wf_field (message_depth s) (message_table s ! i) (fst ?mb) m"
    using assms by (simp add: message_ok_def well_formed_def mb(1))
  show "f_ltype (message_table s ! i) = LTYPE_BYTES \<Longrightarrow> amount_ok ?mb m"
    using wf room mb(2) by (simp add: wf_field.simps [of "message_depth s"] amount_ok_def pb_array_size_def)
  show "f_ltype (message_table s ! i) = LTYPE_STRING \<Longrightarrow> 0 \<in> set (member_bytes ?mb m)"
    using wf mb(2) by (simp add: wf_field.simps [of "message_depth s"] member_bytes_def)
qed

lemma message_amounts_ok:
  assumes "message_ok s m"
  shows "\<forall>mb \<in> set (amount_members s). amount_ok mb m"
proof -
  consider "swap_based s" | "sell_based s" | "fund_based s" by (cases s) auto
  then show ?thesis
  proof cases
    case 1
    then have t: "message_table s = ledger_swap_NewTransactionResponse_fields" by (auto simp: message_table_def)
    show ?thesis
      using wf_member(1) [OF assms, of 8] wf_member(1) [OF assms, of 9] 1 unfolding t swap_members
      by (auto simp: amount_members_def ledger_swap_NewTransactionResponse_fields_def SINGULAR_STATIC_def)
  next
    case 2
    then have t: "message_table s = ledger_swap_NewSellResponse_fields" by (auto simp: message_table_def)
    show ?thesis
      using wf_member(1) [OF assms, of 2] 2 unfolding t sell_members
      by (auto simp: amount_members_def ledger_swap_NewSellResponse_fields_def SINGULAR_STATIC_def)
  next
    case 3
    then have t: "message_table s = ledger_swap_NewFundResponse_fields" by (auto simp: message_table_def)
    show ?thesis
      using wf_member(1) [OF assms, of 3] 3 unfolding t fund_members
      by (auto simp: amount_members_def ledger_swap_NewFundResponse_fields_def SINGULAR_STATIC_def)
  qed
qed

section \<open>Normalisation keeps to its members\<close>

lemma same_outside_then:
  "same_outside o1 n1 m m1 \<Longrightarrow> same_outside o2 n2 m1 m2 \<Longrightarrow> off \<le> o1 \<Longrightarrow> off \<le> o2 \<Longrightarrow> o1 + n1 \<le> off + n \<Longrightarrow>
   o2 + n2 \<le> off + n \<Longrightarrow> same_outside off n m m2"
  by (meson same_outside_trans same_outside_weaken)

lemma same_outside_nth:
  "same_outside off n m m' \<Longrightarrow> i + 1 \<le> off \<or> off + n \<le> i \<Longrightarrow> i < length m \<Longrightarrow> m' ! i = m ! i"
  by (auto simp: same_outside_def)

lemma length_to_uppercase [simp]: "length (to_uppercase str n) = length str"
  by (simp add: to_uppercase_def)

lemma normalize_currency_within:
  assumes "fst mb + snd mb \<le> length m"
  shows "same_outside (fst mb) (snd mb) m (normalize_currency mb m)"
proof -
  let ?m = "mwrite (fst mb) (to_uppercase (member_bytes mb m) (of_nat (snd mb))) m"
  have len: "length (member_bytes mb m) = snd mb" using assms by (simp add: member_bytes_def length_mread)
  have m1: "same_outside (fst mb) (snd mb) m ?m"
    using assms len by (simp add: same_outside_mwrite)
  then have "length (member_bytes mb ?m) = snd mb"
    using assms same_outside_length [OF m1] by (simp add: member_bytes_def length_mread)
  then have "length (set_ledger_currency_name (member_bytes mb ?m) (snd mb)) = snd mb"
    by (simp add: length_set_ledger_currency_name)
  then show ?thesis
    unfolding normalize_currency_def Let_def
    by (intro same_outside_then_mwrite [OF m1]) (use assms in auto)
qed

text \<open>The currency of a member, as a C string, becomes Ledger's name for it.\<close>

lemma normalize_currency_name:
  assumes "fst mb + snd mb \<le> length m" and "6 \<le> snd mb" "snd mb < 256"
  shows "cstr (member_bytes mb (normalize_currency mb m)) = ledger_ticker (cstr (member_bytes mb m))"
proof -
  let ?u = "to_uppercase (member_bytes mb m) (of_nat (snd mb))"
  let ?m = "mwrite (fst mb) ?u m"
  let ?v = "set_ledger_currency_name ?u (snd mb)"
  have len: "length ?u = snd mb" using assms by (simp add: member_bytes_def length_mread)
  have m1: "member_bytes mb ?m = ?u"
    using mread_mwrite_same [of "fst mb" ?u m "snd mb"] assms(1) len by (simp add: member_bytes_def)
  have "length ?v = snd mb" using len by (simp add: length_set_ledger_currency_name)
  then have "member_bytes mb (mwrite (fst mb) ?v ?m) = ?v"
    using mread_mwrite_same [of "fst mb" ?v ?m "snd mb"] assms(1) len by (simp add: member_bytes_def length_mwrite)
  then have "member_bytes mb (normalize_currency mb m) = ?v"
    unfolding normalize_currency_def Let_def m1 by simp
  moreover have "cstrlen (member_bytes mb m) \<le> unat (of_nat (snd mb) :: u8)"
    using cstrlen_le [of "member_bytes mb m"] assms by (simp add: unat_of_nat_u8 member_bytes_def length_mread)
  ultimately show ?thesis using normalized_ticker assms(2) by simp
qed

lemma strip_address_header_within:
  assumes "151 \<le> length m"
  shows "same_outside (fst swap_payin_address) (snd swap_payin_address) m (strip_address_header m)"
proof (cases "find (\<lambda>i. m ! i = 0x3A) [0..<151]")
  case None
  then show ?thesis by (simp add: strip_address_header_def swap_payin_address_def)
next
  case (Some i)
  then have "i < 151" by (auto simp: find_Some_iff)
  then have "length (mread (i + 1) (151 - i - 1) m) = 151 - i - 1" using assms by (simp add: length_mread)
  then have "same_outside 0 151 m (mwrite 0 (mread (i + 1) (151 - i - 1) m) m)"
    using assms by (intro same_outside_mwrite) auto
  with Some show ?thesis by (simp add: strip_address_header_def swap_payin_address_def memmove_def)
qed

text \<open>The members that a flow normalises, in the order of the structure.\<close>

definition normalized_members :: "subcommand_e \<Rightarrow> member list" where
  "normalized_members s =
     (if swap_based s then [swap_currency_from, swap_currency_to, swap_payin_address]
      else if sell_based s then [sell_in_currency] else [fund_in_currency])"

definition outside_members :: "member list \<Rightarrow> nat \<Rightarrow> nat \<Rightarrow> bool" where
  "outside_members mbs off n \<longleftrightarrow> (\<forall>mb \<in> set mbs. off + n \<le> fst mb \<or> fst mb + snd mb \<le> off)"

lemma normalize_currencies_frame:
  assumes "length m = sizeof_tx"
  shows "length (normalize_currencies s m) = sizeof_tx"
    and "outside_members (normalized_members s) off n \<Longrightarrow> off + n \<le> sizeof_tx \<Longrightarrow>
      mread off n (normalize_currencies s m) = mread off n m"
    and "outside_members (normalized_members s) i 1 \<Longrightarrow> i < sizeof_tx \<Longrightarrow> normalize_currencies s m ! i = m ! i"
proof -
  have all: "length (normalize_currencies s m) = sizeof_tx \<and>
    (\<forall>i < sizeof_tx. outside_members (normalized_members s) i 1 \<longrightarrow> normalize_currencies s m ! i = m ! i)"
  proof (cases "swap_based s")
    case False
    then obtain mb where mb: "normalized_members s = [mb]" "normalize_currencies s m = normalize_currency mb m"
      "fst mb + snd mb \<le> length m"
      using assms by (cases s) (auto simp: normalized_members_def normalize_currencies_def layout_defs)
    with normalize_currency_within [OF mb(3)] assms show ?thesis
      by (auto simp: same_outside_def outside_members_def)
  next
    case True
    let ?a = "normalize_currency swap_currency_from m"
    let ?b = "normalize_currency swap_currency_to ?a"
    have a: "same_outside (fst swap_currency_from) (snd swap_currency_from) m ?a"
      using normalize_currency_within [of swap_currency_from m] assms by (simp add: layout_defs)
    have b: "same_outside (fst swap_currency_to) (snd swap_currency_to) ?a ?b"
      using normalize_currency_within [of swap_currency_to ?a] same_outside_length [OF a] assms by (simp add: layout_defs)
    have c: "same_outside (fst swap_payin_address) (snd swap_payin_address) ?b (strip_address_header ?b)"
      using strip_address_header_within [of ?b] same_outside_length [OF a] same_outside_length [OF b] assms
      by (simp add: layout_defs)
    have "normalize_currencies s m = strip_address_header ?b"
      "normalized_members s = [swap_currency_from, swap_currency_to, swap_payin_address]"
      using True by (auto simp: normalize_currencies_def normalized_members_def)
    moreover have "strip_address_header ?b ! i = m ! i"
      if "i < sizeof_tx" "outside_members [swap_currency_from, swap_currency_to, swap_payin_address] i 1" for i
      using that same_outside_nth [OF a, of i] same_outside_nth [OF b, of i] same_outside_nth [OF c, of i]
        same_outside_length [OF a] same_outside_length [OF b] assms
      by (simp add: outside_members_def)
    ultimately show ?thesis
      using same_outside_length [OF a] same_outside_length [OF b] same_outside_length [OF c] assms by simp
  qed
  then show len: "length (normalize_currencies s m) = sizeof_tx"
    and "outside_members (normalized_members s) i 1 \<Longrightarrow> i < sizeof_tx \<Longrightarrow> normalize_currencies s m ! i = m ! i"
    by blast+
  assume o: "outside_members (normalized_members s) off n" "off + n \<le> sizeof_tx"
  show "mread off n (normalize_currencies s m) = mread off n m"
  proof (rule nth_equalityI)
    show "length (mread off n (normalize_currencies s m)) = length (mread off n m)"
      using len assms by (simp add: mread_def)
    fix i
    assume "i < length (mread off n (normalize_currencies s m))"
    then have i: "i < n" using length_mread_le order_less_le_trans by blast
    then have "outside_members (normalized_members s) (off + i) 1"
      using o(1) by (force simp: outside_members_def)
    then show "mread off n (normalize_currencies s m) ! i = mread off n m ! i"
      using all i o(2) len assms by (simp add: nth_mread)
  qed
qed

lemma amounts_apart: "mb \<in> set (amount_members s) \<Longrightarrow> outside_members (normalized_members s) (fst mb) (snd mb)"
  by (cases s) (auto simp: amount_members_def normalized_members_def outside_members_def layout_defs)

lemma amounts_after_normalize:
  assumes "message_ok s m" and mb: "mb \<in> set (amount_members s)"
  shows "amount_ok mb (normalize_currencies s m)"
    and "pb_array_bytes mb (normalize_currencies s m) = pb_array_bytes mb m"
proof -
  have ok: "amount_ok mb m" and len: "length m = sizeof_tx"
    using message_amounts_ok [OF assms(1)] assms by (auto simp: message_ok_def)
  then have room: "fst mb + snd mb \<le> sizeof_tx" "pb_array_size mb m < snd mb" by (simp_all add: amount_ok_def)
  note apart = amounts_apart [OF mb]
  have "outside_members (normalized_members s) (fst mb) 1"
    "outside_members (normalized_members s) (fst mb + 1) (pb_array_size mb m)"
    using apart room(2) by (force simp: outside_members_def)+
  then have sz: "pb_array_size mb (normalize_currencies s m) = pb_array_size mb m"
    and bytes: "mread (fst mb + 1) (pb_array_size mb m) (normalize_currencies s m) = mread (fst mb + 1) (pb_array_size mb m) m"
    using normalize_currencies_frame(2,3) [OF len] room by (simp_all add: pb_array_size_def)
  show "amount_ok mb (normalize_currencies s m)"
    using normalize_currencies_frame(1) [OF len] room sz by (simp add: amount_ok_def)
  show "pb_array_bytes mb (normalize_currencies s m) = pb_array_bytes mb m"
    using sz bytes by (simp add: pb_array_bytes_def)
qed

text \<open>What the context holds of a message in the end.\<close>

definition normalized :: "subcommand_e \<Rightarrow> mem \<Rightarrow> mem" where
  "normalized s m = trim_amounts s (normalize_currencies s m)"

lemma length_normalized: "message_ok s m \<Longrightarrow> length (normalized s m) = sizeof_tx"
  using trim_amounts_effect [of s "normalize_currencies s m"] amounts_after_normalize(1)
    normalize_currencies_frame(1)
  by (simp add: normalized_def message_ok_def)

lemma normalized_amount:
  assumes "message_ok s m" and "mb \<in> set (amount_members s)"
  shows "pb_array_bytes mb (normalized s m) = dropWhile (\<lambda>b. b = 0) (pb_array_bytes mb m)"
  using trim_amounts_effect [of s "normalize_currencies s m"] amounts_after_normalize [OF assms(1)] assms(2)
  by (simp add: normalized_def)

section \<open>The command as a whole\<close>

text \<open>What the decoder makes of a payload, in a context whose union holds \<open>m0\<close>.\<close>

definition payload_decodes ::
    "outside \<Rightarrow> subcommand_e \<Rightarrow> bool \<Rightarrow> u8 list \<Rightarrow> mem \<Rightarrow> mem \<Rightarrow> bool" where
  "payload_decodes e s b64 payload m0 m \<longleftrightarrow>
     (\<exists>bytes.
        (if b64 then 0 < fst (base64_decode (local_array e 512) 512 payload (length payload)) \<and>
            bytes = take (nat (fst (base64_decode (local_array e 512) 512 payload (length payload))))
              (snd (base64_decode (local_array e 512) 512 payload (length payload)))
         else bytes = payload) \<and>
        (\<exists>s2. pb_decode (stack_frames e) (pb_istream_from_buffer bytes (length bytes)) (message_table s) 0 m0 =
          (True, m, s2)))"

lemma base64_result:
  assumes "base64_decode (local_array e 512) 512 bs n = (r, out)"
  shows "r = -1 \<or> 0 \<le> r \<and> r \<le> 512" and "length out = 512"
  using base64_decode_bounds [OF _ assms] same_outside_length by (fastforce simp: local_array_def)+

lemma deserialize_decodes:
  assumes run: "deserialize_protobuf_payload e b s b64 m0 = (True, m)" and ok: "buf_ok b"
  shows "payload_decodes e s b64 (buf_bytes b) m0 m"
proof (cases b64)
  case False
  then show ?thesis
    using run bsize_length [OF ok]
    by (auto simp: deserialize_protobuf_payload_def payload_decodes_def Let_def split: prod.splits)
next
  case True
  obtain r out where b: "base64_decode (local_array e 512) 512 (buf_bytes b) (length (buf_bytes b)) = (r, out)"
    by fastforce
  note bounds = base64_result [OF b]
  have r: "0 < r"
    using run True b bsize_length [OF ok]
    by (auto simp: deserialize_protobuf_payload_def split: if_splits)
  then have "r \<le> 512" using bounds(1) by auto
  then have u: "unat (of_int r :: u16) = nat r"
    using r by (simp add: unsigned_of_int unat_eq_nat_uint uint_word_of_int take_bit_int_eq_self)
  let ?bytes = "take (nat r) out"
  have "length ?bytes = nat r" using bounds(2) \<open>r \<le> 512\<close> by simp
  moreover have "deserialize_protobuf_payload e b s b64 m0 =
      (case pb_decode (stack_frames e) (pb_istream_from_buffer ?bytes (nat r)) (message_table s) 0 m0 of
         (ok, m, _) \<Rightarrow> (ok, m))"
    using True b bsize_length [OF ok] r u
    by (simp add: deserialize_protobuf_payload_def buf_bytes_def [of "\<lparr>bptr = _, bsize = _\<rparr>"] mread_def)
  then obtain s2 where
    "pb_decode (stack_frames e) (pb_istream_from_buffer ?bytes (nat r)) (message_table s) 0 m0 = (True, m, s2)"
    using run by (auto split: prod.splits)
  ultimately show ?thesis
    using True b r unfolding payload_decodes_def by (intro exI [of _ ?bytes]) auto
qed

lemma digest_context:
  "calculate_sha256_digest P b c = (ok, c') \<Longrightarrow>
   \<exists>d1 d2. c' = c\<lparr>sha256_digest_prefixed := d1, sha256_digest_no_prefix := d2\<rparr> \<and>
     (ok \<longrightarrow> cx_sha256 P (ascii ''.'' @ buf_bytes b) = Some d1 \<and> cx_sha256 P (buf_bytes b) = Some d2)"
  by (cases c) (auto simp: calculate_sha256_digest_def Let_def split: option.splits)

lemma fees_context:
  assumes "buf_ok f" and "unat (bsize f) \<le> 16" and "length (transaction_fee c) = sizeof_transaction_fee"
  shows "save_fees f c = c\<lparr>transaction_fee_length := of_nat (length (buf_bytes f)),
    transaction_fee := buf_bytes f @ replicate (16 - length (buf_bytes f)) 0\<rparr>"
proof -
  have "(ucast (bsize f) :: u8) = of_nat (unat (bsize f))" by simp
  moreover have "unat (ucast (bsize f) :: u8) = unat (bsize f)"
    using assms(2) by (simp add: unsigned_ucast_eq take_bit_nat_eq_self_iff)
  moreover have "length (buf_bytes f) = unat (bsize f)" using assms(1) by (rule length_buf_bytes)
  ultimately show ?thesis
    using assms(3) by (simp add: save_fees_def memset_def mwrite_def sizeof_transaction_fee_def buf_bytes_def)
qed

lemma parse_transaction_buffers:
  assumes p: "ptr_ok p (unat n)" and run: "parse_transaction p n s = Some (b, f, b64)"
  shows "buf_ok b" and "buf_ok f" and "unat (bsize f) \<le> 16"
proof -
  from run obtain o1 o2 where r1: "read_encoding p n s = Some (b64, o1)"
    and r2: "parse_to_sized_buffer p n (if unified_flow s then 2 else 1) o1 = Some (b, o2)"
    and r3: "parse_to_sized_buffer p n 1 o2 = Some (f, n)" and f: "unat (bsize f) \<le> 16"
    unfolding parse_transaction_Some by (elim exE conjE)
  note s2 = payload_sound [OF p conjunct1 [OF conjunct2 [OF read_encoding_sound [OF p r1]]] r2]
  show "buf_ok b" by (rule s2(4))
  show "buf_ok f" by (rule sized1_sound(5) [OF p s2(3) r3])
  show "unat (bsize f) \<le> 16" by (rule f)
qed

text \<open>The identifier of a decoded transaction is the one the session was given.\<close>

definition transaction_id_matches :: "subcommand_e \<Rightarrow> u8 list \<Rightarrow> mem \<Rightarrow> bool" where
  "transaction_id_matches s tx_id m \<longleftrightarrow>
     (if s = SWAP then member_bytes swap_device_transaction_id m = take 10 tx_id @ [0]
      else pb_array_bytes (id_member s) m = tx_id)"

lemma check_transaction_id_matches:
  assumes "check_transaction_id s c" and "length (device_transaction_id c) = 32" and "message_ok s (tx c)"
  shows "transaction_id_matches s (device_transaction_id c) (tx c)"
proof (cases "s = SWAP")
  case True
  have "member_bytes swap_device_transaction_id (tx c) = mread 567 10 (tx c) @ [tx c ! 577]"
    using assms(3) Cons_nth_drop_Suc [of 577 "tx c"] take_add [of 10 1 "drop 567 (tx c)"]
    by (simp add: member_bytes_def swap_device_transaction_id_def mread_def message_ok_def sizeof_tx_def)
      (metis Cons_nth_drop_Suc take_Suc_Cons take0)
  with True assms(1) show ?thesis
    by (simp add: check_transaction_id_def transaction_id_matches_def swap_device_transaction_id_def
        sizeof_swap_id_def Let_def split: if_splits)
next
  case False
  with assms(1,2) show ?thesis
    by (auto simp: check_transaction_id_def transaction_id_matches_def sizeof_unified_id_def Let_def split: if_splits)
qed

lemma receive_transaction_effect:
  assumes run: "receive_transaction P e cmd c = (None, c')" and data: "data_ok cmd c" and size: "ctx_sizes c"
  shows "\<exists>b64 payload fees m d1 d2.
    data_bytes cmd c = transaction_command (cmd_subcommand cmd) b64 payload fees \<and>
    transaction_command_ok (cmd_subcommand cmd) b64 payload fees \<and>
    cx_sha256 P (ascii ''.'' @ payload) = Some d1 \<and> cx_sha256 P payload = Some d2 \<and>
    payload_decodes e (cmd_subcommand cmd) b64 payload (tx c) m \<and> message_ok (cmd_subcommand cmd) m \<and>
    (transaction_id_matches (cmd_subcommand cmd) (device_transaction_id c) m \<or> BYPASS_TRANSACTION_ID_CHECK P) \<and>
    check_extra_id_extra_data P (cmd_subcommand cmd) m \<and>
    c' = c\<lparr>sha256_digest_prefixed := d1, sha256_digest_no_prefix := d2,
      tx := normalized (cmd_subcommand cmd) m, transaction_fee_length := of_nat (length fees),
      transaction_fee := fees @ replicate (16 - length fees) 0\<rparr>"
proof -
  let ?s = "cmd_subcommand cmd" and ?p = "undecoded_transaction e cmd c"
  note p = undecoded_ok [OF data, of e]
  obtain b f b64 where parsed: "parse_transaction ?p (cmd_data_size cmd) ?s = Some (b, f, b64)"
    using run by (cases "parse_transaction ?p (cmd_data_size cmd) ?s") (auto simp: receive_transaction_def)
  note bufs = parse_transaction_buffers [OF p(1) parsed]
  have format: "data_bytes cmd c = transaction_command ?s b64 (buf_bytes b) (buf_bytes f)"
    "transaction_command_ok ?s b64 (buf_bytes b) (buf_bytes f)"
    using parse_transaction_format [OF p(1), of ?s b64 "buf_bytes b" "buf_bytes f"] parsed p(2) by auto
  obtain hashed c1 where c1: "calculate_sha256_digest P b c = (hashed, c1)" by fastforce
  obtain d1 d2 where c1': "c1 = c\<lparr>sha256_digest_prefixed := d1, sha256_digest_no_prefix := d2\<rparr>"
    and d: "hashed \<Longrightarrow> cx_sha256 P (ascii ''.'' @ buf_bytes b) = Some d1 \<and> cx_sha256 P (buf_bytes b) = Some d2"
    using digest_context [OF c1] by blast
  obtain ok m where m: "deserialize_protobuf_payload e b ?s b64 (tx c1) = (ok, m)" by fastforce
  have len: "length (tx c1) = sizeof_tx" "length (device_transaction_id c) = 32" "tx c1 = tx c"
    and fee: "length (transaction_fee c) = sizeof_transaction_fee"
    using size by (simp_all add: ctx_sizes_def sizeof_unified_id_def c1')
  have hashed: hashed and ok: ok and chk: "check_decoded P ?s (c1\<lparr>tx := m\<rparr>) = None"
    and c': "c' = save_fees f (c1\<lparr>tx := normalized ?s m\<rparr>)"
    using run by (auto simp: receive_transaction_def parsed c1 m normalized_def Let_def split: if_splits option.splits)
  note mok = deserialize_frame(2) [OF m len(1) ok]
  have extra: "check_extra_id_extra_data P ?s m"
    and id: "transaction_id_matches ?s (device_transaction_id c) m \<or> BYPASS_TRANSACTION_ID_CHECK P"
    using chk check_transaction_id_matches [of ?s "c1\<lparr>tx := m\<rparr>"] len(2) mok
    by (auto simp: check_decoded_def c1' split: if_splits)
  have "c' = c\<lparr>sha256_digest_prefixed := d1, sha256_digest_no_prefix := d2, tx := normalized ?s m,
      transaction_fee_length := of_nat (length (buf_bytes f)),
      transaction_fee := buf_bytes f @ replicate (16 - length (buf_bytes f)) 0\<rparr>"
    using fees_context [OF bufs(2,3), of "c1\<lparr>tx := normalized ?s m\<rparr>"] fee by (simp add: c' c1')
  then show ?thesis
    using format d [OF hashed] deserialize_decodes [OF m [unfolded ok [THEN eqTrueI] len(3)] bufs(1)] mok extra id
    by blast
qed

lemma receive_transaction_sizes:
  assumes run: "receive_transaction P e cmd c = (err, c')" and data: "data_ok cmd c" and size: "ctx_sizes c"
  shows "ctx_sizes c'" and "ctx_state c' = ctx_state c"
proof -
  have "ctx_sizes c' \<and> ctx_state c' = ctx_state c"
  proof (cases err)
    case None
    with receive_transaction_effect [OF run [unfolded None] data size] size show ?thesis
      using length_normalized
      by (auto simp: ctx_sizes_def transaction_command_ok_def sizeof_transaction_fee_def)
  next
    case (Some er)
    let ?p = "undecoded_transaction e cmd c"
    have "c' = c \<or> (\<exists>b hashed c1. calculate_sha256_digest P b c = (hashed, c1) \<and>
        (c' = c1 \<or> (\<exists>s b64 ok m. deserialize_protobuf_payload e b s b64 (tx c1) = (ok, m) \<and> c' = c1\<lparr>tx := m\<rparr>)))"
    proof (cases "parse_transaction ?p (cmd_data_size cmd) (cmd_subcommand cmd)")
      case None
      with run show ?thesis by (simp add: receive_transaction_def)
    next
      case (Some t)
      obtain b f b64 where t: "t = (b, f, b64)" by (cases t) auto
      obtain hashed c1 where c1: "calculate_sha256_digest P b c = (hashed, c1)" by fastforce
      obtain ok m where m: "deserialize_protobuf_payload e b (cmd_subcommand cmd) b64 (tx c1) = (ok, m)" by fastforce
      have "c' = c1 \<or> c' = c1\<lparr>tx := m\<rparr>"
        using run \<open>err = Some er\<close> Some t c1 m
        by (auto simp: receive_transaction_def Let_def split: if_splits option.splits)
      with c1 m show ?thesis by blast
    qed
    then show ?thesis
    proof (elim disjE exE conjE)
      fix b hashed c1
      assume c1: "calculate_sha256_digest P b c = (hashed, c1)"
      obtain d1 d2 where c1': "c1 = c\<lparr>sha256_digest_prefixed := d1, sha256_digest_no_prefix := d2\<rparr>"
        using digest_context [OF c1] by blast
      show "c' = c1 \<Longrightarrow> ?thesis" using size by (simp add: c1' ctx_sizes_def)
      fix s b64 ok m
      assume "deserialize_protobuf_payload e b s b64 (tx c1) = (ok, m)" and c': "c' = c1\<lparr>tx := m\<rparr>"
      from deserialize_frame(1) [OF this(1)] size show ?thesis by (simp add: c1' c' ctx_sizes_def)
    qed (use size in simp)
  qed
  then show "ctx_sizes c'" "ctx_state c' = ctx_state c" by blast+
qed

text \<open>The part of the context that the command does not touch, whatever its outcome.\<close>

definition session_part :: "swap_app_context \<Rightarrow> swap_app_context" where
  "session_part c = c\<lparr>sha256_digest_prefixed := [], sha256_digest_no_prefix := [], tx := [],
     transaction_fee_length := 0, transaction_fee := []\<rparr>"

lemma receive_transaction_frame:
  assumes "receive_transaction P e cmd c = (err, c')"
  shows "session_part c' = session_part c"
proof (cases "parse_transaction (undecoded_transaction e cmd c) (cmd_data_size cmd) (cmd_subcommand cmd)")
  case None
  with assms show ?thesis by (simp add: receive_transaction_def)
next
  case (Some t)
  obtain b f b64 where t: "t = (b, f, b64)" by (cases t)
  obtain hashed c1 where c1: "calculate_sha256_digest P b c = (hashed, c1)" by fastforce
  obtain ok m where m: "deserialize_protobuf_payload e b (cmd_subcommand cmd) b64 (tx c1) = (ok, m)" by fastforce
  obtain d1 d2 where "c1 = c\<lparr>sha256_digest_prefixed := d1, sha256_digest_no_prefix := d2\<rparr>"
    using digest_context [OF c1] by blast
  then have "session_part (c1\<lparr>tx := u\<rparr>) = session_part c" "session_part (save_fees f (c1\<lparr>tx := u\<rparr>)) = session_part c"
    "session_part c1 = session_part c" for u
    by (simp_all add: session_part_def save_fees_def)
  moreover have "c' = c1 \<or> (\<exists>u. c' = c1\<lparr>tx := u\<rparr>) \<or> (\<exists>u. c' = save_fees f (c1\<lparr>tx := u\<rparr>))"
    using assms Some t c1 m
    by (auto simp: receive_transaction_def Let_def split: if_splits option.splits)
  ultimately show ?thesis by auto
qed

lemma trim_amounts_mread:
  assumes ok: "\<forall>mb \<in> set (amount_members s). amount_ok mb m"
    and apart: "outside_members (amount_members s) off n" and room: "off + n \<le> length m"
  shows "mread off n (trim_amounts s m) = mread off n m"
proof -
  note t = trim_amounts_effect [OF ok]
  have "trim_amounts s m ! (off + i) = m ! (off + i)" if "i < n" for i
  proof -
    have "\<forall>mb \<in> set (amount_members s). off + i < fst mb \<or> fst mb + snd mb \<le> off + i"
      using apart that by (force simp: outside_members_def)
    with t room that show ?thesis by simp
  qed
  then show ?thesis
    using t room by (intro nth_equalityI) (auto simp: length_mread nth_mread)
qed

interpretation process_handler: handler "\<lambda>e cmd w. returning (process_transaction P e cmd w)"
  "{TRANSACTION_RECEIVED}" "\<lambda>e cmd w. data_ok cmd (ctx w) \<and> ctx_sizes (ctx w)" for P
proof (unfold_locales, goal_cases)
  case (1 e cmd w r w')
  then show ?case
    by (auto simp: process_transaction_def reply_defs split: prod.splits option.splits if_splits)
next
  case (2 e cmd w r w')
  obtain err c where run: "receive_transaction P e cmd (ctx w) = (err, c)" by fastforce
  from 2 receive_transaction_sizes [OF run] run show ?case
    by (auto simp: process_transaction_def reply_defs ctx_sizes_def split: option.splits if_splits)
next
  case (3 e cmd w r w')
  obtain err c where run: "receive_transaction P e cmd (ctx w) = (err, c)" by fastforce
  from 3 receive_transaction_sizes [OF run] run show ?case
    by (auto simp: process_transaction_def reply_defs split: option.splits if_splits)
qed

lemma process_transaction_accepted:
  assumes "process_transaction P e cmd w = (0, w')" and "ctx_state (ctx w') = TRANSACTION_RECEIVED"
    and "ctx_state (ctx w) = PROVIDER_CHECKED" and "data_ok cmd (ctx w)" and "ctx_sizes (ctx w)"
  shows "\<exists>b64 payload fees m d1 d2.
    data_bytes cmd (ctx w) = transaction_command (cmd_subcommand cmd) b64 payload fees \<and>
    transaction_command_ok (cmd_subcommand cmd) b64 payload fees \<and>
    cx_sha256 P (ascii ''.'' @ payload) = Some d1 \<and> cx_sha256 P payload = Some d2 \<and>
    payload_decodes e (cmd_subcommand cmd) b64 payload (tx (ctx w)) m \<and> message_ok (cmd_subcommand cmd) m \<and>
    (transaction_id_matches (cmd_subcommand cmd) (device_transaction_id (ctx w)) m \<or> BYPASS_TRANSACTION_ID_CHECK P) \<and>
    check_extra_id_extra_data P (cmd_subcommand cmd) m \<and>
    ctx w' = (ctx w)\<lparr>sha256_digest_prefixed := d1, sha256_digest_no_prefix := d2,
      tx := normalized (cmd_subcommand cmd) m, transaction_fee_length := of_nat (length fees),
      transaction_fee := fees @ replicate (16 - length fees) 0, ctx_state := TRANSACTION_RECEIVED\<rparr>"
proof -
  obtain err c where run: "receive_transaction P e cmd (ctx w) = (err, c)" by fastforce
  note same = receive_transaction_sizes(2) [OF run assms(4,5)]
  have "err = None" and w': "ctx w' = c\<lparr>ctx_state := TRANSACTION_RECEIVED\<rparr>"
    using assms(1-3) same run
    by (auto simp: process_transaction_def reply_defs split: option.splits if_splits)
  from receive_transaction_effect [OF run [unfolded \<open>err = None\<close>] assms(4,5)] show ?thesis
    unfolding w' by (elim exE) (rule exI, rule exI, rule exI, rule exI, rule exI, rule exI, auto)
qed

text \<open>
  C13: A transaction is accepted only in this way: its command has the format of the flow, the two
  digests kept are those of the payload after a dot and alone, the payload, decoded from base 64
  where it is encoded, is a protocol buffers message of the flow whose identifier is the one drawn
  for this session (unless the build bypasses the check), and what the context holds of it is the
  decoded message with its currencies renamed, its address stripped and its amounts trimmed, and
  the fees; nothing else of the context changes.
\<close>

theorem process_transaction_accepts:
  assumes "process_transaction P e cmd w = (0, w')" and "ctx_state (ctx w') = TRANSACTION_RECEIVED"
    and "ctx_state (ctx w) = PROVIDER_CHECKED" and "data_ok cmd (ctx w)" and "ctx_sizes (ctx w)"
  shows "\<exists>b64 payload fees m d1 d2.
    data_bytes cmd (ctx w) = transaction_command (cmd_subcommand cmd) b64 payload fees \<and>
    transaction_command_ok (cmd_subcommand cmd) b64 payload fees \<and>
    cx_sha256 P (ascii ''.'' @ payload) = Some d1 \<and> cx_sha256 P payload = Some d2 \<and>
    payload_decodes e (cmd_subcommand cmd) b64 payload (tx (ctx w)) m \<and> message_ok (cmd_subcommand cmd) m \<and>
    (transaction_id_matches (cmd_subcommand cmd) (device_transaction_id (ctx w)) m \<or> BYPASS_TRANSACTION_ID_CHECK P) \<and>
    check_extra_id_extra_data P (cmd_subcommand cmd) m \<and>
    ctx w' = (ctx w)\<lparr>sha256_digest_prefixed := d1, sha256_digest_no_prefix := d2,
      tx := normalized (cmd_subcommand cmd) m, transaction_fee_length := of_nat (length fees),
      transaction_fee := fees @ replicate (16 - length fees) 0, ctx_state := TRANSACTION_RECEIVED\<rparr>"
  by (rule process_transaction_accepted [OF assms])

section \<open>What the partner sent is what is stored\<close>

definition wire_payload :: "bool \<Rightarrow> (nat \<times> pb_value) list \<Rightarrow> u8 list" where
  "wire_payload b64 es = (if b64 then base64url_encode (enc_message es) else enc_message es)"

definition stored_message :: "subcommand_e \<Rightarrow> (nat \<times> pb_value) list \<Rightarrow> mem \<Rightarrow> mem" where
  "stored_message s es m = store_message (message_table s) 0 es (pb_message_set_to_defaults (message_table s) 0 m)"

lemma deserialize_wire_payload:
  assumes fits: "fits_message (message_table s) es" and len: "length (enc_message es) \<le> 512" "es \<noteq> []"
    and stack: "message_depth s < stack_frames e" and m: "length m = sizeof_tx"
    and b: "buf_ok b" "buf_bytes b = wire_payload b64 es"
  shows "deserialize_protobuf_payload e b s b64 m = (True, stored_message s es m)"
proof -
  let ?xs = "enc_message es"
  have dec: "\<exists>s2. pb_decode (stack_frames e) (pb_istream_from_buffer ?xs (length ?xs)) (message_table s) 0 m =
      (True, stored_message s es m, s2)"
  proof -
    let ?st = "pb_istream_from_buffer ?xs (length ?xs)"
    have st: "stream_ok ?st" "pending ?st = ?xs"
      by (simp_all add: stream_ok_def pending_def pb_istream_from_buffer_def)
    have "0 + message_size s \<le> length m" using m message_size_le by simp
    from pb_decode_enc [OF message_table_fits stack this fits _ st] len(1) show ?thesis
      by (simp add: stored_message_def)
  qed
  show ?thesis
  proof (cases b64)
    case False
    with b dec bsize_length [OF b(1)] show ?thesis
      by (auto simp: deserialize_protobuf_payload_def wire_payload_def)
  next
    case True
    let ?l = "local_array e 512"
    have enc: "base64_decode ?l 512 (buf_bytes b) (length (buf_bytes b)) = (int (length ?xs), mwrite 0 ?xs ?l)"
      using base64_decode_encoded [OF len(1), of ?l] b(2) True by (simp add: wire_payload_def)
    have pos: "0 < length ?xs" using len(2) by (cases es) (auto simp: enc_tag_def enc_varint_unfold)
    have u: "unat (of_nat (length ?xs) :: u16) = length ?xs" using len(1) by (simp add: unat_of_nat_u16)
    have "length ?l = 512" by (simp add: local_array_def)
    then have "take (length ?xs) (mwrite 0 ?xs ?l) = ?xs" by (simp add: mwrite_def)
    with dec show ?thesis
      using True enc pos u bsize_length [OF b(1)]
      by (auto simp: deserialize_protobuf_payload_def buf_bytes_def [of "\<lparr>bptr = _, bsize = _\<rparr>"] mread_def)
  qed
qed

lemma check_decoded_cong:
  "tx c = tx c' \<Longrightarrow> device_transaction_id c = device_transaction_id c' \<Longrightarrow> check_decoded P s c = check_decoded P s c'"
  by (simp add: check_decoded_def check_transaction_id_def)

lemma process_transaction_stored:
  assumes data: "data_ok cmd (ctx w)" "ctx_sizes (ctx w)"
    and sent: "data_bytes cmd (ctx w) = transaction_command (cmd_subcommand cmd) b64 (wire_payload b64 es) fees"
      "transaction_command_ok (cmd_subcommand cmd) b64 (wire_payload b64 es) fees"
    and fits: "fits_message (message_table (cmd_subcommand cmd)) es" "length (enc_message es) \<le> 512" "es \<noteq> []"
    and outside: "message_depth (cmd_subcommand cmd) < stack_frames e" "io_ok e"
    and hash: "cx_sha256 P (ascii ''.'' @ wire_payload b64 es) = Some d1" "cx_sha256 P (wire_payload b64 es) = Some d2"
    and checks: "check_decoded P (cmd_subcommand cmd)
      ((ctx w)\<lparr>tx := stored_message (cmd_subcommand cmd) es (tx (ctx w))\<rparr>) = None"
  shows "process_transaction P e cmd w =
    (0, w\<lparr>ctx := (ctx w)\<lparr>sha256_digest_prefixed := d1, sha256_digest_no_prefix := d2,
             tx := normalized (cmd_subcommand cmd) (stored_message (cmd_subcommand cmd) es (tx (ctx w))),
             transaction_fee_length := of_nat (length fees),
             transaction_fee := fees @ replicate (16 - length fees) 0, ctx_state := TRANSACTION_RECEIVED\<rparr>,
          sent := sent w @ [([], status_word SUCCESS)]\<rparr>)"
proof -
  let ?s = "cmd_subcommand cmd" and ?p = "undecoded_transaction e cmd (ctx w)"
  note p = undecoded_ok [OF data(1), of e]
  obtain b f where parsed: "parse_transaction ?p (cmd_data_size cmd) ?s = Some (b, f, b64)"
    and eq: "buf_bytes b = wire_payload b64 es" "buf_bytes f = fees"
    using parse_transaction_format [OF p(1), of ?s b64 "wire_payload b64 es" fees] sent p(2) by auto
  note bufs = parse_transaction_buffers [OF p(1) parsed]
  have len: "length (tx (ctx w)) = sizeof_tx" and fee: "length (transaction_fee (ctx w)) = sizeof_transaction_fee"
    using data(2) by (simp_all add: ctx_sizes_def)
  let ?c = "(ctx w)\<lparr>sha256_digest_prefixed := d1, sha256_digest_no_prefix := d2\<rparr>"
  let ?m = "stored_message ?s es (tx (ctx w))"
  have c: "calculate_sha256_digest P b (ctx w) = (True, ?c)"
    by (simp add: calculate_sha256_digest_def eq hash)
  have m: "deserialize_protobuf_payload e b ?s b64 (tx ?c) = (True, ?m)"
    using deserialize_wire_payload [OF fits outside(1) len bufs(1) eq(1)] by simp
  have chk: "check_decoded P ?s (?c\<lparr>tx := ?m\<rparr>) = None"
    using checks check_decoded_cong [of "?c\<lparr>tx := ?m\<rparr>" "(ctx w)\<lparr>tx := ?m\<rparr>"] by simp
  have "receive_transaction P e cmd (ctx w) = (None, save_fees f (?c\<lparr>tx := normalized ?s ?m\<rparr>))"
    using c m chk by (simp add: receive_transaction_def parsed normalized_def Let_def)
  also have "save_fees f (?c\<lparr>tx := normalized ?s ?m\<rparr>) =
      ?c\<lparr>tx := normalized ?s ?m, transaction_fee_length := of_nat (length fees),
         transaction_fee := fees @ replicate (16 - length fees) 0\<rparr>"
    using fees_context [OF bufs(2,3), of "?c\<lparr>tx := normalized ?s ?m\<rparr>"] fee eq(2) by simp
  finally show ?thesis
    using outside(2) by (simp add: process_transaction_def reply_defs)
qed

text \<open>
  C23: What the partner sent is what is stored. A command made of the encoding of a list of tagged
  values that fit the structure of the flow, in base 64 or not, with the fees, is answered with
  success when the identifier and the extra data it carries are right, and the context then holds
  exactly these values, normalised, and these fees.
\<close>

theorem process_transaction_stores:
  assumes data: "data_ok cmd (ctx w)" "ctx_sizes (ctx w)"
    and sent: "data_bytes cmd (ctx w) = transaction_command (cmd_subcommand cmd) b64 (wire_payload b64 es) fees"
      "transaction_command_ok (cmd_subcommand cmd) b64 (wire_payload b64 es) fees"
    and fits: "fits_message (message_table (cmd_subcommand cmd)) es" "length (enc_message es) \<le> 512" "es \<noteq> []"
    and outside: "message_depth (cmd_subcommand cmd) < stack_frames e" "io_ok e"
    and hash: "cx_sha256 P (ascii ''.'' @ wire_payload b64 es) = Some d1" "cx_sha256 P (wire_payload b64 es) = Some d2"
    and checks: "check_decoded P (cmd_subcommand cmd)
      ((ctx w)\<lparr>tx := stored_message (cmd_subcommand cmd) es (tx (ctx w))\<rparr>) = None"
  shows "process_transaction P e cmd w =
    (0, w\<lparr>ctx := (ctx w)\<lparr>sha256_digest_prefixed := d1, sha256_digest_no_prefix := d2,
             tx := normalized (cmd_subcommand cmd) (stored_message (cmd_subcommand cmd) es (tx (ctx w))),
             transaction_fee_length := of_nat (length fees),
             transaction_fee := fees @ replicate (16 - length fees) 0, ctx_state := TRANSACTION_RECEIVED\<rparr>,
          sent := sent w @ [([], status_word SUCCESS)]\<rparr>)"
  by (rule process_transaction_stored [OF assms])

text \<open>A transaction that carries nothing but its identifier, and its fees.\<close>

definition sample_id :: "u8 list" where
  "sample_id = map of_nat [1..<33]"

definition sample_fields :: "(nat \<times> pb_value) list" where
  "sample_fields = [(6, V_BYTES sample_id)]"

definition sample_transaction :: command_t where
  "sample_transaction = \<lparr>cmd_ins = PROCESS_TRANSACTION_RESPONSE_COMMAND, cmd_rate = FIXED, cmd_subcommand = FUND_NG,
     cmd_data = In_apdu_buffer (replicate 5 0 @ transaction_command FUND_NG False (wire_payload False sample_fields) [5]),
     cmd_data_size = 39\<rparr>"

definition sample_session :: world where
  "sample_session = (world_in PROVIDER_CHECKED FUND_NG)\<lparr>ctx := (ctx (world_in PROVIDER_CHECKED FUND_NG))
     \<lparr>device_transaction_id := sample_id\<rparr>\<rparr>"

lemma sample_message:
  assumes "length m = sizeof_tx"
  shows "\<exists>m0. length m0 = sizeof_tx \<and> stored_message FUND_NG sample_fields m = mwrite 278 (32 # sample_id) m0"
proof -
  let ?m0 = "pb_message_set_to_defaults (message_table FUND_NG) 0 m"
  have "0 + message_size FUND_NG \<le> length m" using assms message_size_le by simp
  then have "length ?m0 = sizeof_tx"
    using same_outside_length [OF defaults_within(1) [OF message_table_fits]] assms by simp
  moreover have "field_data ledger_swap_NewFundResponse_fields 0 5 = 278"
    by code_simp
  moreover have "length sample_id = 32" by (simp add: sample_id_def)
  moreover have "tag_index ledger_swap_NewFundResponse_fields 6 = Some 5" by code_simp
  ultimately show ?thesis
    by (intro exI [of _ ?m0])
      (simp add: stored_message_def sample_fields_def message_table_def del: field_data.simps tag_index.simps)
qed

lemma plain_run:
  "message_depth FUND_NG < stack_frames plain_outside" "io_ok plain_outside"
  "cx_sha256 plain_platform xs = Some (take 32 (xs @ replicate 32 0))" "sample_fields \<noteq> []"
  "cmd_subcommand sample_transaction = FUND_NG"
  by (simp_all add: plain_env_defs message_depth_def sample_fields_def sample_transaction_def)

lemma sample_run:
  "process_transaction plain_platform plain_outside sample_transaction sample_session =
    (0, sample_session\<lparr>ctx := (ctx sample_session)\<lparr>
          sha256_digest_prefixed := take 32 (ascii ''.'' @ wire_payload False sample_fields @ replicate 32 0),
          sha256_digest_no_prefix := take 32 (wire_payload False sample_fields @ replicate 32 0),
          tx := normalized FUND_NG (stored_message FUND_NG sample_fields (tx (ctx sample_session))),
          transaction_fee_length := 1, transaction_fee := [5] @ replicate 15 0, ctx_state := TRANSACTION_RECEIVED\<rparr>,
        sent := sent sample_session @ [([], status_word SUCCESS)]\<rparr>)"
  if ok: "data_ok sample_transaction (ctx sample_session)" "ctx_sizes (ctx sample_session)"
    "data_bytes sample_transaction (ctx sample_session) =
       transaction_command FUND_NG False (wire_payload False sample_fields) [5]"
    "transaction_command_ok FUND_NG False (wire_payload False sample_fields) [5]"
    "fits_message (message_table FUND_NG) sample_fields" "length (enc_message sample_fields) \<le> 512"
    "check_decoded plain_platform FUND_NG
       ((ctx sample_session)\<lparr>tx := stored_message FUND_NG sample_fields (tx (ctx sample_session))\<rparr>) = None"
  using process_transaction_stored [of sample_transaction sample_session False sample_fields "[5]" plain_outside
      plain_platform, unfolded plain_run(5), OF ok(1-6) plain_run(4,1,2,3,3) ok(7)]
  by simp

lemma sample_facts:
  "data_ok sample_transaction (ctx sample_session)" "ctx_sizes (ctx sample_session)"
  "data_bytes sample_transaction (ctx sample_session) =
     transaction_command FUND_NG False (wire_payload False sample_fields) [5]"
  "transaction_command_ok FUND_NG False (wire_payload False sample_fields) [5]"
  "fits_message (message_table FUND_NG) sample_fields" "length (enc_message sample_fields) \<le> 512"
  "check_decoded plain_platform FUND_NG
     ((ctx sample_session)\<lparr>tx := stored_message FUND_NG sample_fields (tx (ctx sample_session))\<rparr>) = None"
proof -
  let ?b = "transaction_command FUND_NG False (wire_payload False sample_fields) [5]"
  have len: "length ?b = 39" "length (enc_message sample_fields) = 34" by code_simp+
  have c: "ctx sample_session = zero_context\<lparr>ctx_state := PROVIDER_CHECKED, ctx_subcommand := FUND_NG,
      device_transaction_id := sample_id\<rparr>"
    by (simp add: sample_session_def world_in_def)
  have t: "tx (ctx sample_session) = tx zero_context" by (simp add: c)
  have id: "length sample_id = 32" by (simp add: sample_id_def)
  show "data_ok sample_transaction (ctx sample_session)"
    using len by (simp add: data_ok_def data_pointer_def sample_transaction_def OFFSET_CDATA_def)
  show "data_bytes sample_transaction (ctx sample_session) = ?b"
    using len by (simp add: data_bytes_def data_pointer_def sample_transaction_def OFFSET_CDATA_def mread_def)
  show "transaction_command_ok FUND_NG False (wire_payload False sample_fields) [5]"
    using len by (simp add: transaction_command_ok_def wire_payload_def)
  show "length (enc_message sample_fields) \<le> 512" using len by simp
  show "fits_message (message_table FUND_NG) sample_fields"
    using id by (simp add: sample_fields_def message_table_def table_defs singular_def)
  show sizes: "ctx_sizes (ctx sample_session)"
    using zero_context_sizes id by (simp add: c ctx_sizes_def sizeof_unified_id_def)
  have "length (tx (ctx sample_session)) = sizeof_tx" using sizes by (simp add: ctx_sizes_def)
  from sample_message [OF this] obtain m0 where m0: "length m0 = sizeof_tx"
    "stored_message FUND_NG sample_fields (tx (ctx sample_session)) = mwrite 278 (32 # sample_id) m0" by blast
  have room: "278 + length (32 # sample_id) \<le> length m0" using m0(1) id by (simp add: sizeof_tx_def)
  have "mread 278 33 (mwrite 278 (32 # sample_id) m0) = 32 # sample_id"
    using mread_mwrite_same [OF room, of 33] id by simp
  moreover have "mread 279 32 (mwrite 278 (32 # sample_id) m0) = mread 1 32 (mread 278 33 (mwrite 278 (32 # sample_id) m0))"
    by (simp add: mread_mread)
  moreover have "mwrite 278 (32 # sample_id) m0 ! 278 = 32" using room by (simp add: nth_mwrite)
  ultimately show "check_decoded plain_platform FUND_NG
     ((ctx sample_session)\<lparr>tx := stored_message FUND_NG sample_fields (tx (ctx sample_session))\<rparr>) = None"
    using id by (simp add: m0(2) [unfolded t] Let_def check_decoded_def check_extra_id_extra_data_def check_transaction_id_def
        id_member_def pb_array_size_def pb_array_bytes_def fund_device_transaction_id_def sizeof_unified_id_def c mread_def)
qed

lemma process_transaction_stores_witness:
  "transaction_fee (ctx (snd (process_transaction plain_platform plain_outside sample_transaction sample_session))) =
     5 # replicate 15 0"
  using process_transaction_stores [of sample_transaction sample_session False sample_fields "[5]" plain_outside
      plain_platform, unfolded plain_run(5), OF sample_facts(1-6) plain_run(4,1,2,3,3) sample_facts(7)]
  by simp

lemma process_transaction_accepts_witness:
  "\<exists>b64 payload fees. data_bytes sample_transaction (ctx sample_session) = transaction_command FUND_NG b64 payload fees \<and>
     cx_sha256 plain_platform payload = Some (sha256_digest_no_prefix
       (ctx (snd (process_transaction plain_platform plain_outside sample_transaction sample_session))))"
proof -
  note run = sample_run [OF sample_facts]
  have "ctx_state (ctx sample_session) = PROVIDER_CHECKED" "cmd_subcommand sample_transaction = FUND_NG"
    by (simp_all add: sample_session_def sample_transaction_def world_in_def)
  moreover have "ctx_state (ctx (snd (process_transaction plain_platform plain_outside sample_transaction sample_session))) =
      TRANSACTION_RECEIVED"
    unfolding run by simp
  ultimately obtain b64 payload fees d1 d2 m where
    "data_bytes sample_transaction (ctx sample_session) = transaction_command FUND_NG b64 payload fees"
    "cx_sha256 plain_platform payload = Some d2"
    "ctx (snd (process_transaction plain_platform plain_outside sample_transaction sample_session)) =
      (ctx sample_session)\<lparr>sha256_digest_prefixed := d1, sha256_digest_no_prefix := d2, tx := normalized FUND_NG m,
        transaction_fee_length := of_nat (length fees),
        transaction_fee := fees @ replicate (16 - length fees) 0, ctx_state := TRANSACTION_RECEIVED\<rparr>"
    using process_transaction_accepts [of plain_platform plain_outside sample_transaction sample_session, OF _ _ _ sample_facts(1,2)]
      run by (metis fst_conv prod.collapse)
  then show ?thesis by auto
qed

end
