(* ===== verification/Tx_Signature.thy ===== *)
theory Tx_Signature
  imports Partner Der
begin

text \<open>
  \<^verbatim>\<open>src/check_tx_signature.c\<close>: the signature of the transaction by the partner, in DER or as two
  32-byte numbers, over the digest of the payload alone or after a dot, as the flow or two bytes
  of the command say.
\<close>

section \<open>The command\<close>

definition R_S_INT_SIZE :: nat where "R_S_INT_SIZE = 32"
definition DER_HEADER_SIZE :: nat where "DER_HEADER_SIZE = 2"
definition DER_OFFSET_LENGTH :: nat where "DER_OFFSET_LENGTH = 1"
definition MAX_DER_INT_SIZE :: "nat \<Rightarrow> nat" where "MAX_DER_INT_SIZE sz = 1 + 1 + sz + 1 + 2"
definition sizeof_der_sig :: nat where
  "sizeof_der_sig = DER_HEADER_SIZE + MAX_DER_INT_SIZE R_S_INT_SIZE * 2"

lemmas der_size_defs = R_S_INT_SIZE_def DER_HEADER_SIZE_def DER_OFFSET_LENGTH_def MAX_DER_INT_SIZE_def
  sizeof_der_sig_def

text \<open>Whether the signature is in (R,S) format, whether it is over the prefixed digest, and where it starts.\<close>

definition read_selectors :: "cptr \<Rightarrow> u16 \<Rightarrow> subcommand_e \<Rightarrow> (bool \<times> bool \<times> u16) option" where
  "read_selectors p n subcommand =
     (if subcommand = SWAP then Some (False, False, 0)
      else if subcommand = FUND then Some (False, True, 0)
      else if subcommand = SELL then Some (True, True, 0)
      else case pop_uint8_from_buffer p n 0 of
        None \<Rightarrow> None
      | Some (dot_prefixed_tx, offset) \<Rightarrow>
          if dot_prefixed_tx \<noteq> SIGNATURE_COMPUTED_ON_TX \<and>
             dot_prefixed_tx \<noteq> SIGNATURE_COMPUTED_ON_DOT_PREFIXED_TX then None
          else case pop_uint8_from_buffer p n offset of
            None \<Rightarrow> None
          | Some (sig_format, offset) \<Rightarrow>
              if sig_format \<noteq> DER_FORMAT_SIGNATURE \<and> sig_format \<noteq> R_S_FORMAT_SIGNATURE then None
              else Some (sig_format = R_S_FORMAT_SIGNATURE,
                         dot_prefixed_tx = SIGNATURE_COMPUTED_ON_DOT_PREFIXED_TX, offset))"

text \<open>The signature in DER: as it came, or encoded into the local buffer \<open>der_sig\<close>.\<close>

definition der_of_input :: "mem \<Rightarrow> cptr \<Rightarrow> u16 \<Rightarrow> bool \<Rightarrow> swap_error_e + u8 list" where
  "der_of_input der_sig p sz signature_is_in_R_S_format =
     (if \<not> signature_is_in_R_S_format then
        if unat sz < MIN_DER_SIGNATURE_LENGTH \<or> unat sz > MAX_DER_SIGNATURE_LENGTH
        then Inl INCORRECT_COMMAND_DATA
        else if unat (ptr_read p DER_OFFSET_LENGTH) + DER_HEADER_SIZE \<noteq> unat sz
        then Inl INCORRECT_COMMAND_DATA
        else Inr (ptr_bytes p (unat sz))
      else
        if unat sz \<noteq> R_S_INT_SIZE * 2 then Inl INCORRECT_COMMAND_DATA
        else
          let r = ptr_bytes p R_S_INT_SIZE;
              s = ptr_bytes (ptr_add p R_S_INT_SIZE) R_S_INT_SIZE;
              size = asn1_get_encoded_integer_size r R_S_INT_SIZE +
                     asn1_get_encoded_integer_size s R_S_INT_SIZE + DER_HEADER_SIZE
          in if size > sizeof_der_sig then Inl SIGN_VERIFICATION_FAIL
             else case encode_sig_der der_sig size r R_S_INT_SIZE s R_S_INT_SIZE of
               (ret, der_sig) \<Rightarrow>
                 if ret = 0 then Inl SIGN_VERIFICATION_FAIL
                 else Inr (take size der_sig))"

definition check_tx_signature :: "platform \<Rightarrow> outside \<Rightarrow> command_t \<Rightarrow> world \<Rightarrow> int \<times> world" where
  "check_tx_signature P e cmd w =
     (let p = data_pointer cmd (ctx w); n = cmd_data_size cmd in
      case read_selectors p n (cmd_subcommand cmd) of
        None \<Rightarrow> reply_error e INCORRECT_COMMAND_DATA w
      | Some (in_R_S_format, on_dot_prefixed_tx, offset) \<Rightarrow>
          case der_of_input (take sizeof_der_sig (stack_bytes e @ replicate sizeof_der_sig 0))
                 (ptr_add p (unat offset)) (n - offset) in_R_S_format of
            Inl err \<Rightarrow> reply_error e err w
          | Inr signature \<Rightarrow>
              let hash = (if on_dot_prefixed_tx then sha256_digest_prefixed (ctx w)
                          else sha256_digest_no_prefix (ctx w))
              in if \<not> cx_ecdsa_verify P (partner_public_key (ctx w)) hash signature
                 then reply_error e SIGN_VERIFICATION_FAIL w
                 else case reply_success e w of
                   (ret, w) \<Rightarrow>
                     if ret < 0 then (-1, w)
                     else (0, w\<lparr>ctx := (ctx w)\<lparr>ctx_state := SIGNATURE_CHECKED\<rparr>\<rparr>))"

section \<open>What it accepts\<close>

definition selector_bytes :: "subcommand_e \<Rightarrow> bool \<Rightarrow> bool \<Rightarrow> u8 list" where
  "selector_bytes s in_R_S dot =
     (if unified_flow s
      then [if dot then SIGNATURE_COMPUTED_ON_DOT_PREFIXED_TX else SIGNATURE_COMPUTED_ON_TX,
            if in_R_S then R_S_FORMAT_SIGNATURE else DER_FORMAT_SIGNATURE]
      else [])"

definition selectors_ok :: "subcommand_e \<Rightarrow> bool \<Rightarrow> bool \<Rightarrow> bool" where
  "selectors_ok s in_R_S dot \<longleftrightarrow>
     (s = SWAP \<longrightarrow> \<not> in_R_S \<and> \<not> dot) \<and> (s = FUND \<longrightarrow> \<not> in_R_S \<and> dot) \<and> (s = SELL \<longrightarrow> in_R_S \<and> dot)"

definition signature_size_ok :: "bool \<Rightarrow> u8 list \<Rightarrow> bool" where
  "signature_size_ok in_R_S sig \<longleftrightarrow>
     (if in_R_S then length sig = 64
      else 67 \<le> length sig \<and> length sig \<le> 73 \<and> unat (sig ! 1) + 2 = length sig)"

text \<open>The DER form of a signature, where it is not in it already.\<close>

definition as_der :: "bool \<Rightarrow> u8 list \<Rightarrow> u8 list" where
  "as_der in_R_S sig = (if in_R_S then der_signature (take 32 sig) (drop 32 sig) else sig)"

lemma read_selectors_sound:
  assumes p: "ptr_ok p (unat n)" and run: "read_selectors p n s = Some (rs, dot, off)"
  shows "ptr_bytes p (unat n) = selector_bytes s rs dot @ drop (unat off) (ptr_bytes p (unat n))"
    and "unat off = length (selector_bytes s rs dot)" and "unat off \<le> unat n" and "selectors_ok s rs dot"
proof -
  have "ptr_bytes p (unat n) = selector_bytes s rs dot @ drop (unat off) (ptr_bytes p (unat n)) \<and>
    unat off = length (selector_bytes s rs dot) \<and> unat off \<le> unat n \<and> selectors_ok s rs dot"
  proof (cases "unified_flow s")
    case True
    then obtain d f o1 where r: "pop_uint8_from_buffer p n 0 = Some (d, o1)" "pop_uint8_from_buffer p n o1 = Some (f, off)"
      and sel: "[d, f] = selector_bytes s rs dot"
      using run by (auto simp: read_selectors_def selector_bytes_def selector_defs split: option.splits if_splits)
    have start: "unat (0 :: u16) \<le> unat n" by simp
    note s1 = byte_field.dec_sound [OF p start r(1)]
    note s2 = byte_field.dec_sound [OF p s1(4) r(2)]
    have "selectors_ok s rs dot" using True by (auto simp: selectors_ok_def)
    moreover have "ptr_bytes p (unat n) = [d, f] @ drop (unat off) (ptr_bytes p (unat n))"
      using s1(2) s2(2) by simp
    moreover have "unat off = 2" using s1(3) s2(3) by simp
    ultimately show ?thesis using s2(4) unfolding sel by (simp flip: sel)
  next
    case False
    with run show ?thesis
      by (cases s) (auto simp: read_selectors_def selector_bytes_def selectors_ok_def)
  qed
  then show "ptr_bytes p (unat n) = selector_bytes s rs dot @ drop (unat off) (ptr_bytes p (unat n))"
    "unat off = length (selector_bytes s rs dot)" "unat off \<le> unat n" "selectors_ok s rs dot" by blast+
qed

lemma read_selectors_complete:
  assumes p: "ptr_ok p (unat n)" and w: "ptr_bytes p (unat n) = selector_bytes s rs dot @ ys"
    and ok: "selectors_ok s rs dot"
  shows "\<exists>off. read_selectors p n s = Some (rs, dot, off) \<and> unat off = length (selector_bytes s rs dot)"
proof (cases "unified_flow s")
  case True
  then obtain d f where sel: "selector_bytes s rs dot = [d, f]"
    "d = (if dot then SIGNATURE_COMPUTED_ON_DOT_PREFIXED_TX else SIGNATURE_COMPUTED_ON_TX)"
    "f = (if rs then R_S_FORMAT_SIGNATURE else DER_FORMAT_SIGNATURE)"
    by (simp add: selector_bytes_def)
  obtain o1 where r1: "pop_uint8_from_buffer p n 0 = Some (d, o1)" "unat o1 = 1"
    using byte_field.dec_complete [OF p, of 0 d "f # ys"] w sel(1) by auto
  have len: "unat n = Suc (Suc (length ys))" using arg_cong [OF w, of length] sel(1) length_ptr_bytes [OF p] by simp
  have "drop (unat o1) (ptr_bytes p (unat n)) = [f] @ ys" using w sel(1) r1(2) by simp
  then obtain o2 where r2: "pop_uint8_from_buffer p n o1 = Some (f, o2)" "unat o2 = 2"
    using byte_field.dec_complete [OF p, of o1 f ys] r1(2) len by auto
  have "read_selectors p n s = Some (rs, dot, o2)"
    using True r1(1) r2(1) sel(2,3)
    by (cases rs; cases dot) (auto simp: read_selectors_def selector_defs)
  with r2(2) sel(1) show ?thesis by simp
next
  case False
  with ok show ?thesis
    by (cases s) (auto simp: read_selectors_def selector_bytes_def selectors_ok_def)
qed

lemma length_der_signature_pos: "der_signature r s \<noteq> []"
  by (simp add: der_signature_def der_tlv_def)

lemma der_of_input_eq:
  assumes p: "ptr_ok p (unat n)" and buf: "length der_sig = 76"
  shows "(\<exists>sig. der_of_input der_sig p n rs = Inr sig \<and> P sig) \<longleftrightarrow>
    signature_size_ok rs (ptr_bytes p (unat n)) \<and> P (as_der rs (ptr_bytes p (unat n)))"
proof -
  have len: "length (ptr_bytes p (unat n)) = unat n" using p by (rule length_ptr_bytes)
  show ?thesis
  proof (cases rs)
    case False
    have "ptr_read p 1 = ptr_bytes p (unat n) ! 1" if "67 \<le> unat n"
      using ptr_read_nth [OF p, of 1] that by simp
    with False len show ?thesis
      by (auto simp: der_of_input_def signature_size_ok_def as_der_def der_size_defs size_defs)
  next
    case True
    show ?thesis
    proof (cases "unat n = 64")
      case False
      with True len show ?thesis
        by (simp add: der_of_input_def signature_size_ok_def der_size_defs)
    next
      case n: True
      let ?d = "ptr_bytes p (unat n)"
      have halves: "ptr_bytes p 32 = take 32 ?d" "ptr_bytes (ptr_add p 32) 32 = drop 32 ?d"
        using ptr_bytes_add [OF p, of 0 32] ptr_bytes_add [OF p, of 32 32] n len
        by (cases p; simp add: mread_def min_def)+
      have l32: "length (take 32 ?d) = 32" "length (drop 32 ?d) = 32" using len n by simp_all
      let ?sz = "asn1_get_encoded_integer_size (take 32 ?d) 32 + asn1_get_encoded_integer_size (drop 32 ?d) 32 + 2"
      note enc = encode_sig_der_encodes [OF l32 buf refl]
      have "?sz = length (der_signature (take 32 ?d) (drop 32 ?d))"
        using integer_size_eq [of "take 32 ?d"] integer_size_eq [of "drop 32 ?d"] l32
        by (simp add: der_signature_short)
      moreover have "0 < ?sz" by simp
      ultimately have "der_of_input der_sig p n rs = Inr (der_signature (take 32 ?d) (drop 32 ?d))"
        using True n enc halves by (simp add: der_of_input_def der_size_defs Let_def)
      with True len n show ?thesis by (simp add: signature_size_ok_def as_der_def)
    qed
  qed
qed

section \<open>The handler\<close>

lemmas signature_handler_defs = check_tx_signature_def reply_defs Let_def

interpretation tx_signature_handler: handler "\<lambda>e cmd w. returning (check_tx_signature P e cmd w)"
  "{SIGNATURE_CHECKED}" "\<lambda>_ _ _. True" for P
  by unfold_locales
     (auto simp: signature_handler_defs ctx_sizes_def split: option.splits sum.splits if_splits prod.splits)

text \<open>The digest the partner signed.\<close>

definition signed_digest :: "bool \<Rightarrow> swap_app_context \<Rightarrow> u8 list" where
  "signed_digest dot c = (if dot then sha256_digest_prefixed c else sha256_digest_no_prefix c)"

definition tx_signature_valid :: "platform \<Rightarrow> command_t \<Rightarrow> swap_app_context \<Rightarrow> bool \<Rightarrow> bool \<Rightarrow> u8 list \<Rightarrow> bool" where
  "tx_signature_valid P cmd c in_R_S dot sig \<longleftrightarrow>
     data_bytes cmd c = selector_bytes (cmd_subcommand cmd) in_R_S dot @ sig \<and>
     selectors_ok (cmd_subcommand cmd) in_R_S dot \<and> signature_size_ok in_R_S sig \<and>
     cx_ecdsa_verify P (partner_public_key c) (signed_digest dot c) (as_der in_R_S sig)"

lemma length_der_sig: "length (take sizeof_der_sig (stack_bytes e @ replicate sizeof_der_sig 0)) = 76"
  by (simp add: der_size_defs)

lemma rest_of_command:
  assumes p: "ptr_ok p (unat n)" and off: "unat off \<le> unat (n :: u16)"
  shows "ptr_ok (ptr_add p (unat off)) (unat (n - off))"
    and "ptr_bytes (ptr_add p (unat off)) (unat (n - off)) = drop (unat off) (ptr_bytes p (unat n))"
proof -
  have sub: "unat (n - off) = unat n - unat off" using off by (simp add: unat_sub word_le_nat_alt)
  show "ptr_ok (ptr_add p (unat off)) (unat (n - off))"
    using ptr_ok_add [OF p, of "unat off" "unat n - unat off"] off by (simp add: sub)
  show "ptr_bytes (ptr_add p (unat off)) (unat (n - off)) = drop (unat off) (ptr_bytes p (unat n))"
    using ptr_bytes_add [OF p, of "unat off" "unat n - unat off"] off
    by (simp add: sub mread_def length_ptr_bytes [OF p])
qed

lemma check_tx_signature_run:
  assumes sel: "read_selectors (data_pointer cmd (ctx w)) (cmd_data_size cmd) (cmd_subcommand cmd) = Some (rs, dot, off)"
    and io: "io_ok e" and st: "ctx_state (ctx w) \<noteq> SIGNATURE_CHECKED"
  shows "ctx_state (ctx (snd (check_tx_signature P e cmd w))) = SIGNATURE_CHECKED \<longleftrightarrow>
    (\<exists>sig. der_of_input (take sizeof_der_sig (stack_bytes e @ replicate sizeof_der_sig 0))
        (ptr_add (data_pointer cmd (ctx w)) (unat off)) (cmd_data_size cmd - off) rs = Inr sig \<and>
      cx_ecdsa_verify P (partner_public_key (ctx w)) (signed_digest dot (ctx w)) sig)"
  using sel io st by (auto simp: signature_handler_defs signed_digest_def split: sum.splits)

lemma check_tx_signature_checks:
  assumes data: "data_ok cmd (ctx w)" and io: "io_ok e" and st: "ctx_state (ctx w) \<noteq> SIGNATURE_CHECKED"
  shows "ctx_state (ctx (snd (check_tx_signature P e cmd w))) = SIGNATURE_CHECKED \<longleftrightarrow>
    (\<exists>in_R_S dot sig. tx_signature_valid P cmd (ctx w) in_R_S dot sig)"
proof -
  let ?p = "data_pointer cmd (ctx w)" and ?n = "cmd_data_size cmd" and ?s = "cmd_subcommand cmd"
  let ?d = "ptr_bytes ?p (unat ?n)"
  have p: "ptr_ok ?p (unat ?n)" using data by (simp add: data_ok_def)
  have checked: "ctx_state (ctx (snd (check_tx_signature P e cmd w))) = SIGNATURE_CHECKED \<longleftrightarrow>
      signature_size_ok rs (drop (unat off) ?d) \<and>
      cx_ecdsa_verify P (partner_public_key (ctx w)) (signed_digest dot (ctx w)) (as_der rs (drop (unat off) ?d))"
    if sel: "read_selectors ?p ?n ?s = Some (rs, dot, off)" for rs dot off
  proof -
    note rest = rest_of_command [OF p read_selectors_sound(3) [OF p sel]]
    show ?thesis
      unfolding check_tx_signature_run [OF sel io st]
        der_of_input_eq [OF rest(1) length_der_sig,
          where P = "cx_ecdsa_verify P (partner_public_key (ctx w)) (signed_digest dot (ctx w))"] rest(2)
      by (rule refl)
  qed
  show ?thesis
  proof
    assume moved: "ctx_state (ctx (snd (check_tx_signature P e cmd w))) = SIGNATURE_CHECKED"
    then obtain rs dot off where sel: "read_selectors ?p ?n ?s = Some (rs, dot, off)"
      using st by (auto simp: signature_handler_defs split: option.splits)
    with moved checked [OF sel] read_selectors_sound [OF p sel]
    show "\<exists>in_R_S dot sig. tx_signature_valid P cmd (ctx w) in_R_S dot sig"
      unfolding tx_signature_valid_def data_bytes_def by blast
  next
    assume "\<exists>in_R_S dot sig. tx_signature_valid P cmd (ctx w) in_R_S dot sig"
    then obtain rs dot sig where w: "?d = selector_bytes ?s rs dot @ sig" and ok: "selectors_ok ?s rs dot"
      and sz: "signature_size_ok rs sig"
      and ver: "cx_ecdsa_verify P (partner_public_key (ctx w)) (signed_digest dot (ctx w)) (as_der rs sig)"
      by (auto simp: tx_signature_valid_def data_bytes_def)
    from read_selectors_complete [OF p w ok] obtain off where
      sel: "read_selectors ?p ?n ?s = Some (rs, dot, off)" and off: "unat off = length (selector_bytes ?s rs dot)"
      by blast
    have "drop (unat off) ?d = sig" by (simp add: w off)
    with checked [OF sel] sz ver show "ctx_state (ctx (snd (check_tx_signature P e cmd w))) = SIGNATURE_CHECKED"
      by simp
  qed
qed

text \<open>
  C15: The signature of a transaction is accepted exactly when its command is the two selectors in the
  unified flows, a signature of the right size for its format, and nothing else, and the key of
  the partner verifies the DER form of it, which for two 32-byte numbers is their DER encoding,
  over the digest that the flow or the selector says.
\<close>

theorem check_tx_signature_iff:
  assumes "data_ok cmd (ctx w)" and "io_ok e" and "ctx_state (ctx w) \<noteq> SIGNATURE_CHECKED"
  shows "ctx_state (ctx (snd (check_tx_signature P e cmd w))) = SIGNATURE_CHECKED \<longleftrightarrow>
    (\<exists>in_R_S dot sig. tx_signature_valid P cmd (ctx w) in_R_S dot sig)"
  by (rule check_tx_signature_checks [OF assms])

definition sample_signature :: command_t where
  "sample_signature = \<lparr>cmd_ins = CHECK_TRANSACTION_SIGNATURE_COMMAND, cmd_rate = FIXED, cmd_subcommand = SELL_NG,
     cmd_data = In_apdu_buffer (replicate 5 0 @ [1, 1] @ replicate 64 0x81), cmd_data_size = 66\<rparr>"

lemma check_tx_signature_iff_witness:
  "ctx_state (ctx (snd (check_tx_signature plain_platform plain_outside sample_signature
     (world_in TRANSACTION_RECEIVED SELL_NG)))) = SIGNATURE_CHECKED"
proof -
  let ?w = "world_in TRANSACTION_RECEIVED SELL_NG"
  have "data_ok sample_signature (ctx ?w)" "io_ok plain_outside" "ctx_state (ctx ?w) \<noteq> SIGNATURE_CHECKED"
    by code_simp+
  moreover have "tx_signature_valid plain_platform sample_signature (ctx ?w) True True (replicate 64 0x81)"
    by code_simp
  ultimately show ?thesis using check_tx_signature_iff by blast
qed

end
