(* ===== verification/Lib_Calls.thy ===== *)
theory Lib_Calls
  imports Session_Start
begin

text \<open>
  \<^verbatim>\<open>src/currency_lib_calls.c\<close>: the calls of the application of a coin as a library. The call itself
  belongs to the operating system; what is modelled is what the program gives to it, how it finds
  out that the library has written where it should not, and what it takes of the result.
\<close>

section \<open>Computations that stop\<close>

text \<open>
  The steps of a handler end with a value, with an error code that the handler replies, or with an
  exception that leaves the handler. \<open>and_then\<close> goes on only in the first case.
\<close>

datatype fault = Error swap_error_e | Throws exn

type_synonym 'a step = "world \<Rightarrow> (fault + 'a) \<times> world"

definition done_with :: "'a \<Rightarrow> 'a step" where
  "done_with x w = (Inr x, w)"

definition fails_with :: "swap_error_e \<Rightarrow> 'a step" where
  "fails_with err w = (Inl (Error err), w)"

definition on_ctx :: "(swap_app_context \<Rightarrow> swap_app_context) \<Rightarrow> unit step" where
  "on_ctx f w = (Inr (), upd_ctx f w)"

definition and_then :: "'a step \<Rightarrow> ('a \<Rightarrow> 'b step) \<Rightarrow> 'b step" where
  "and_then m k w = (case m w of (Inl f, w) \<Rightarrow> (Inl f, w) | (Inr x, w) \<Rightarrow> k x w)"

lemmas step_defs = done_with_def fails_with_def on_ctx_def

lemma and_then_ok: "and_then m k w = (Inr y, w') \<longleftrightarrow> (\<exists>x w1. m w = (Inr x, w1) \<and> k x w1 = (Inr y, w'))"
  by (auto simp: and_then_def split: prod.splits sum.splits)

lemma and_then_run [simp]:
  "m w = (Inr x, w1) \<Longrightarrow> and_then m k w = k x w1"
  "m w = (Inl f, w1) \<Longrightarrow> and_then m k w = (Inl f, w1)"
  by (simp_all add: and_then_def)

text \<open>A relation between the world before and after that every run of a step keeps.\<close>

definition keeps :: "(world \<Rightarrow> world \<Rightarrow> bool) \<Rightarrow> 'a step \<Rightarrow> bool" where
  "keeps R m \<longleftrightarrow> (\<forall>w r w'. m w = (r, w') \<longrightarrow> R w w')"

lemma keeps_run: "keeps R m \<Longrightarrow> m w = (r, w') \<Longrightarrow> R w w'"
  by (simp add: keeps_def)

lemma keeps_and_then:
  assumes "keeps R m" and "\<And>x. keeps R (k x)" and "transp R"
  shows "keeps R (and_then m k)"
  unfolding keeps_def
proof (intro allI impI)
  fix w r w'
  assume run: "and_then m k w = (r, w')"
  show "R w w'"
  proof (cases "m w")
    case (Pair x w1)
    have first: "R w w1" using keeps_run [OF assms(1) Pair] .
    show ?thesis
    proof (cases x)
      case (Inl f)
      then show ?thesis using run first Pair by simp
    next
      case (Inr y)
      then have "R w1 w'" using run Pair keeps_run [OF assms(2)] by simp
      with transpD [OF assms(3) first] show ?thesis by blast
    qed
  qed
qed

lemma keeps_basic:
  "(\<And>w. R w w) \<Longrightarrow> keeps R (done_with x)" "(\<And>w. R w w) \<Longrightarrow> keeps R (fails_with err)"
  "(\<And>w. R w (upd_ctx f w)) \<Longrightarrow> keeps R (on_ctx f)"
  by (simp_all add: keeps_def step_defs)

section \<open>The guarded call\<close>

definition OS_LIB_CALL_CANARY_VALUE :: u16 where "OS_LIB_CALL_CANARY_VALUE = 0xCAFE"

text \<open>
  The globals of the model stand for the BSS segment. Of the parameters only the result is written
  by the library; they are on the stack of the caller.
\<close>

definition os_lib_call_bss_safe :: "platform \<Rightarrow> ('p \<Rightarrow> globals \<Rightarrow> 'r lib_outcome) \<Rightarrow> 'p \<Rightarrow> (int \<times> 'r) step" where
  "os_lib_call_bss_safe P os_lib_call params w =
     (let bss_before = cx_crc16 P (globals_of w) in
      case os_lib_call params (globals_of w) of
        Lib_missing \<Rightarrow> (Inl (Throws SWO_SEC_APP_14), w)
      | Lib_returned result bss canary \<Rightarrow>
          let w = with_globals bss w; bss_after = cx_crc16 P (globals_of w) in
          if bss_before \<noteq> bss_after then (Inr (-1, result), w)
          else if canary \<noteq> OS_LIB_CALL_CANARY_VALUE then (Inr (-1, result), w)
          else (Inr (0, result), w))"

text \<open>
  The text is in an array of the parameters, whose first byte is set to zero, after the whole was,
  before the call; \<open>store\<close> updates the destination.
\<close>

definition printable_amount_array :: "mem \<Rightarrow> mem" where
  "printable_amount_array result =
     take MAX_PRINTABLE_AMOUNT_SIZE (result @ replicate MAX_PRINTABLE_AMOUNT_SIZE 0)"

definition get_printable_amount ::
    "platform \<Rightarrow> outside \<Rightarrow> u8 list \<Rightarrow> u8 list \<Rightarrow> u8 list \<Rightarrow> ((mem \<Rightarrow> mem) \<Rightarrow> swap_app_context \<Rightarrow> swap_app_context) \<Rightarrow>
     nat \<Rightarrow> bool \<Rightarrow> unit step" where
  "get_printable_amount P e coin_config application_name amount store printable_amount_size is_fee =
     and_then
       (os_lib_call_bss_safe P (lib_get_printable_amount e)
          \<lparr>pa_application_name = cstr application_name, pa_coin_configuration = coin_config,
           pa_amount = amount, pa_is_fee = is_fee\<rparr>)
       (\<lambda>(ret, result).
          let printable_amount = printable_amount_array result in
          if ret \<noteq> 0 then fails_with MEMORY_CORRUPTION
          else if printable_amount ! 0 = 0 then fails_with AMOUNT_FORMATTING_FAILED
          else if printable_amount ! (MAX_PRINTABLE_AMOUNT_SIZE - 1) \<noteq> 0 then fails_with AMOUNT_FORMATTING_FAILED
          else on_ctx (store (\<lambda>m. strlcpy m printable_amount printable_amount_size)))"

definition check_address ::
    "platform \<Rightarrow> outside \<Rightarrow> u8 list \<Rightarrow> u8 list \<Rightarrow> u8 list \<Rightarrow> u8 list \<Rightarrow> u8 list \<Rightarrow> unit step" where
  "check_address P e coin_config address_parameters application_name address_to_check address_extra_to_check =
     and_then
       (os_lib_call_bss_safe P (lib_check_address e)
          \<lparr>ca_application_name = cstr application_name, ca_coin_configuration = coin_config,
           ca_address_parameters = address_parameters, ca_address_to_check = cstr address_to_check,
           ca_extra_id_to_check = cstr address_extra_to_check\<rparr>)
       (\<lambda>(ret, result).
          if ret \<noteq> 0 then fails_with MEMORY_CORRUPTION
          else if result \<noteq> 1 then fails_with INVALID_ADDRESS
          else done_with ())"

text \<open>
  The name of the application is kept on the stack, in an array of 32 bytes, because the signing
  application may use all of the globals.
\<close>

definition create_payin_transaction :: "outside \<Rightarrow> create_transaction_parameters \<Rightarrow> u8 step" where
  "create_payin_transaction e params w =
     (let appname = strlcpy (take BOLOS_APPNAME_MAX_SIZE_B (stack_bytes e @ replicate BOLOS_APPNAME_MAX_SIZE_B 0))
                      (payin_binary_name (ctx w)) BOLOS_APPNAME_MAX_SIZE_B;
          w = w\<lparr>screen := Screen_off\<rparr>
      in case lib_sign_transaction e params (globals_of w) of
           Lib_missing \<Rightarrow> (Inl (Throws SWO_SEC_APP_14), w)
         | Lib_returned result bss _ \<Rightarrow>
             let w = with_globals bss w;
                 p = previous_cycle w
             in (Inr result,
                 w\<lparr>previous_cycle := p\<lparr>appname_last_cycle := strlcpy (appname_last_cycle p) appname sizeof_payin_binary_name,
                                     was_successful := (result = 1)\<rparr>\<rparr>))"

section \<open>What the program takes of a library\<close>

lemma length_printable_amount_array [simp]: "length (printable_amount_array r) = MAX_PRINTABLE_AMOUNT_SIZE"
  by (simp add: printable_amount_array_def MAX_PRINTABLE_AMOUNT_SIZE_def)

lemma keeps_lib_call:
  assumes "\<And>w. R w w" and "\<And>p g r g' k w. call p g = Lib_returned r g' k \<Longrightarrow> g = globals_of w \<Longrightarrow> R w (with_globals g' w)"
  shows "keeps R (os_lib_call_bss_safe P call params)"
  using assms
  by (auto simp: keeps_def os_lib_call_bss_safe_def Let_def split: lib_outcome.splits if_splits)

text \<open>A library that keeps the globals leaves the world as it is.\<close>

definition lib_call_clean :: "('p \<Rightarrow> globals \<Rightarrow> 'r lib_outcome) \<Rightarrow> bool" where
  "lib_call_clean call \<longleftrightarrow> (\<forall>p g r g' k. call p g = Lib_returned r g' k \<longrightarrow> g' = g)"

lemma libs_keep_globals_clean:
  "libs_keep_globals e \<longleftrightarrow> lib_call_clean (lib_check_address e) \<and> lib_call_clean (lib_get_printable_amount e)"
  by (simp add: libs_keep_globals_def lib_call_clean_def)

lemma lib_call_keeps:
  assumes "lib_call_clean call"
  shows "os_lib_call_bss_safe P call params w =
    (case call params (globals_of w) of
       Lib_missing \<Rightarrow> (Inl (Throws SWO_SEC_APP_14), w)
     | Lib_returned result _ canary \<Rightarrow> (Inr (if canary = OS_LIB_CALL_CANARY_VALUE then 0 else -1, result), w))"
proof (cases "call params (globals_of w)")
  case (Lib_returned r g k)
  with assms have "g = globals_of w" unfolding lib_call_clean_def by metis
  with Lib_returned show ?thesis by (simp add: os_lib_call_bss_safe_def Let_def)
qed (simp add: os_lib_call_bss_safe_def)

lemma get_printable_amount_stored:
  assumes clean: "lib_call_clean (lib_get_printable_amount e)"
    and run: "get_printable_amount P e conf app amt store sz fee w = (Inr u, w')"
  shows "\<exists>res g k. lib_get_printable_amount e
        \<lparr>pa_application_name = cstr app, pa_coin_configuration = conf, pa_amount = amt, pa_is_fee = fee\<rparr>
        (globals_of w) = Lib_returned res g k \<and>
      cstr (printable_amount_array res) \<noteq> [] \<and>
      length (cstr (printable_amount_array res)) < MAX_PRINTABLE_AMOUNT_SIZE \<and>
      w' = upd_ctx (store (\<lambda>m. strlcpy m (printable_amount_array res) sz)) w"
proof -
  let ?p = "\<lparr>pa_application_name = cstr app, pa_coin_configuration = conf, pa_amount = amt, pa_is_fee = fee\<rparr>"
  obtain res g k where call: "lib_get_printable_amount e ?p (globals_of w) = Lib_returned res g k"
    and nz: "printable_amount_array res ! 0 \<noteq> 0" and z: "printable_amount_array res ! 49 = 0"
    and w': "w' = upd_ctx (store (\<lambda>m. strlcpy m (printable_amount_array res) sz)) w"
    using run
    by (auto simp: get_printable_amount_def and_then_ok lib_call_keeps [OF clean] Let_def step_defs
        MAX_PRINTABLE_AMOUNT_SIZE_def split: lib_outcome.splits if_splits)
  let ?a = "printable_amount_array res"
  have len: "length ?a = 50" by (simp add: MAX_PRINTABLE_AMOUNT_SIZE_def)
  have "cstr ?a \<noteq> []" using nz len by (cases ?a) auto
  moreover have "length (cstr ?a) < 50"
  proof -
    have "?a = take 49 ?a @ [0]" using z len take_Suc_conv_app_nth [of 49 ?a] by simp
    then have "cstr ?a = cstr (take 49 ?a)" by (metis cstr_append_zero)
    with cstrlen_le [of "take 49 ?a"] show ?thesis by (simp add: cstrlen_def)
  qed
  ultimately show ?thesis using call w' by (auto simp: MAX_PRINTABLE_AMOUNT_SIZE_def)
qed

end
