(* ===== verification/Trusted_Name.thy ===== *)
theory Trusted_Name
  imports Session_Start
begin

text \<open>
  \<^verbatim>\<open>src/trusted_name_descriptor_handler.c\<close>: a signed descriptor says which address stands behind the
  name that the transaction has in place of a payout or a refund address. The parser of the
  descriptor and the check of its signature belong to the SDK.
\<close>

section \<open>The handler\<close>

definition apply_trusted_name :: "member \<Rightarrow> u8 list \<Rightarrow> u8 list \<Rightarrow> mem \<Rightarrow> bool \<times> mem" where
  "apply_trusted_name current name owner m =
     (let current_address = member_bytes current m;
          current_address_size = snd current;
          current_length = (of_nat (strnlen current_address current_address_size) :: u8)
      in if length name = unat current_length then
           if name = take (unat current_length) current_address then
             if length owner < current_address_size
             then (True, mwrite (fst current) owner (memset (fst current) 0 current_address_size m))
             else (False, m)
           else (False, m)
         else (False, m))"

definition trusted_name_descriptor_handler_internal ::
    "platform \<Rightarrow> outside \<Rightarrow> command_t \<Rightarrow> world \<Rightarrow> int \<times> world" where
  "trusted_name_descriptor_handler_internal P e cmd w =
     (if \<not> swap_based (ctx_subcommand (ctx w)) then reply_error e INTERNAL_ERROR w
      else case tlv_use_case_trusted_name P (data_bytes cmd (ctx w)) of
        Inl err \<Rightarrow> io_send_response_buffers e err (status_word WRONG_TRUSTED_NAME_TLV) w
      | Inr tlv_output \<Rightarrow>
          if \<not> challenge_received tlv_output then reply_error e MISSING_TLV_CONTENT w
          else if tlv_challenge tlv_output \<noteq> get_challenge w then reply_error e WRONG_TLV_CHALLENGE w
          else if trusted_name_type tlv_output \<noteq> TLV_TRUSTED_NAME_TYPE_CONTEXT_ADDRESS P
          then reply_error e WRONG_TLV_CONTENT w
          else if trusted_name_source tlv_output \<noteq> TLV_TRUSTED_NAME_SOURCE_DYNAMIC_RESOLVER P
          then reply_error e WRONG_TLV_CONTENT w
          else
            case apply_trusted_name swap_payout_address (trusted_name tlv_output) (tlv_address tlv_output)
                   (tx (ctx w)) of
              (on_payout, t) \<Rightarrow>
                case apply_trusted_name swap_refund_address (trusted_name tlv_output) (tlv_address tlv_output) t of
                  (on_refund, t) \<Rightarrow>
                    let w = w\<lparr>ctx := (ctx w)\<lparr>tx := t\<rparr>\<rparr> in
                    if \<not> (on_payout \<or> on_refund) then reply_error e DESCRIPTOR_NOT_USED w
                    else reply_success e w)"

definition trusted_name_descriptor_handler :: "platform \<Rightarrow> outside \<Rightarrow> command_t \<Rightarrow> world \<Rightarrow> int \<times> world" where
  "trusted_name_descriptor_handler P e cmd w =
     (case trusted_name_descriptor_handler_internal P e cmd w of
        (ret, w) \<Rightarrow> (ret, roll_challenge P e w))"

section \<open>The addresses after it\<close>

text \<open>An address that is a given name, replaced by that of its owner where it fits.\<close>

definition names_address :: "u8 list \<Rightarrow> u8 list \<Rightarrow> member \<Rightarrow> mem \<Rightarrow> bool" where
  "names_address name owner mb m \<longleftrightarrow> cstr (member_bytes mb m) = name \<and> length owner < snd mb"

definition resolve_address :: "u8 list \<Rightarrow> u8 list \<Rightarrow> member \<Rightarrow> mem \<Rightarrow> mem" where
  "resolve_address name owner mb m =
     (if names_address name owner mb m
      then mwrite (fst mb) (owner @ replicate (snd mb - length owner) 0) m else m)"

text \<open>The name and the owner of a descriptor that answers the given challenge.\<close>

definition descriptor_for :: "platform \<Rightarrow> u8 list \<Rightarrow> u32 \<Rightarrow> (u8 list \<times> u8 list) option" where
  "descriptor_for P payload ch =
     (case tlv_use_case_trusted_name P payload of
        Inl _ \<Rightarrow> None
      | Inr out \<Rightarrow>
          if challenge_received out \<and> tlv_challenge out = ch \<and>
             trusted_name_type out = TLV_TRUSTED_NAME_TYPE_CONTEXT_ADDRESS P \<and>
             trusted_name_source out = TLV_TRUSTED_NAME_SOURCE_DYNAMIC_RESOLVER P
          then Some (trusted_name out, tlv_address out) else None)"

lemma apply_trusted_name_eq:
  assumes "fst mb + snd mb \<le> length m" and "snd mb < 256"
  shows "apply_trusted_name mb name owner m =
    (names_address name owner mb m, resolve_address name owner mb m)"
proof -
  let ?a = "member_bytes mb m"
  have la: "length ?a = snd mb" using assms(1) by (simp add: member_bytes_def length_mread)
  have full: "strnlen ?a (snd mb) = length (cstr ?a)" using la by (simp add: strnlen_def cstrlen_def)
  have "length (cstr ?a) < 256" using cstrlen_le [of ?a] la assms(2) by (simp add: cstrlen_def)
  then have u: "unat (of_nat (strnlen ?a (snd mb)) :: u8) = length (cstr ?a)"
    by (simp add: full unat_of_nat_u8)
  have t: "take (length (cstr ?a)) ?a = cstr ?a" using cstr_take_cstrlen [of ?a] by (simp add: cstrlen_def)
  have w: "mwrite (fst mb) owner (memset (fst mb) 0 (snd mb) m) =
      mwrite (fst mb) (owner @ replicate (snd mb - length owner) 0) m" if "length owner < snd mb"
    using that assms(1) by (simp add: memset_def mwrite_def min_def)
  show ?thesis
    by (auto simp: apply_trusted_name_def Let_def u t names_address_def resolve_address_def w)
qed

lemma length_resolve_address:
  "fst mb + snd mb \<le> length m \<Longrightarrow> length (resolve_address name owner mb m) = length m"
  by (auto simp: resolve_address_def names_address_def length_mwrite)

lemma names_after_payout:
  assumes "length m = sizeof_tx"
  shows "names_address name owner swap_refund_address (resolve_address name owner swap_payout_address m) =
    names_address name owner swap_refund_address m"
  using assms
  by (simp add: names_address_def resolve_address_def member_bytes_def layout_defs mread_mwrite_before)

text \<open>The context after a descriptor, and the answer to it.\<close>

lemma trusted_name_run:
  assumes flow: "swap_based (ctx_subcommand (ctx w))" and size: "length (tx (ctx w)) = sizeof_tx"
    and run: "trusted_name_descriptor_handler P e cmd w = (r, w')"
  shows "challenge w' = (if FIXED_TLV_CHALLENGE P then 0xdeadbeef else rng_u32 e) \<and>
    (case descriptor_for P (data_bytes cmd (ctx w)) (challenge w) of
       None \<Rightarrow> ctx w' = ctx w \<and> (\<exists>d sw. sent w' = sent w @ [(d, sw)] \<and> sw \<noteq> status_word SUCCESS)
     | Some (name, owner) \<Rightarrow>
         ctx w' = (ctx w)\<lparr>tx := resolve_address name owner swap_refund_address
                             (resolve_address name owner swap_payout_address (tx (ctx w)))\<rparr> \<and>
         sent w' = sent w @ [([], status_word
           (if names_address name owner swap_payout_address (tx (ctx w)) \<or>
               names_address name owner swap_refund_address (tx (ctx w))
            then SUCCESS else DESCRIPTOR_NOT_USED))])"
proof -
  note apply1 = apply_trusted_name_eq [of swap_payout_address "tx (ctx w)"]
  have room: "fst swap_payout_address + snd swap_payout_address \<le> length (tx (ctx w))"
    "fst swap_refund_address + snd swap_refund_address \<le> length (tx (ctx w))"
    "snd swap_payout_address < 256" "snd swap_refund_address < 256"
    using size by (simp_all add: layout_defs)
  have "apply_trusted_name swap_refund_address name owner (resolve_address name owner swap_payout_address (tx (ctx w))) =
      (names_address name owner swap_refund_address (tx (ctx w)),
       resolve_address name owner swap_refund_address (resolve_address name owner swap_payout_address (tx (ctx w))))"
    for name owner
    using apply_trusted_name_eq [of swap_refund_address] room length_resolve_address [OF room(1)]
    by (simp add: names_after_payout [OF size])
  with apply1 [OF room(1,3)] show ?thesis
    using run flow
    by (auto simp: trusted_name_descriptor_handler_def trusted_name_descriptor_handler_internal_def descriptor_for_def
        roll_challenge_def reply_defs get_challenge_def Let_def split: sum.splits if_splits)
qed

lemma trusted_name_frame:
  "\<exists>t d sw. snd (trusted_name_descriptor_handler_internal P e cmd w) =
    w\<lparr>ctx := (ctx w)\<lparr>tx := t\<rparr>, sent := sent w @ [(d, sw)]\<rparr>"
proof -
  have same: "\<exists>t d sw. w\<lparr>sent := sent w @ [(a, b)]\<rparr> = w\<lparr>ctx := (ctx w)\<lparr>tx := t\<rparr>, sent := sent w @ [(d, sw)]\<rparr>"
    for a b by (intro exI [of _ "tx (ctx w)"] exI [of _ a] exI [of _ b]) simp
  show ?thesis
  proof (cases "tlv_use_case_trusted_name P (data_bytes cmd (ctx w))")
    case (Inl err)
    then show ?thesis
      by (auto simp: trusted_name_descriptor_handler_internal_def reply_defs intro: same)
  next
    case (Inr out)
    then show ?thesis
      by (auto simp: trusted_name_descriptor_handler_internal_def reply_defs Let_def case_prod_unfold intro: same)
  qed
qed

lemma trusted_name_world:
  assumes "trusted_name_descriptor_handler P e cmd w = (r, w')"
  shows "\<exists>t d sw c. w' = w\<lparr>ctx := (ctx w)\<lparr>tx := t\<rparr>, sent := sent w @ [(d, sw)], challenge := c\<rparr>"
proof -
  obtain t d sw where "snd (trusted_name_descriptor_handler_internal P e cmd w) =
      w\<lparr>ctx := (ctx w)\<lparr>tx := t\<rparr>, sent := sent w @ [(d, sw)]\<rparr>"
    using trusted_name_frame by blast
  then have "w' = w\<lparr>ctx := (ctx w)\<lparr>tx := t\<rparr>, sent := sent w @ [(d, sw)],
      challenge := (if FIXED_TLV_CHALLENGE P then 0xdeadbeef else rng_u32 e)\<rparr>"
    using assms by (simp add: trusted_name_descriptor_handler_def case_prod_unfold roll_challenge_def prod_eq_iff)
  then show ?thesis by blast
qed

interpretation trusted_name_handler: handler "\<lambda>e cmd w. returning (trusted_name_descriptor_handler P e cmd w)"
  "{}" "\<lambda>e cmd w. swap_based (ctx_subcommand (ctx w))" for P
proof (unfold_locales, goal_cases)
  case (1 e cmd w r w')
  with trusted_name_world [of P e cmd w] show ?case
    by (cases "trusted_name_descriptor_handler P e cmd w") fastforce
next
  case (2 e cmd w r w')
  have size: "length (tx (ctx w)) = sizeof_tx" using 2(3) by (simp add: ctx_sizes_def)
  then have len: "length (resolve_address a b swap_refund_address (resolve_address a b swap_payout_address (tx (ctx w)))) = sizeof_tx"
    for a b by (simp add: length_resolve_address layout_defs)
  obtain r1 where run: "trusted_name_descriptor_handler P e cmd w = (r1, w')"
    using 2(2) by (cases "trusted_name_descriptor_handler P e cmd w") simp
  show ?case
  proof (cases "descriptor_for P (data_bytes cmd (ctx w)) (challenge w)")
    case None
    with trusted_name_run [OF 2(1) size run] 2(3) show ?thesis by simp
  next
    case (Some d)
    with trusted_name_run [OF 2(1) size run] 2(3) len show ?thesis
      by (cases d) (simp add: ctx_sizes_def)
  qed
next
  case (3 e cmd w r w')
  with trusted_name_world [of P e cmd w] show ?case
    by (cases "trusted_name_descriptor_handler P e cmd w") fastforce
qed

text \<open>
  C18: A name in the transaction becomes an address only by a descriptor that answers the challenge of
  the session: without one the context stays as it is; with one, the payout and the refund address
  are replaced each where it is the name, padded with zeros, and nothing else is. Success is
  answered only when one of them was, and after every descriptor the challenge is drawn again.
\<close>

theorem trusted_name_applied:
  assumes "swap_based (ctx_subcommand (ctx w))" and "length (tx (ctx w)) = sizeof_tx"
    and "trusted_name_descriptor_handler P e cmd w = (r, w')"
  shows "challenge w' = (if FIXED_TLV_CHALLENGE P then 0xdeadbeef else rng_u32 e) \<and>
    (case descriptor_for P (data_bytes cmd (ctx w)) (challenge w) of
       None \<Rightarrow> ctx w' = ctx w \<and> (\<exists>d sw. sent w' = sent w @ [(d, sw)] \<and> sw \<noteq> status_word SUCCESS)
     | Some (name, owner) \<Rightarrow>
         ctx w' = (ctx w)\<lparr>tx := resolve_address name owner swap_refund_address
                             (resolve_address name owner swap_payout_address (tx (ctx w)))\<rparr> \<and>
         sent w' = sent w @ [([], status_word
           (if names_address name owner swap_payout_address (tx (ctx w)) \<or>
               names_address name owner swap_refund_address (tx (ctx w))
            then SUCCESS else DESCRIPTOR_NOT_USED))])"
  by (rule trusted_name_run [OF assms])

definition sample_descriptor :: command_t where
  "sample_descriptor = \<lparr>cmd_ins = SEND_TRUSTED_NAME_DESCRIPTOR, cmd_rate = FIXED, cmd_subcommand = SWAP,
     cmd_data = In_apdu_buffer (replicate 5 0), cmd_data_size = 0\<rparr>"

definition naming_platform :: platform where
  "naming_platform = plain_platform\<lparr>tlv_use_case_trusted_name := (\<lambda>_. Inr \<lparr>challenge_received = True, tlv_challenge = 5,
     trusted_name_type = 1, trusted_name_source = 2, trusted_name = ascii ''al.eth'', tlv_address = ascii ''0xA1''\<rparr>)\<rparr>"

definition named_world :: world where
  "named_world = (world_in SIGNATURE_CHECKED SWAP)\<lparr>challenge := 5, ctx := zero_context\<lparr>
     ctx_state := SIGNATURE_CHECKED,
     tx := mwrite (fst swap_payout_address) (ascii ''al.eth'' @ replicate 145 0) (replicate sizeof_tx 0)\<rparr>\<rparr>"

lemma named_world_facts:
  "member_bytes swap_payout_address (tx (ctx named_world)) = ascii ''al.eth'' @ replicate 145 0"
  "member_bytes swap_refund_address (tx (ctx named_world)) = replicate 151 0"
  "length (tx (ctx named_world)) = sizeof_tx" "ctx_subcommand (ctx named_world) = SWAP" "challenge named_world = 5"
  "sent named_world = []"
  by (simp_all add: named_world_def world_in_def member_bytes_def mread_mwrite_same mread_mwrite_before length_mwrite
      layout_defs zero_context_def) (simp add: mread_def)

lemma trusted_name_applied_witness:
  "let w' = snd (trusted_name_descriptor_handler naming_platform plain_outside sample_descriptor named_world) in
   cstr (member_bytes swap_payout_address (tx (ctx w'))) = ascii ''0xA1'' \<and> challenge w' = 7 \<and>
   sent w' = [([], 0x9000)]"
proof -
  let ?run = "trusted_name_descriptor_handler naming_platform plain_outside sample_descriptor named_world"
  let ?t = "tx (ctx named_world)" and ?new = "mwrite (fst swap_payout_address) (ascii ''0xA1'' @ replicate 147 0) (tx (ctx named_world))"
  have names: "names_address (ascii ''al.eth'') (ascii ''0xA1'') swap_payout_address ?t"
    "\<not> names_address (ascii ''al.eth'') (ascii ''0xA1'') swap_refund_address ?t"
    unfolding names_address_def named_world_facts
    by (simp_all add: cstr_simps ascii_def layout_defs)
  have payout: "resolve_address (ascii ''al.eth'') (ascii ''0xA1'') swap_payout_address ?t = ?new"
    using names(1) by (simp add: resolve_address_def swap_payout_address_def)
  have refund: "resolve_address (ascii ''al.eth'') (ascii ''0xA1'') swap_refund_address ?new = ?new"
    using names(2) names_after_payout [OF named_world_facts(3), of "ascii ''al.eth''" "ascii ''0xA1''"]
    unfolding payout by (simp add: resolve_address_def)
  have desc: "descriptor_for naming_platform xs 5 = Some (ascii ''al.eth'', ascii ''0xA1'')" for xs
    by (simp add: descriptor_for_def naming_platform_def plain_platform_def)
  have "member_bytes swap_payout_address ?new = ascii ''0xA1'' @ replicate 147 0"
    using named_world_facts(3) by (simp add: member_bytes_def mread_mwrite_same layout_defs)
  then have "cstr (member_bytes swap_payout_address ?new) = ascii ''0xA1''"
    by (simp add: cstr_simps ascii_def)
  with trusted_name_applied [of named_world naming_platform plain_outside sample_descriptor "fst ?run" "snd ?run"]
  show ?thesis
    by (simp add: named_world_facts desc payout refund names Let_def)
       (simp add: naming_platform_def plain_platform_def plain_outside_def)
qed

end
