(* ===== verification/Ui_Review.thy ===== *)
theory Ui_Review
  imports Partner
begin

text \<open>
  The review by the user: \<^verbatim>\<open>src/ui/validate_transaction_nbgl.c\<close> and \<^verbatim>\<open>src/prompt_ui_display.c\<close>. The
  texts are computed when the review starts; the choices of the user come back as events, which the
  callbacks \<open>on_warning_choice\<close> and \<open>review_choice\<close> handle. What is drawn belongs to the graphical
  library; the model keeps which page is on the screen, and what the pairs on it point at.
\<close>

section \<open>Title and confirmation\<close>

definition nl :: u8 where "nl = 0x0A"
definition space :: u8 where "space = 0x20"

text \<open>The four parts that depend on the flow.\<close>

fun title_parts :: "subcommand_e \<Rightarrow> mem \<Rightarrow> u8 list \<times> u8 list \<times> u8 list \<times> u8 list" where
  "title_parts s m =
     (if swap_based s then
        (REVIEW_P3_SWAP, member_string swap_currency_from m, REVIEW_P5_SWAP, member_string swap_currency_to m)
      else if sell_based s then
        (REVIEW_P3_SELL, member_string sell_in_currency m, REVIEW_P5_SELL, member_string sell_out_currency m)
      else
        (REVIEW_P3_FUND, [], REVIEW_P5_FUND, member_string fund_in_currency m))"

definition delimiters :: "platform \<Rightarrow> subcommand_e \<Rightarrow> u8 list \<Rightarrow> u8 list \<Rightarrow> u8 \<times> u8 \<times> u8" where
  "delimiters P s p4 p6 =
     (if SCREEN_SIZE_WALLET P then
        if fund_based s \<or> length p4 + length p6 \<ge> 10 then (nl, space, nl) else (space, nl, space)
      else (space, space, space))"

definition snprintf :: "mem \<Rightarrow> nat \<Rightarrow> u8 list \<Rightarrow> mem" where
  \<comment> \<open>the formatted text, as much of it as fits, and a zero\<close>
  "snprintf dst n xs = (if n = 0 then dst else mwrite 0 (take (n - 1) xs @ [0]) dst)"

definition prepare_title_and_confirm :: "platform \<Rightarrow> world \<Rightarrow> world" where
  "prepare_title_and_confirm P w =
     (case title_parts (ctx_subcommand (ctx w)) (tx (ctx w)) of
        (p3, p4, p5, p6) \<Rightarrow>
          case delimiters P (ctx_subcommand (ctx w)) p4 p6 of
            (delimitor_1, delimitor_2, delimitor_3) \<Rightarrow>
              w\<lparr>review_title_string :=
                  snprintf (review_title_string w) REVIEW_TITLE_MAX_SIZE
                    (REVIEW_P1_TITLE @ [delimitor_1] @ REVIEW_P2 @ [delimitor_2] @ p3 @ p4 @ [delimitor_3] @ p5 @ p6),
                review_confirm_string :=
                  snprintf (review_confirm_string w) REVIEW_CONFIRM_MAX_SIZE
                    (if SCREEN_SIZE_WALLET P
                     then REVIEW_P1_CONFIRM @ [delimitor_1] @ REVIEW_P2 @ [delimitor_2] @ p3 @ p4 @ [delimitor_3] @
                          p5 @ p6 @ REVIEW_P7_CONFIRM
                     else REVIEW_P1_CONFIRM @ [nl] @ REVIEW_P2 @ [space] @ p3)\<rparr>)"

section \<open>The pairs\<close>

text \<open>\<open>account_name\<close> shares the memory of \<open>printable_get_amount\<close>, which is what the pairs name.\<close>

definition prepare_pairs_list :: "platform \<Rightarrow> swap_app_context \<Rightarrow> (text_ptr \<times> text_ptr) list" where
  "prepare_pairs_list P c =
     (let s = ctx_subcommand c in
      (if \<not> SCREEN_SIZE_WALLET P \<and> other_seed_payout c then
         [(Text (ascii ''Warning''), Text (ascii ''Receive address does not belong to this Ledger device'')),
          (Text (ascii ''Learn more at''), Text (ascii ''ledger.com/e13''))] else []) @
      (if \<not> fund_based s then [(Text (ascii ''Exchange partner''), Unprefixed_name)] else []) @
      (if sell_based s then [(Text (ascii ''Email''), Trader_email)]
       else if fund_based s then [(Text (ascii ''User''), User_id)] else []) @
      [(Text (ascii ''Send''), Printable_send)] @
      (if fund_based s then [(Prefixed_name, Printable_get)]
       else [(Text (if ctx_rate c = FLOATING then ascii ''Receive estimated'' else ascii ''Receive''),
              Printable_get)]) @
      [(Text (ascii ''Fees''), Printable_fees)] @
      (if other_seed_payout c then [(Text (ascii ''Receive address''), Payout_address)] else []))"

definition sizeof_pairs :: nat where "sizeof_pairs = 8"

section \<open>The choices of the user\<close>

definition handle_refusal :: "outside \<Rightarrow> swap_error_e \<Rightarrow> world \<Rightarrow> world" where
  "handle_refusal e error_code w =
     (let w = snd (reply_error e error_code w);
          w = w\<lparr>screen := Transaction_rejected\<rparr>
      in w\<lparr>ctx := (ctx w)\<lparr>ctx_state := INITIAL_STATE\<rparr>\<rparr>)"

definition review_choice :: "platform \<Rightarrow> outside \<Rightarrow> bool \<Rightarrow> world \<Rightarrow> world" where
  "review_choice P e confirm w =
     (if confirm then
        let w = w\<lparr>screen := Spinner\<rparr>;
            w = snd (reply_success e w)
        in w\<lparr>ctx := (ctx w)\<lparr>ctx_state := WAITING_SIGNING\<rparr>\<rparr>
      else
        handle_refusal e
          (if \<not> SCREEN_SIZE_WALLET P \<and> other_seed_payout (ctx w)
           then USER_REFUSED_CROSS_SEED else USER_REFUSED_TRANSACTION) w)"

definition on_warning_choice :: "outside \<Rightarrow> bool \<Rightarrow> world \<Rightarrow> world" where
  "on_warning_choice e confirm w =
     (if confirm then w\<lparr>screen := Review\<rparr> else handle_refusal e USER_REFUSED_CROSS_SEED w)"

definition ui_validate_amounts :: "platform \<Rightarrow> outside \<Rightarrow> world \<Rightarrow> world" where
  "ui_validate_amounts P e w =
     (let w = prepare_title_and_confirm P w;
          w = w\<lparr>review_pairs := prepare_pairs_list P (ctx w)\<rparr>
      in if other_seed_payout (ctx w) then
           if SCREEN_SIZE_WALLET P then w\<lparr>screen := Cross_seed_warning\<rparr> else on_warning_choice e True w
         else on_warning_choice e True w)"

definition start_ui_display :: "platform \<Rightarrow> outside \<Rightarrow> world \<Rightarrow> world" where
  "start_ui_display P e w =
     ui_validate_amounts P e (w\<lparr>ctx := (ctx w)\<lparr>ctx_state := WAITING_USER_VALIDATION\<rparr>\<rparr>)"

definition prompt_ui_display :: "platform \<Rightarrow> outside \<Rightarrow> command_t \<Rightarrow> world \<Rightarrow> int \<times> world" where
  "prompt_ui_display P e cmd w = (0, start_ui_display P e w)"

section \<open>What the user sees\<close>

text \<open>The text behind a pointer of the review, when it is read.\<close>

fun shown :: "swap_app_context \<Rightarrow> text_ptr \<Rightarrow> u8 list" where
  "shown c (Text s) = s"
| "shown c Unprefixed_name = cstr (partner_name c)"
| "shown c Prefixed_name = cstr (partner_name c)"
| "shown c Trader_email = member_string sell_trader_email (tx c)"
| "shown c User_id = member_string fund_user_id (tx c)"
| "shown c Payout_address = member_string swap_payout_address (tx c)"
| "shown c Printable_send = cstr (printable_send_amount c)"
| "shown c Printable_get = cstr (printable_get_amount c)"
| "shown c Printable_fees = cstr (printable_fees_amount c)"

definition shown_pairs :: "world \<Rightarrow> (u8 list \<times> u8 list) list" where
  "shown_pairs w = map (\<lambda>(i, v). (shown (ctx w) i, shown (ctx w) v)) (review_pairs w)"

lemma pairs_fit: "length (prepare_pairs_list P c) \<le> sizeof_pairs"
  by (simp add: prepare_pairs_list_def sizeof_pairs_def Let_def)

text \<open>The texts of the title, in full.\<close>

definition title_text :: "platform \<Rightarrow> swap_app_context \<Rightarrow> u8 list" where
  "title_text P c =
     (case title_parts (ctx_subcommand c) (tx c) of
        (p3, p4, p5, p6) \<Rightarrow>
          case delimiters P (ctx_subcommand c) p4 p6 of
            (d1, d2, d3) \<Rightarrow> REVIEW_P1_TITLE @ [d1] @ REVIEW_P2 @ [d2] @ p3 @ p4 @ [d3] @ p5 @ p6)"

definition confirm_text :: "platform \<Rightarrow> swap_app_context \<Rightarrow> u8 list" where
  "confirm_text P c =
     (case title_parts (ctx_subcommand c) (tx c) of
        (p3, p4, p5, p6) \<Rightarrow>
          case delimiters P (ctx_subcommand c) p4 p6 of
            (d1, d2, d3) \<Rightarrow>
              if SCREEN_SIZE_WALLET P
              then REVIEW_P1_CONFIRM @ [d1] @ REVIEW_P2 @ [d2] @ p3 @ p4 @ [d3] @ p5 @ p6 @ REVIEW_P7_CONFIRM
              else REVIEW_P1_CONFIRM @ [nl] @ REVIEW_P2 @ [space] @ p3)"

text \<open>The currencies of the transaction, as strings that end inside their members.\<close>

definition currency_members :: "subcommand_e \<Rightarrow> member list" where
  "currency_members s =
     (if swap_based s then [swap_currency_from, swap_currency_to]
      else if sell_based s then [sell_in_currency, sell_out_currency] else [fund_in_currency])"

definition currencies_terminated :: "swap_app_context \<Rightarrow> bool" where
  "currencies_terminated c \<longleftrightarrow> (\<forall>mb \<in> set (currency_members (ctx_subcommand c)). 0 \<in> set (member_bytes mb (tx c)))"

lemma member_string_no_zero [simp]: "0 \<notin> set (member_string mb m)"
  by (simp add: member_string_def cstr_no_zero)

lemma terminated_length:
  assumes "0 \<in> set (member_bytes mb m)"
  shows "length (member_string mb m) < snd mb"
proof -
  have "length (cstr xs) < length xs" if "0 \<in> set xs" for xs
    using that by (induction xs) auto
  from this [OF assms] member_string_inside [OF assms] show ?thesis
    using length_mread_le [of "fst mb" "snd mb" m] by (simp add: member_bytes_def)
qed

lemma literal_no_zero:
  "0 \<notin> set REVIEW_P1_TITLE" "0 \<notin> set REVIEW_P1_CONFIRM" "0 \<notin> set REVIEW_P2" "0 \<notin> set REVIEW_P3_SWAP"
  "0 \<notin> set REVIEW_P3_SELL" "0 \<notin> set REVIEW_P3_FUND" "0 \<notin> set REVIEW_P5_SWAP" "0 \<notin> set REVIEW_P5_SELL"
  "0 \<notin> set REVIEW_P5_FUND" "0 \<notin> set REVIEW_P7_CONFIRM" "nl \<noteq> 0" "space \<noteq> 0"
  by (simp_all add: review_defs ascii_def nl_def space_def)

lemma cstr_snprintf:
  assumes "length xs < n" and "0 \<notin> set xs"
  shows "cstr (snprintf dst n xs) = xs"
  using assms cstr_append_zero [of xs "drop (Suc (length xs)) dst"]
  by (simp add: snprintf_def mwrite_def cstr_id)

lemma title_parts_bound:
  assumes "currencies_terminated c" and "title_parts (ctx_subcommand c) (tx c) = (p3, p4, p5, p6)"
  shows "length p3 + length p4 + length p5 + length p6 \<le> 27" "length p3 \<le> 12"
    "0 \<notin> set (p3 @ p4 @ p5 @ p6)"
proof -
  have l: "mb \<in> set (currency_members (ctx_subcommand c)) \<Longrightarrow> length (member_string mb (tx c)) < snd mb" for mb
    using assms(1) terminated_length by (simp add: currencies_terminated_def)
  have bounds: "swap_based (ctx_subcommand c) \<Longrightarrow> length (member_string swap_currency_from (tx c)) \<le> 9"
    "swap_based (ctx_subcommand c) \<Longrightarrow> length (member_string swap_currency_to (tx c)) \<le> 9"
    "sell_based (ctx_subcommand c) \<Longrightarrow> length (member_string sell_in_currency (tx c)) \<le> 9"
    "sell_based (ctx_subcommand c) \<Longrightarrow> length (member_string sell_out_currency (tx c)) \<le> 9"
    "fund_based (ctx_subcommand c) \<Longrightarrow> length (member_string fund_in_currency (tx c)) \<le> 9"
    using l [of swap_currency_from] l [of swap_currency_to] l [of sell_in_currency] l [of sell_out_currency]
      l [of fund_in_currency]
    by (auto simp: currency_members_def layout_defs)
  consider "swap_based (ctx_subcommand c)" | "sell_based (ctx_subcommand c)" | "fund_based (ctx_subcommand c)"
    by (cases "ctx_subcommand c") auto
  then have "length p3 + length p4 + length p5 + length p6 \<le> 27 \<and> length p3 \<le> 12 \<and> 0 \<notin> set (p3 @ p4 @ p5 @ p6)"
  proof cases
    case 1
    with assms(2) bounds(1,2) literal_no_zero show ?thesis by (auto simp: review_defs)
  next
    case 2
    with assms(2) bounds(3,4) literal_no_zero show ?thesis by (auto simp: review_defs)
  next
    case 3
    with assms(2) bounds(5) literal_no_zero show ?thesis by (auto simp: review_defs)
  qed
  then show "length p3 + length p4 + length p5 + length p6 \<le> 27" "length p3 \<le> 12"
    "0 \<notin> set (p3 @ p4 @ p5 @ p6)" by blast+
qed

lemma title_shown:
  assumes "currencies_terminated (ctx w)"
  shows "cstr (review_title_string (prepare_title_and_confirm P w)) = title_text P (ctx w)"
    and "cstr (review_confirm_string (prepare_title_and_confirm P w)) = confirm_text P (ctx w)"
proof -
  obtain p3 p4 p5 p6 where p: "title_parts (ctx_subcommand (ctx w)) (tx (ctx w)) = (p3, p4, p5, p6)"
    by (cases "title_parts (ctx_subcommand (ctx w)) (tx (ctx w))")
  obtain d1 d2 d3 where d: "delimiters P (ctx_subcommand (ctx w)) p4 p6 = (d1, d2, d3)"
    by (cases "delimiters P (ctx_subcommand (ctx w)) p4 p6")
  have nz: "d1 \<noteq> 0" "d2 \<noteq> 0" "d3 \<noteq> 0"
    using d literal_no_zero(11,12) by (auto simp: delimiters_def split: if_splits)
  note b = title_parts_bound [OF assms p]
  have len: "length REVIEW_P1_TITLE = 18" "length REVIEW_P1_CONFIRM = 16" "length REVIEW_P2 = 2"
    "length REVIEW_P7_CONFIRM = 1" "REVIEW_TITLE_MAX_SIZE = 55" "REVIEW_CONFIRM_MAX_SIZE = 55"
    by (simp_all add: review_defs layout_defs)
  show "cstr (review_title_string (prepare_title_and_confirm P w)) = title_text P (ctx w)"
    using b nz literal_no_zero(1-3) len
    by (simp add: prepare_title_and_confirm_def title_text_def p d del: title_parts.simps)
       (subst cstr_snprintf; simp)
  show "cstr (review_confirm_string (prepare_title_and_confirm P w)) = confirm_text P (ctx w)"
    using b nz literal_no_zero len
    by (simp add: prepare_title_and_confirm_def confirm_text_def p d del: title_parts.simps)
       (safe; subst cstr_snprintf; simp)
qed

section \<open>What the review changes\<close>

lemma start_ui_display_effect:
  "\<exists>t k p sc. start_ui_display P e w =
     w\<lparr>ctx := (ctx w)\<lparr>ctx_state := WAITING_USER_VALIDATION\<rparr>, review_title_string := t, review_confirm_string := k,
       review_pairs := p, screen := sc\<rparr>"
  by (cases "title_parts (ctx_subcommand (ctx w)) (tx (ctx w))")
     (simp add: start_ui_display_def ui_validate_amounts_def prepare_title_and_confirm_def Let_def
      on_warning_choice_def case_prod_unfold del: title_parts.simps, blast)

lemma start_ui_display_ctx [simp]:
  "ctx (start_ui_display P e w) = (ctx w)\<lparr>ctx_state := WAITING_USER_VALIDATION\<rparr>"
  "sent (start_ui_display P e w) = sent w" "received_apdu (start_ui_display P e w) = received_apdu w"
  using start_ui_display_effect [of P e w] by auto

interpretation prompt_handler: handler "\<lambda>e cmd w. returning (prompt_ui_display P e cmd w)"
  "{WAITING_USER_VALIDATION}" "\<lambda>_ _ _. True" for P
  by unfold_locales (auto simp: prompt_ui_display_def ctx_sizes_def)

lemma start_ui_display_review:
  assumes "currencies_terminated (ctx w)"
  shows "cstr (review_title_string (start_ui_display P e w)) = title_text P (ctx w)"
    and "cstr (review_confirm_string (start_ui_display P e w)) = confirm_text P (ctx w)"
    and "review_pairs (start_ui_display P e w) = prepare_pairs_list P (ctx w)"
    and "screen (start_ui_display P e w) =
      (if SCREEN_SIZE_WALLET P \<and> other_seed_payout (ctx w) then Cross_seed_warning else Review)"
proof -
  let ?w = "w\<lparr>ctx := (ctx w)\<lparr>ctx_state := WAITING_USER_VALIDATION\<rparr>\<rparr>"
  have "currencies_terminated (ctx ?w)" using assms by (simp add: currencies_terminated_def)
  from title_shown [OF this, of P]
  have t: "cstr (review_title_string (prepare_title_and_confirm P ?w)) = title_text P (ctx w)"
    "cstr (review_confirm_string (prepare_title_and_confirm P ?w)) = confirm_text P (ctx w)"
    by (simp_all add: title_text_def confirm_text_def)
  have same: "ctx (prepare_title_and_confirm P ?w) = ctx ?w"
    by (simp add: prepare_title_and_confirm_def case_prod_unfold del: title_parts.simps)
  have pairs: "prepare_pairs_list P (ctx ?w) = prepare_pairs_list P (ctx w)"
    by (simp add: prepare_pairs_list_def)
  show "cstr (review_title_string (start_ui_display P e w)) = title_text P (ctx w)"
    "cstr (review_confirm_string (start_ui_display P e w)) = confirm_text P (ctx w)"
    "review_pairs (start_ui_display P e w) = prepare_pairs_list P (ctx w)"
    "screen (start_ui_display P e w) =
      (if SCREEN_SIZE_WALLET P \<and> other_seed_payout (ctx w) then Cross_seed_warning else Review)"
    using t same pairs
    by (auto simp: start_ui_display_def ui_validate_amounts_def on_warning_choice_def Let_def)
qed

section \<open>The review, in full\<close>

text \<open>
  What the user reads, flow by flow: the operation that the title and the confirmation name, and the
  pairs of a text and its value. Where a line of the title ends is left to the layout.
\<close>

definition one_line :: "u8 list \<Rightarrow> u8 list" where
  "one_line = map (\<lambda>b. if b = nl then space else b)"

definition reviewed_operation :: "swap_app_context \<Rightarrow> u8 list" where
  "reviewed_operation c =
     (if swap_based (ctx_subcommand c) then
        ascii ''swap '' @ member_string swap_currency_from (tx c) @ ascii '' to '' @ member_string swap_currency_to (tx c)
      else if sell_based (ctx_subcommand c) then
        ascii ''sell '' @ member_string sell_in_currency (tx c) @ ascii '' for '' @ member_string sell_out_currency (tx c)
      else ascii ''fund account with '' @ member_string fund_in_currency (tx c))"

definition short_operation :: "swap_app_context \<Rightarrow> u8 list" where
  "short_operation c =
     (if swap_based (ctx_subcommand c) then ascii ''swap ''
      else if sell_based (ctx_subcommand c) then ascii ''sell '' else ascii ''fund account'')"

definition reviewed_pairs :: "platform \<Rightarrow> swap_app_context \<Rightarrow> (u8 list \<times> u8 list) list" where
  "reviewed_pairs P c =
     (let partner = cstr (partner_name c);
          send = (ascii ''Send'', cstr (printable_send_amount c));
          receive = (if ctx_rate c = FLOATING then ascii ''Receive estimated'' else ascii ''Receive'',
                     cstr (printable_get_amount c));
          fees = (ascii ''Fees'', cstr (printable_fees_amount c));
          warning = [(ascii ''Warning'', ascii ''Receive address does not belong to this Ledger device''),
                     (ascii ''Learn more at'', ascii ''ledger.com/e13'')];
          address = [(ascii ''Receive address'', member_string swap_payout_address (tx c))];
          flow = (if swap_based (ctx_subcommand c) then [(ascii ''Exchange partner'', partner), send, receive, fees]
                  else if sell_based (ctx_subcommand c) then
                    [(ascii ''Exchange partner'', partner), (ascii ''Email'', member_string sell_trader_email (tx c)),
                     send, receive, fees]
                  else [(ascii ''User'', member_string fund_user_id (tx c)), send,
                        (partner, cstr (printable_get_amount c)), fees])
      in if \<not> other_seed_payout c then flow
         else if SCREEN_SIZE_WALLET P then flow @ address else warning @ flow @ address)"

lemma one_line_simps [simp]:
  "one_line [] = []" "one_line (b # xs) = (if b = nl then space else b) # one_line xs"
  "one_line (xs @ ys) = one_line xs @ one_line ys"
  by (simp_all add: one_line_def)

lemma title_one_line:
  "one_line (title_text P c) = one_line (ascii ''Review transaction to '' @ reviewed_operation c)"
  by (cases "ctx_subcommand c")
    (auto simp: title_text_def reviewed_operation_def delimiters_def review_defs ascii_def nl_def space_def)

lemma confirm_one_line:
  "one_line (confirm_text P c) =
    one_line (if SCREEN_SIZE_WALLET P then ascii ''Sign transaction to '' @ reviewed_operation c @ ascii ''?''
              else ascii ''Sign transaction to '' @ short_operation c)"
  by (cases "ctx_subcommand c")
    (auto simp: confirm_text_def reviewed_operation_def short_operation_def delimiters_def review_defs ascii_def nl_def space_def)

lemma pairs_reviewed:
  "map (\<lambda>(i, v). (shown c i, shown c v)) (prepare_pairs_list P c) = reviewed_pairs P c"
  by (cases "ctx_subcommand c") (simp_all add: prepare_pairs_list_def reviewed_pairs_def Let_def)

lemma shown_state: "shown (c\<lparr>ctx_state := s\<rparr>) p = shown c p"
  by (cases p) simp_all

text \<open>
  C17: The review is complete and exact. When the currencies of the transaction end inside their members,
  the title and the confirmation are never cut: they name the operation with its currencies, in their
  order (on a small screen, the confirmation names the operation alone). The pairs fit their array, and
  are those of the flow, each with its value: the partner, the amount sent, the amount or account
  received, marked as an estimate when the rate is not fixed, the fees, the email of the seller or the user
  whose account is funded; and for a payout address of another seed the address, announced by a warning before
  the review or, on a small screen, inside it.
\<close>

theorem review_complete:
  assumes "currencies_terminated (ctx w)" and "w' = start_ui_display P e w"
  shows "one_line (cstr (review_title_string w')) = one_line (ascii ''Review transaction to '' @ reviewed_operation (ctx w)) \<and>
    one_line (cstr (review_confirm_string w')) =
      one_line (ascii ''Sign transaction to '' @
        (if SCREEN_SIZE_WALLET P then reviewed_operation (ctx w) @ ascii ''?'' else short_operation (ctx w))) \<and>
    shown_pairs w' = reviewed_pairs P (ctx w) \<and> length (review_pairs w') \<le> sizeof_pairs \<and>
    screen w' = (if SCREEN_SIZE_WALLET P \<and> other_seed_payout (ctx w) then Cross_seed_warning else Review)"
proof -
  note r = start_ui_display_review [OF assms(1), of P e, folded assms(2)]
  have "shown_pairs w' = reviewed_pairs P (ctx w)"
    using assms(2) r(3) by (simp add: shown_pairs_def shown_state pairs_reviewed del: shown.simps)
  then show ?thesis using r pairs_fit [of P "ctx w"] title_one_line confirm_one_line by simp
qed

definition sample_reviewable :: world where
  "sample_reviewable = (world_in ALL_ADDRESSES_CHECKED SWAP)\<lparr>ctx := zero_context\<lparr>ctx_state := ALL_ADDRESSES_CHECKED,
     ctx_subcommand := SWAP, partner_name := mwrite 0 (ascii ''Partner'') (partner_name zero_context),
     tx := mwrite (fst swap_currency_from) (ascii ''BTC'') (mwrite (fst swap_currency_to) (ascii ''ETH'')
       (mwrite (fst swap_payout_address) (ascii ''0xabc'') (tx zero_context))),
     printable_send_amount := ascii ''1 BTC'' @ [0], printable_get_amount := ascii ''20 ETH'' @ [0],
     printable_fees_amount := ascii ''0.1 BTC'' @ [0], other_seed_payout := True\<rparr>\<rparr>"

lemma review_complete_witness:
  "let w' = start_ui_display plain_platform plain_outside sample_reviewable in
     one_line (cstr (review_title_string w')) = ascii ''Review transaction to swap BTC to ETH'' \<and>
     shown_pairs w' =
       [(ascii ''Exchange partner'', ascii ''Partner''), (ascii ''Send'', ascii ''1 BTC''), (ascii ''Receive'', ascii ''20 ETH''),
        (ascii ''Fees'', ascii ''0.1 BTC''), (ascii ''Receive address'', ascii ''0xabc'')] \<and>
     screen w' = Cross_seed_warning"
proof -
  let ?c = "ctx sample_reviewable"
  have "currencies_terminated ?c" by code_simp
  note r = review_complete [OF this refl, of plain_platform plain_outside]
  have "one_line (ascii ''Review transaction to '' @ reviewed_operation ?c) = ascii ''Review transaction to swap BTC to ETH''"
    "reviewed_pairs plain_platform ?c = [(ascii ''Exchange partner'', ascii ''Partner''), (ascii ''Send'', ascii ''1 BTC''),
      (ascii ''Receive'', ascii ''20 ETH''), (ascii ''Fees'', ascii ''0.1 BTC''), (ascii ''Receive address'', ascii ''0xabc'')]"
    by code_simp+
  moreover have "SCREEN_SIZE_WALLET plain_platform" "other_seed_payout ?c"
    by (simp_all add: plain_platform_def sample_reviewable_def)
  ultimately show ?thesis using r by (simp add: Let_def)
qed

end
