(* ===== verification/Addresses_Amounts.thy ===== *)
theory Addresses_Amounts
  imports Process_Transaction Lib_Calls Ui_Review Printable_Amount
begin

text \<open>
  \<^verbatim>\<open>src/check_addresses_and_amounts.c\<close>: the coin of the transaction. The configuration of the coin is
  signed; the application it names is asked whether the payout or refund address is the device's,
  and formats the amounts that the review shows.
\<close>

section \<open>The steps\<close>

definition check_coin_configuration_signature :: "platform \<Rightarrow> outside \<Rightarrow> swap_app_context \<Rightarrow> u8 list \<Rightarrow> u8 list \<Rightarrow> bool" where
  "check_coin_configuration_signature P e c config der =
     (let hash = (case cx_sha256 P config of
                    Some digest \<Rightarrow> digest
                  | None \<Rightarrow> take CURVE_SIZE_BYTES (stack_bytes e @ replicate CURVE_SIZE_BYTES 0))
      in cx_ecdsa_verify P (ledger_public_key c) hash der)"

definition asked_currency :: "command_t \<Rightarrow> member" where
  "asked_currency cmd =
     (if swap_based (cmd_subcommand cmd) then
        if cmd_ins cmd = CHECK_PAYOUT_ADDRESS then swap_currency_to else swap_currency_from
      else if sell_based (cmd_subcommand cmd) then sell_in_currency
      else fund_in_currency)"

definition check_received_ticker_matches_context :: "buf_t \<Rightarrow> command_t \<Rightarrow> swap_app_context \<Rightarrow> bool" where
  "check_received_ticker_matches_context ticker cmd c =
     check_matching_ticker ticker (drop (fst (asked_currency cmd)) (tx c))"

definition checked_address :: "command_e \<Rightarrow> member \<times> member" where
  \<comment> \<open>the address and its extra identifier\<close>
  "checked_address ins =
     (if ins = CHECK_PAYOUT_ADDRESS then (swap_payout_address, swap_payout_extra_id)
      else (swap_refund_address, swap_refund_extra_id))"

definition check_payout_or_refund_address ::
    "platform \<Rightarrow> outside \<Rightarrow> command_e \<Rightarrow> u8 list \<Rightarrow> u8 list \<Rightarrow> mem \<Rightarrow> unit step" where
  "check_payout_or_refund_address P e ins sub_coin_config address_parameters appname w =
     (case checked_address ins of
        (address, extra_id) \<Rightarrow>
          let t = tx (ctx w) in
          if t ! (fst address + snd address - 1) \<noteq> 0 then fails_with INCORRECT_COMMAND_DATA w
          else case check_address P e sub_coin_config address_parameters appname
                      (drop (fst address) t) (drop (fst extra_id) t) w of
            (Inl (Error err), w) \<Rightarrow> if BYPASS_CHECK_ADDRESS P then done_with () w else fails_with err w
          | (Inl (Throws x), w) \<Rightarrow> (Inl (Throws x), w)
          | (Inr u, w) \<Rightarrow> done_with () w)"

definition relevant_amount :: "subcommand_e \<Rightarrow> command_e \<Rightarrow> member" where
  "relevant_amount s ins =
     (if swap_based s then
        if ins = CHECK_PAYOUT_ADDRESS then swap_amount_to_wallet else swap_amount_to_provider
      else if sell_based s then sell_in_amount
      else fund_in_amount)"

definition relevant_text :: "subcommand_e \<Rightarrow> command_e \<Rightarrow> (mem \<Rightarrow> mem) \<Rightarrow> swap_app_context \<Rightarrow> swap_app_context" where
  "relevant_text s ins =
     (if swap_based s \<and> ins = CHECK_PAYOUT_ADDRESS then printable_get_amount_update
      else printable_send_amount_update)"

definition format_relevant_amount :: "platform \<Rightarrow> outside \<Rightarrow> command_e \<Rightarrow> u8 list \<Rightarrow> mem \<Rightarrow> unit step" where
  "format_relevant_amount P e ins sub_coin_config appname w =
     (let s = ctx_subcommand (ctx w) in
      get_printable_amount P e sub_coin_config appname (pb_array_bytes (relevant_amount s ins) (tx (ctx w)))
        (relevant_text s ins) MAX_PRINTABLE_AMOUNT_SIZE False w)"

definition format_fees :: "platform \<Rightarrow> outside \<Rightarrow> u8 list \<Rightarrow> mem \<Rightarrow> unit step" where
  "format_fees P e sub_coin_config appname w =
     get_printable_amount P e sub_coin_config appname
       (take (unat (transaction_fee_length (ctx w))) (transaction_fee (ctx w)))
       printable_fees_amount_update MAX_PRINTABLE_AMOUNT_SIZE True w"

text \<open>The amount in fiat money: the currency, a space and the number.\<close>

definition sell_coefficient :: member where
  "sell_coefficient = (fst sell_out_amount + fst udecimal_coefficient, snd udecimal_coefficient)"

definition sell_exponent :: "mem \<Rightarrow> u32" where
  "sell_exponent m = ucast (le_value (mread (fst sell_out_amount + fst udecimal_exponent) (snd udecimal_exponent) m))"

definition format_fiat_amount :: "swap_app_context \<Rightarrow> bool \<times> swap_app_context" where
  "format_fiat_amount c =
     (let out_currency = member_string sell_out_currency (tx c);
          len = length out_currency in
      if len + 1 \<ge> MAX_PRINTABLE_AMOUNT_SIZE then (False, c)
      else
        let m = strlcpy (printable_get_amount c) out_currency MAX_PRINTABLE_AMOUNT_SIZE;
            m = m[len := 0x20];
            m = m[len + 1 := 0]
        in case get_fiat_printable_amount (pb_array_bytes sell_coefficient (tx c)) (sell_exponent (tx c))
                  (drop (len + 1) m) (MAX_PRINTABLE_AMOUNT_SIZE - (len + 1)) of
             (ret, number) \<Rightarrow> (0 \<le> ret, c\<lparr>printable_get_amount := take (len + 1) m @ number\<rparr>))"

definition format_account_name :: "swap_app_context \<Rightarrow> swap_app_context" where
  "format_account_name c =
     (let m = strlcpy (printable_get_amount c) (drop (fst fund_account_name) (tx c)) MAX_PRINTABLE_AMOUNT_SIZE
      in c\<lparr>printable_get_amount := m[MAX_PRINTABLE_AMOUNT_SIZE - 1 := 0]\<rparr>)"

section \<open>The handler\<close>

definition check_swap_address :: "platform \<Rightarrow> outside \<Rightarrow> command_e \<Rightarrow> u8 list \<Rightarrow> u8 list \<Rightarrow> mem \<Rightarrow> unit step" where
  "check_swap_address P e ins sub_coin_config address_parameters appname w =
     (if swap_based (ctx_subcommand (ctx w)) then
        case check_payout_or_refund_address P e ins sub_coin_config address_parameters appname w of
          (Inl (Error err), w) \<Rightarrow>
            if err = INVALID_ADDRESS \<and> ins = CHECK_PAYOUT_ADDRESS
            then on_ctx (\<lambda>c. c\<lparr>other_seed_payout := True\<rparr>) w
            else fails_with err w
        | (Inl (Throws x), w) \<Rightarrow> (Inl (Throws x), w)
        | (Inr u, w) \<Rightarrow> done_with () w
      else done_with () w)"

definition format_flow_text :: "unit step" where
  "format_flow_text w =
     (if sell_based (ctx_subcommand (ctx w)) then
        case format_fiat_amount (ctx w) of
          (ok, c) \<Rightarrow> if ok then done_with () (w\<lparr>ctx := c\<rparr>) else fails_with INTERNAL_ERROR (w\<lparr>ctx := c\<rparr>)
      else if fund_based (ctx_subcommand (ctx w)) then on_ctx format_account_name w
      else done_with () w)"

definition save_paying_coin :: "command_t \<Rightarrow> mem \<Rightarrow> buf_t \<Rightarrow> swap_app_context \<Rightarrow> swap_app_context" where
  "save_paying_coin cmd application_name sub_coin_config c =
     c\<lparr>payin_binary_name := mwrite 0 application_name (payin_binary_name c),
       paying_sub_coin_config_size := ucast (bsize sub_coin_config),
       paying_sub_coin_config :=
         mwrite 0 (buf_bytes sub_coin_config) (memset 0 0 MAX_COIN_SUB_CONFIG_SIZE (paying_sub_coin_config c)),
       ctx_rate := cmd_rate cmd\<rparr>"

definition check_coin :: "platform \<Rightarrow> outside \<Rightarrow> command_t \<Rightarrow> mem \<Rightarrow> buf_t \<Rightarrow> u8 list \<Rightarrow> unit step" where
  "check_coin P e cmd application_name sub_coin_config address_parameters =
     and_then (check_swap_address P e (cmd_ins cmd) (buf_bytes sub_coin_config) address_parameters application_name)
       (\<lambda>_. and_then (format_relevant_amount P e (cmd_ins cmd) (buf_bytes sub_coin_config) application_name)
       (\<lambda>_. and_then
              (if cmd_ins cmd \<noteq> CHECK_PAYOUT_ADDRESS
               then format_fees P e (buf_bytes sub_coin_config) application_name else done_with ())
       (\<lambda>_. and_then format_flow_text
       (\<lambda>_. if cmd_ins cmd \<noteq> CHECK_PAYOUT_ADDRESS
             then on_ctx (save_paying_coin cmd application_name sub_coin_config) else done_with ()))))"

text \<open>The local copy of the name of the application.\<close>

definition application_name_array :: "u8 list \<Rightarrow> mem" where
  "application_name_array name = mwrite 0 name (replicate (BOLOS_APPNAME_MAX_SIZE_B + 1) 0)"

definition check_addresses_and_amounts_steps :: "platform \<Rightarrow> outside \<Rightarrow> command_t \<Rightarrow> unit step" where
  "check_addresses_and_amounts_steps P e cmd w =
     (case parse_check_address_message (data_pointer cmd (ctx w)) (cmd_data_size cmd) of
        None \<Rightarrow> fails_with INCORRECT_COMMAND_DATA w
      | Some (config, der, address_parameters) \<Rightarrow>
          if \<not> check_coin_configuration_signature P e (ctx w) (buf_bytes config) (buf_bytes der)
          then fails_with SIGN_VERIFICATION_FAIL w
          else case parse_coin_config config of
            None \<Rightarrow> fails_with INCORRECT_COMMAND_DATA w
          | Some (ticker, parsed_application_name, sub_coin_config) \<Rightarrow>
              if \<not> check_received_ticker_matches_context ticker cmd (ctx w)
              then fails_with INCORRECT_COMMAND_DATA w
              else check_coin P e cmd (application_name_array (buf_bytes parsed_application_name)) sub_coin_config
                     (buf_bytes address_parameters) w)"

definition check_addresses_and_amounts :: "platform \<Rightarrow> outside \<Rightarrow> command_t \<Rightarrow> world \<Rightarrow> outcome \<times> world" where
  "check_addresses_and_amounts P e cmd w =
     (case check_addresses_and_amounts_steps P e cmd w of
        (Inl (Throws x), w) \<Rightarrow> (Threw x, w)
      | (Inl (Error err), w) \<Rightarrow> returning (reply_error e err w)
      | (Inr u, w) \<Rightarrow>
          if cmd_ins cmd = CHECK_ASSET_IN_AND_DISPLAY \<or> cmd_ins cmd = CHECK_REFUND_ADDRESS_AND_DISPLAY
          then (Returned 0, start_ui_display P e w)
          else case reply_success e w of
            (n, w) \<Rightarrow>
              if n < 0 then (Returned (-1), w)
              else (Returned 0, w\<lparr>ctx := (ctx w)\<lparr>ctx_state :=
                (if cmd_ins cmd = CHECK_PAYOUT_ADDRESS then PAYOUT_ADDRESS_CHECKED else ALL_ADDRESSES_CHECKED)\<rparr>\<rparr>))"

section \<open>What the steps leave alone\<close>

text \<open>
  The context without the members that the check may write; and the relation between the worlds
  before and after a step: nothing else changes, and no member changes its size.
\<close>

definition unchecked_part :: "swap_app_context \<Rightarrow> swap_app_context" where
  "unchecked_part c = c\<lparr>printable_get_amount := [], printable_send_amount := [], printable_fees_amount := [],
     other_seed_payout := False, payin_binary_name := [], paying_sub_coin_config_size := 0,
     paying_sub_coin_config := [], ctx_rate := FIXED\<rparr>"

definition only_checked :: "world \<Rightarrow> world \<Rightarrow> bool" where
  "only_checked w w' \<longleftrightarrow>
     w' = w\<lparr>ctx := ctx w'\<rparr> \<and> unchecked_part (ctx w') = unchecked_part (ctx w) \<and>
     (ctx_sizes (ctx w) \<longrightarrow> ctx_sizes (ctx w'))"

lemma unchecked_part_same:
  assumes "unchecked_part c' = unchecked_part c"
  shows "ctx_state c' = ctx_state c" "ctx_subcommand c' = ctx_subcommand c" "tx c' = tx c"
    "partner_name c' = partner_name c" "partner_public_key c' = partner_public_key c"
    "ledger_public_key c' = ledger_public_key c" "transaction_fee c' = transaction_fee c"
    "transaction_fee_length c' = transaction_fee_length c"
    "sha256_digest_prefixed c' = sha256_digest_prefixed c" "sha256_digest_no_prefix c' = sha256_digest_no_prefix c"
    "device_transaction_id c' = device_transaction_id c"
  using assms by (cases c; cases c'; simp add: unchecked_part_def)+

lemma only_checked_refl [simp]: "only_checked w w"
  by (simp add: only_checked_def)

lemma only_checked_ctx:
  "unchecked_part (f (ctx w)) = unchecked_part (ctx w) \<Longrightarrow> (ctx_sizes (ctx w) \<Longrightarrow> ctx_sizes (f (ctx w))) \<Longrightarrow>
   only_checked w (w\<lparr>ctx := f (ctx w)\<rparr>)"
  by (simp add: only_checked_def)

lemma only_checked_trans: "only_checked w w1 \<Longrightarrow> only_checked w1 w2 \<Longrightarrow> only_checked w w2"
  unfolding only_checked_def by (metis world.surjective globals.update_convs(1))

lemma transp_only_checked: "transp only_checked"
  using only_checked_trans by (auto intro: transpI)

lemma keeps_lib_call_clean:
  assumes "lib_call_clean call"
  shows "keeps only_checked (os_lib_call_bss_safe P call params)"
  unfolding keeps_def lib_call_keeps [OF assms]
  by (auto split: lib_outcome.splits)

text \<open>The three texts, which a text of the library replaces.\<close>

definition text_store :: "((mem \<Rightarrow> mem) \<Rightarrow> swap_app_context \<Rightarrow> swap_app_context) \<Rightarrow> bool" where
  "text_store store \<longleftrightarrow>
     (\<forall>f c. unchecked_part (store f c) = unchecked_part c) \<and>
     (\<forall>x c. ctx_sizes c \<longrightarrow> ctx_sizes (store (\<lambda>m. strlcpy m x MAX_PRINTABLE_AMOUNT_SIZE) c))"

lemma length_strlcpy_text: "length m = MAX_PRINTABLE_AMOUNT_SIZE \<Longrightarrow> length (strlcpy m x MAX_PRINTABLE_AMOUNT_SIZE) = MAX_PRINTABLE_AMOUNT_SIZE"
  by (simp add: length_strlcpy)

lemma text_stores:
  "text_store printable_get_amount_update" "text_store printable_send_amount_update"
  "text_store printable_fees_amount_update"
  by (simp_all add: text_store_def unchecked_part_def ctx_sizes_def length_strlcpy_text)

lemma text_store_relevant: "text_store (relevant_text s ins)"
  by (simp add: relevant_text_def text_stores)

lemma keeps_printable:
  assumes "lib_call_clean (lib_get_printable_amount e)" and "text_store store"
  shows "keeps only_checked (get_printable_amount P e conf app amt store MAX_PRINTABLE_AMOUNT_SIZE fee)"
  unfolding get_printable_amount_def Let_def
proof (rule keeps_and_then [OF keeps_lib_call_clean [OF assms(1)] _ transp_only_checked])
  fix r :: "int \<times> mem"
  show "keeps only_checked (case r of (ret, result) \<Rightarrow>
      if ret \<noteq> 0 then fails_with MEMORY_CORRUPTION
      else if printable_amount_array result ! 0 = 0 then fails_with AMOUNT_FORMATTING_FAILED
      else if printable_amount_array result ! (MAX_PRINTABLE_AMOUNT_SIZE - 1) \<noteq> 0 then fails_with AMOUNT_FORMATTING_FAILED
      else on_ctx (store (\<lambda>m. strlcpy m (printable_amount_array result) MAX_PRINTABLE_AMOUNT_SIZE)))"
    using assms(2)
    by (auto simp: text_store_def intro!: keeps_basic only_checked_ctx split: prod.splits)
qed

lemma keeps_check_address:
  assumes "lib_call_clean (lib_check_address e)"
  shows "keeps only_checked (check_address P e conf params app addr extra)"
  unfolding check_address_def
proof (rule keeps_and_then [OF keeps_lib_call_clean [OF assms] _ transp_only_checked])
  fix r :: "int \<times> u8"
  show "keeps only_checked (case r of (ret, result) \<Rightarrow>
      if ret \<noteq> 0 then fails_with MEMORY_CORRUPTION
      else if result \<noteq> 1 then fails_with INVALID_ADDRESS else done_with ())"
    by (auto intro!: keeps_basic split: prod.splits)
qed

lemma keeps_swap_address:
  assumes "lib_call_clean (lib_check_address e)"
  shows "keeps only_checked (check_swap_address P e ins conf params app)"
proof -
  have inner: "only_checked w w'" if "check_payout_or_refund_address P e ins conf params app w = (r, w')" for w r w'
    using that keeps_run [OF keeps_check_address [OF assms]]
    by (auto simp: check_payout_or_refund_address_def Let_def step_defs
        split: prod.splits if_splits sum.splits fault.splits)
  have flag: "only_checked w (w\<lparr>ctx := (ctx w)\<lparr>other_seed_payout := True\<rparr>\<rparr>)" for w
    by (rule only_checked_ctx) (simp_all add: unchecked_part_def ctx_sizes_def)
  show ?thesis
    unfolding keeps_def
  proof (intro allI impI)
    fix w r w'
    assume run: "check_swap_address P e ins conf params app w = (r, w')"
    obtain r1 w1 where r1: "check_payout_or_refund_address P e ins conf params app w = (r1, w1)" by fastforce
    have "w' = w \<or> w' = w1 \<or> w' = w1\<lparr>ctx := (ctx w1)\<lparr>other_seed_payout := True\<rparr>\<rparr>"
      using run r1
      by (auto simp: check_swap_address_def step_defs split: if_splits sum.splits fault.splits)
    then show "only_checked w w'"
      using inner [OF r1] flag [of w1] only_checked_trans by auto
  qed
qed

lemma length_strncpy: "n \<le> length dst \<Longrightarrow> length (strncpy dst src n) = length dst"
  by (simp add: strncpy_def length_mwrite min_def)

lemma length_fpuint64_to_str:
  assumes "fpuint64_to_str dst sz v d = (r, dst')" and "length dst = sz"
  shows "length dst' = sz"
proof -
  obtain ret buffer where b: "int64_to_str (replicate 30 0) 30 (sint v) = (ret, buffer)" by fastforce
  let ?digits = "cstrlen buffer"
  show ?thesis
  proof (cases "ret < 0")
    case False
    show ?thesis
    proof (cases "?digits \<le> unat d")
      case True
      with assms b False show ?thesis
        by (auto simp: fpuint64_to_str_def Let_def length_mwrite length_strncpy split: if_splits)
    next
      case more: False
      have "min (length buffer) (?digits - unat d) \<le> ?digits - unat d" by simp
      with assms b False more show ?thesis
        by (auto simp: fpuint64_to_str_def Let_def length_mwrite length_strncpy split: if_splits)
    qed
  qed (use assms b in \<open>auto simp: fpuint64_to_str_def\<close>)
qed

lemma length_strlcpy_le: "0 < n \<Longrightarrow> n \<le> length m \<Longrightarrow> length (strlcpy m x n) = length m"
  by (simp add: strlcpy_def length_mwrite)

lemma format_fiat_only_text:
  assumes "format_fiat_amount c = (ok, c')"
  shows "\<exists>t. c' = c\<lparr>printable_get_amount := t\<rparr> \<and>
    (length (printable_get_amount c) = MAX_PRINTABLE_AMOUNT_SIZE \<longrightarrow> length t = MAX_PRINTABLE_AMOUNT_SIZE)"
proof -
  let ?cur = "member_string sell_out_currency (tx c)"
  let ?len = "length ?cur"
  show ?thesis
  proof (cases "?len + 1 \<ge> MAX_PRINTABLE_AMOUNT_SIZE")
    case True
    with assms have "c' = c\<lparr>printable_get_amount := printable_get_amount c\<rparr>"
      by (simp add: format_fiat_amount_def Let_def)
    then show ?thesis by blast
  next
    case False
    define m where "m = (strlcpy (printable_get_amount c) ?cur MAX_PRINTABLE_AMOUNT_SIZE)[?len := 0x20, ?len + 1 := 0]"
    obtain r number where n: "get_fiat_printable_amount (pb_array_bytes sell_coefficient (tx c)) (sell_exponent (tx c))
        (drop (?len + 1) m) (MAX_PRINTABLE_AMOUNT_SIZE - (?len + 1)) = (r, number)" by fastforce
    have c': "c' = c\<lparr>printable_get_amount := take (?len + 1) m @ number\<rparr>"
      using assms False n by (simp add: format_fiat_amount_def Let_def m_def)
    have "length (take (?len + 1) m @ number) = MAX_PRINTABLE_AMOUNT_SIZE"
      if "length (printable_get_amount c) = MAX_PRINTABLE_AMOUNT_SIZE"
    proof -
      have m: "length m = MAX_PRINTABLE_AMOUNT_SIZE"
        using that by (simp add: m_def length_strlcpy_text)
      then have "length number = MAX_PRINTABLE_AMOUNT_SIZE - (?len + 1)"
        using length_fpuint64_to_str [OF n [unfolded get_fiat_printable_amount_def Let_def]] by simp
      with m False show ?thesis by simp
    qed
    with c' show ?thesis by blast
  qed
qed

lemma keeps_flow_text: "keeps only_checked format_flow_text"
proof -
  have text1: "only_checked w (w\<lparr>ctx := (ctx w)\<lparr>printable_get_amount := t\<rparr>\<rparr>)"
    if "length (printable_get_amount (ctx w)) = MAX_PRINTABLE_AMOUNT_SIZE \<longrightarrow> length t = MAX_PRINTABLE_AMOUNT_SIZE" for w t
    using that by (auto intro!: only_checked_ctx simp: unchecked_part_def ctx_sizes_def)
  have fund: "only_checked w (w\<lparr>ctx := format_account_name (ctx w)\<rparr>)" for w
    unfolding format_account_name_def Let_def by (rule text1) (simp add: length_strlcpy_text)
  show ?thesis
    unfolding keeps_def
  proof (intro allI impI)
    fix w r w'
    assume run: "format_flow_text w = (r, w')"
    obtain ok c where c: "format_fiat_amount (ctx w) = (ok, c)" by fastforce
    obtain t where t: "c = (ctx w)\<lparr>printable_get_amount := t\<rparr>"
      "length (printable_get_amount (ctx w)) = MAX_PRINTABLE_AMOUNT_SIZE \<longrightarrow> length t = MAX_PRINTABLE_AMOUNT_SIZE"
      using format_fiat_only_text [OF c] by blast
    have "w' = w \<or> w' = w\<lparr>ctx := format_account_name (ctx w)\<rparr> \<or> w' = w\<lparr>ctx := c\<rparr>"
      using run c by (auto simp: format_flow_text_def step_defs split: if_splits)
    then show "only_checked w w'" using fund [of w] text1 [OF t(2)] t(1) by auto
  qed
qed

lemma save_paying_coin_sizes:
  assumes "length app = sizeof_payin_binary_name" and "length (buf_bytes conf) \<le> MAX_COIN_SUB_CONFIG_SIZE"
    and "ctx_sizes c"
  shows "ctx_sizes (save_paying_coin cmd app conf c)"
  using assms by (simp add: save_paying_coin_def ctx_sizes_def length_mwrite length_memset)

lemma keeps_check_coin:
  assumes libs: "libs_keep_globals e"
    and app: "length app = sizeof_payin_binary_name" and conf: "length (buf_bytes conf) \<le> MAX_COIN_SUB_CONFIG_SIZE"
  shows "keeps only_checked (check_coin P e cmd app conf params)"
proof -
  have clean: "lib_call_clean (lib_check_address e)" "lib_call_clean (lib_get_printable_amount e)"
    using libs by (simp_all add: libs_keep_globals_clean)
  have fmt: "keeps only_checked (format_relevant_amount P e ins c a)" "keeps only_checked (format_fees P e c a)" for ins c a
    using keeps_printable [OF clean(2) text_store_relevant] keeps_printable [OF clean(2) text_stores(3)]
    by (simp_all add: keeps_def format_relevant_amount_def format_fees_def Let_def)
  have save: "keeps only_checked (on_ctx (save_paying_coin cmd app conf))"
    using save_paying_coin_sizes [OF app conf]
    by (intro keeps_basic only_checked_ctx) (auto simp: save_paying_coin_def unchecked_part_def)
  show ?thesis
    unfolding check_coin_def
    by (intro keeps_and_then transp_only_checked keeps_swap_address [OF clean(1)] fmt keeps_flow_text)
       (auto intro!: fmt save keeps_basic)
qed

section \<open>The configuration of the coin\<close>

text \<open>
  The data of the command: the signed configuration of the coin whose ticker is the currency of the
  transaction, with the application it names and its sub configuration, and the parameters of the
  address.
\<close>

definition coin_certified ::
    "platform \<Rightarrow> outside \<Rightarrow> command_t \<Rightarrow> swap_app_context \<Rightarrow> u8 list \<Rightarrow> u8 list \<Rightarrow> u8 list \<Rightarrow> u8 list \<Rightarrow> bool" where
  "coin_certified P e cmd c d app conf params \<longleftrightarrow>
     (\<exists>config der T N.
        d = enc_sized1 config @ der @ enc_sized1 params \<and>
        check_coin_configuration_signature P e c config der \<and>
        config = enc_sized1 T @ enc_sized1 N @ enc_sized1 conf \<and>
        1 \<le> length T \<and> length T \<le> 9 \<and> 3 \<le> length N \<and> length N \<le> 32 \<and> length conf \<le> 64 \<and>
        app = ledger_app_name N \<and>
        ledger_ticker (cstr T) = member_string (asked_currency cmd) (tx c))"

lemma parse_coin_config_buffers:
  assumes ok: "buf_ok input" and run: "parse_coin_config input = Some (t, a, s)"
  shows "buf_ok t" "buf_ok s" "unat (bsize t) \<le> 9"
proof -
  let ?p = "bptr input" and ?n = "bsize input"
  from run obtain a0 o1 o2 where
    r1: "parse_to_sized_buffer ?p ?n 1 0 = Some (t, o1)" and ct: "check_ticker_length t"
    and r2: "parse_to_sized_buffer ?p ?n 1 o1 = Some (a0, o2)"
    and r3: "parse_to_sized_buffer ?p ?n 1 o2 = Some (s, ?n)"
    by (auto simp: parse_coin_config_def split: option.splits if_splits)
  have p: "ptr_ok ?p (unat ?n)" "unat (0 :: u16) \<le> unat ?n" using ok by (simp_all add: buf_ok_def)
  note s1 = sized1_sound [OF p r1]
  note s2 = sized1_sound [OF p(1) s1(4) r2]
  show "buf_ok t" "buf_ok s" using s1(5) sized1_sound(5) [OF p(1) s2(4) r3] by simp_all
  show "unat (bsize t) \<le> 9" using ct by (simp add: check_length_defs size_defs split: if_splits)
qed

lemma length_ledger_app_name: "length a \<le> 32 \<Longrightarrow> length (ledger_app_name a) \<le> 32"
  by (simp add: ledger_app_name_def)

lemma length_application_name_array:
  "length a \<le> 32 \<Longrightarrow> length (application_name_array a) = sizeof_payin_binary_name"
  by (simp add: application_name_array_def length_mwrite ctx_size_defs size_defs)

lemma cstr_application_name_array: "length a \<le> 32 \<Longrightarrow> cstr (application_name_array a) = cstr a"
proof -
  assume "length a \<le> 32"
  then have "application_name_array a = a @ 0 # replicate (32 - length a) 0"
    by (simp add: application_name_array_def mwrite_def size_defs Suc_diff_le flip: replicate_Suc)
  then show ?thesis by (simp add: cstr_append_zero)
qed

lemma steps_cases:
  assumes run: "check_addresses_and_amounts_steps P e cmd w = (r, w')"
    and data: "data_ok cmd (ctx w)" "unat (cmd_data_size cmd) < 65535"
  obtains (refused) err where "r = Inl (Error err)" "w' = w"
  | (coin) app conf params where
      "check_coin P e cmd (application_name_array app) conf params w = (r, w')"
      "coin_certified P e cmd (ctx w) (data_bytes cmd (ctx w)) app (buf_bytes conf) params"
      "length app \<le> 32" "length (buf_bytes conf) \<le> 64" "buf_ok conf"
proof -
  let ?p = "data_pointer cmd (ctx w)" and ?n = "cmd_data_size cmd"
  have p: "ptr_ok ?p (unat ?n)" using data by (simp add: data_ok_def)
  show thesis
  proof (cases "parse_check_address_message ?p ?n")
    case None
    with run refused show thesis by (auto simp: check_addresses_and_amounts_steps_def step_defs)
  next
    case (Some m)
    obtain config der params where m: "m = (config, der, params)" by (cases m)
    note msg = parse_check_address_message_sound [OF p data(2) Some [unfolded m]]
    then have ok: "buf_ok config" and d: "data_bytes cmd (ctx w) =
        enc_sized1 (buf_bytes config) @ buf_bytes der @ enc_sized1 (buf_bytes params)"
      by (auto simp: data_bytes_def)
    show thesis
    proof (cases "check_coin_configuration_signature P e (ctx w) (buf_bytes config) (buf_bytes der)")
      case False
      with run Some m refused show thesis by (auto simp: check_addresses_and_amounts_steps_def step_defs)
    next
      case sig: True
      show thesis
      proof (cases "parse_coin_config config")
        case None
        with run Some m sig refused show thesis by (auto simp: check_addresses_and_amounts_steps_def step_defs)
      next
        case parsed: (Some t)
        obtain ticker app conf where t: "t = (ticker, app, conf)" by (cases t)
        from parse_coin_config_sound [OF ok parsed [unfolded t]] obtain N where
          cfg: "buf_bytes config = enc_sized1 (buf_bytes ticker) @ enc_sized1 N @ enc_sized1 (buf_bytes conf)"
          "buf_bytes app = ledger_app_name N" "1 \<le> length (buf_bytes ticker)" "length (buf_bytes ticker) \<le> 9"
          "3 \<le> length N" "length N \<le> 32" "length (buf_bytes conf) \<le> 64" by blast
        have bufs: "buf_ok ticker" "buf_ok conf" "unat (bsize ticker) \<le> 9"
          using parse_coin_config_buffers [OF ok parsed [unfolded t]] by simp_all
        show thesis
        proof (cases "check_received_ticker_matches_context ticker cmd (ctx w)")
          case False
          with run Some m sig parsed t refused show thesis
            by (auto simp: check_addresses_and_amounts_steps_def step_defs)
        next
          case True
          then have tick: "ledger_ticker (cstr (buf_bytes ticker)) = member_string (asked_currency cmd) (tx (ctx w))"
            using check_matching_ticker_eq [OF bufs(1,3), of "replicate (TICKER_MAX_SIZE_B + 1) 0"]
            by (simp add: check_received_ticker_matches_context_def check_matching_ticker_def member_string_def
                TICKER_MAX_SIZE_B_def)
          have "check_coin P e cmd (application_name_array (buf_bytes app)) conf (buf_bytes params) w = (r, w')"
            using run Some m sig parsed t True by (simp add: check_addresses_and_amounts_steps_def)
          moreover have "coin_certified P e cmd (ctx w) (data_bytes cmd (ctx w)) (buf_bytes app) (buf_bytes conf) (buf_bytes params)"
            unfolding coin_certified_def using d sig cfg tick by metis
          moreover have "length (buf_bytes app) \<le> 32" using cfg(2,6) length_ledger_app_name by simp
          ultimately show thesis using coin cfg(7) bufs(2) by blast
        qed
      qed
    qed
  qed
qed

lemma steps_only_checked:
  assumes libs: "libs_keep_globals e" and data: "data_ok cmd (ctx w)" "unat (cmd_data_size cmd) < 65535"
    and run: "check_addresses_and_amounts_steps P e cmd w = (r, w')"
  shows "only_checked w w'"
  using run data
proof (cases rule: steps_cases)
  case (coin app conf params)
  from keeps_run [OF keeps_check_coin [OF libs] coin(1)] coin(3,4) length_application_name_array
  show ?thesis by (simp add: size_defs)
qed simp

lemma check_outcome:
  assumes run: "check_addresses_and_amounts P e cmd w = (r, w')"
    and steps: "check_addresses_and_amounts_steps P e cmd w = (r1, w1)"
  obtains (stopped) "r1 \<noteq> Inr ()" "w' = w1"
  | (failed) err where "r1 \<noteq> Inr () \<or> r = Returned (-1)" "w' = w1\<lparr>sent := sent w1 @ [([], status_word err)]\<rparr>"
  | (displayed) "r1 = Inr ()" "w' = start_ui_display P e w1" "r = Returned 0"
      "cmd_ins cmd = CHECK_ASSET_IN_AND_DISPLAY \<or> cmd_ins cmd = CHECK_REFUND_ADDRESS_AND_DISPLAY"
  | (checked) "r1 = Inr ()" "r = Returned 0"
      "cmd_ins cmd \<noteq> CHECK_ASSET_IN_AND_DISPLAY" "cmd_ins cmd \<noteq> CHECK_REFUND_ADDRESS_AND_DISPLAY"
      "w' = w1\<lparr>sent := sent w1 @ [([], status_word SUCCESS)],
         ctx := (ctx w1)\<lparr>ctx_state := (if cmd_ins cmd = CHECK_PAYOUT_ADDRESS then PAYOUT_ADDRESS_CHECKED
                                      else ALL_ADDRESSES_CHECKED)\<rparr>\<rparr>"
proof (cases r1)
  case (Inl f)
  show thesis
  proof (cases f)
    case (Throws x)
    show thesis using run steps unfolding Inl Throws
      by (intro stopped) (simp_all add: check_addresses_and_amounts_def Inl)
  next
    case (Error err)
    show thesis using run steps unfolding Inl Error
      by (intro failed [of err]) (simp_all add: check_addresses_and_amounts_def Inl reply_defs)
  qed
next
  case (Inr u)
  then have u: "r1 = Inr ()" by simp
  show thesis
  proof (cases "cmd_ins cmd = CHECK_ASSET_IN_AND_DISPLAY \<or> cmd_ins cmd = CHECK_REFUND_ADDRESS_AND_DISPLAY")
    case True
    show thesis using run steps True unfolding u
      by (intro displayed) (auto simp: check_addresses_and_amounts_def u)
  next
    case False
    show thesis
    proof (cases "io_ok e")
      case True
      show thesis using run steps False True unfolding u
        by (intro checked) (simp_all add: check_addresses_and_amounts_def reply_defs u)
    next
      case io: False
      show thesis using run steps False io unfolding u
        by (intro failed [of SUCCESS]) (simp_all add: check_addresses_and_amounts_def reply_defs)
    qed
  qed
qed

lemma only_checked_frame:
  assumes "only_checked w w'"
  shows "sent w' = sent w" "received_apdu w' = received_apdu w" "challenge w' = challenge w"
    "previous_cycle w' = previous_cycle w" "screen w' = screen w" "unchecked_part (ctx w') = unchecked_part (ctx w)"
    "ctx_sizes (ctx w) \<Longrightarrow> ctx_sizes (ctx w')"
  using assms unfolding only_checked_def by (cases w; cases w'; simp)+

interpretation check_handler: handler "check_addresses_and_amounts P"
  "{PAYOUT_ADDRESS_CHECKED, ALL_ADDRESSES_CHECKED, WAITING_USER_VALIDATION}"
  "\<lambda>e cmd w. data_ok cmd (ctx w) \<and> unat (cmd_data_size cmd) < 65535 \<and> libs_keep_globals e" for P
proof (unfold_locales, goal_cases)
  case (1 e cmd w r w')
  obtain r1 w1 where run: "check_addresses_and_amounts_steps P e cmd w = (r1, w1)" by fastforce
  from 1 only_checked_frame(1) [OF steps_only_checked [OF _ _ _ run]] have "sent w1 = sent w" by simp
  then show ?case by (cases rule: check_outcome [OF 1(2) run]) auto
next
  case (2 e cmd w r w')
  obtain r1 w1 where run: "check_addresses_and_amounts_steps P e cmd w = (r1, w1)" by fastforce
  from 2 only_checked_frame(7) [OF steps_only_checked [OF _ _ _ run]] have "ctx_sizes (ctx w1)" by simp
  then show ?case by (cases rule: check_outcome [OF 2(2) run]) (auto simp: ctx_sizes_def)
next
  case (3 e cmd w r w')
  obtain r1 w1 where run: "check_addresses_and_amounts_steps P e cmd w = (r1, w1)" by fastforce
  from 3 unchecked_part_same(1) [OF only_checked_frame(6) [OF steps_only_checked [OF _ _ _ run]]]
  have "ctx_state (ctx w1) = ctx_state (ctx w)" by simp
  then show ?case by (cases rule: check_outcome [OF 3(2) run]) auto
qed

section \<open>What a successful check has established\<close>

definition owns_address :: "outside \<Rightarrow> u8 list \<Rightarrow> u8 list \<Rightarrow> u8 list \<Rightarrow> u8 list \<Rightarrow> u8 list \<Rightarrow> bool" where
  \<comment> \<open>the application says that the address belongs to the device\<close>
  "owns_address e app conf params address extra_id \<longleftrightarrow>
     (\<exists>g g' k. lib_check_address e
        \<lparr>ca_application_name = app, ca_coin_configuration = conf, ca_address_parameters = params,
         ca_address_to_check = address, ca_extra_id_to_check = extra_id\<rparr> g = Lib_returned 1 g' k)"

definition prints_amount :: "outside \<Rightarrow> u8 list \<Rightarrow> u8 list \<Rightarrow> u8 list \<Rightarrow> bool \<Rightarrow> u8 list \<Rightarrow> bool" where
  \<comment> \<open>the application writes the amount as this text\<close>
  "prints_amount e app conf amount is_fee t \<longleftrightarrow>
     (\<exists>g res g' k. lib_get_printable_amount e
        \<lparr>pa_application_name = app, pa_coin_configuration = conf, pa_amount = amount, pa_is_fee = is_fee\<rparr> g =
          Lib_returned res g' k \<and>
        t = cstr (printable_amount_array res) \<and> t \<noteq> [] \<and> length t < MAX_PRINTABLE_AMOUNT_SIZE)"

lemma cstr_strlcpy_text: "length (cstr a) < n \<Longrightarrow> cstr (strlcpy m a n) = cstr a"
  using cstr_append_zero [of "cstr a" "drop (Suc (length (cstr a))) m"]
  by (simp add: strlcpy_def mwrite_def)

lemma printable_done:
  assumes "lib_call_clean (lib_get_printable_amount e)"
    and "get_printable_amount P e conf app amt store MAX_PRINTABLE_AMOUNT_SIZE fee w = (Inr u, w')"
  shows "\<exists>t. w' = upd_ctx (store (\<lambda>m. t m)) w \<and> (\<forall>m. prints_amount e (cstr app) conf amt fee (cstr (t m)))"
proof -
  from get_printable_amount_stored [OF assms] obtain res g k where
    call: "lib_get_printable_amount e
        \<lparr>pa_application_name = cstr app, pa_coin_configuration = conf, pa_amount = amt, pa_is_fee = fee\<rparr>
        (globals_of w) = Lib_returned res g k"
    and t: "cstr (printable_amount_array res) \<noteq> []"
      "length (cstr (printable_amount_array res)) < MAX_PRINTABLE_AMOUNT_SIZE"
    and w': "w' = upd_ctx (store (\<lambda>m. strlcpy m (printable_amount_array res) MAX_PRINTABLE_AMOUNT_SIZE)) w"
    by blast
  have "prints_amount e (cstr app) conf amt fee (cstr (strlcpy m (printable_amount_array res) MAX_PRINTABLE_AMOUNT_SIZE))"
    for m
    unfolding prints_amount_def cstr_strlcpy_text [OF t(2)] using call t by blast
  with w' show ?thesis by (intro exI [of _ "\<lambda>m. strlcpy m (printable_amount_array res) MAX_PRINTABLE_AMOUNT_SIZE"]) simp
qed

definition address_checked ::
    "platform \<Rightarrow> outside \<Rightarrow> command_e \<Rightarrow> u8 list \<Rightarrow> u8 list \<Rightarrow> u8 list \<Rightarrow> swap_app_context \<Rightarrow> bool" where
  "address_checked P e ins app conf params c \<longleftrightarrow>
     (swap_based (ctx_subcommand c) \<longrightarrow>
        owns_address e app conf params (member_string (fst (checked_address ins)) (tx c))
          (member_string (snd (checked_address ins)) (tx c)) \<or>
        ins = CHECK_PAYOUT_ADDRESS \<and> other_seed_payout c \<or> BYPASS_CHECK_ADDRESS P)"

lemma check_address_done:
  assumes clean: "lib_call_clean (lib_check_address e)"
    and run: "check_address P e conf params app addr extra w = (r, w')"
  shows "w' = w" and "r = Inr u \<Longrightarrow> owns_address e (cstr app) conf params (cstr addr) (cstr extra)"
  using run
  by (auto simp: check_address_def and_then_def lib_call_keeps [OF clean] step_defs owns_address_def
      split: lib_outcome.splits if_splits)

lemma swap_address_done:
  assumes clean: "lib_call_clean (lib_check_address e)"
    and run: "check_swap_address P e ins conf params app w = (Inr u, w')"
  shows "(w' = w \<or> ins = CHECK_PAYOUT_ADDRESS \<and> w' = w\<lparr>ctx := (ctx w)\<lparr>other_seed_payout := True\<rparr>\<rparr>) \<and>
    address_checked P e ins (cstr app) conf params (ctx w')"
proof (cases "swap_based (ctx_subcommand (ctx w))")
  case False
  with run show ?thesis by (auto simp: check_swap_address_def address_checked_def step_defs)
next
  case True
  let ?a = "fst (checked_address ins)" and ?x = "snd (checked_address ins)" and ?t = "tx (ctx w)"
  obtain r1 w1 where r1: "check_address P e conf params app (drop (fst ?a) ?t) (drop (fst ?x) ?t) w = (r1, w1)"
    by fastforce
  note called = check_address_done [OF clean r1]
  show ?thesis
  proof (cases r1)
    case (Inr u1)
    have "w' = w1"
      using run True r1 Inr
      by (simp add: check_swap_address_def check_payout_or_refund_address_def case_prod_unfold step_defs Let_def
          split: if_splits)
    moreover have "owns_address e (cstr app) conf params (member_string ?a ?t) (member_string ?x ?t)"
      unfolding member_string_def by (rule called(2) [OF Inr])
    ultimately show ?thesis using called(1) by (simp add: address_checked_def)
  next
    case (Inl f)
    show ?thesis
    proof (cases f)
      case (Throws x)
      show ?thesis
        using run True r1 unfolding Inl Throws
        by (simp add: check_swap_address_def check_payout_or_refund_address_def case_prod_unfold step_defs Let_def
            split: if_splits)
    next
      case (Error err)
      have w1: "w1 = w" by (rule called(1))
      have "(w' = w \<and> BYPASS_CHECK_ADDRESS P) \<or>
          (ins = CHECK_PAYOUT_ADDRESS \<and> w' = w\<lparr>ctx := (ctx w)\<lparr>other_seed_payout := True\<rparr>\<rparr>)"
        using run True r1 unfolding Inl Error w1
        by (simp add: check_swap_address_def check_payout_or_refund_address_def case_prod_unfold step_defs Let_def
            split: if_splits)
      then show ?thesis by (auto simp: address_checked_def)
    qed
  qed
qed

text \<open>The text of a fiat amount depends on the transaction and on the text that was there.\<close>

definition fiat_amount_text :: "mem \<Rightarrow> mem \<Rightarrow> (bool \<times> mem)" where
  "fiat_amount_text t old =
     (let c = zero_context\<lparr>tx := t, printable_get_amount := old\<rparr>
      in (fst (format_fiat_amount c), printable_get_amount (snd (format_fiat_amount c))))"

lemma format_fiat_amount_eq:
  "format_fiat_amount c =
    (fst (fiat_amount_text (tx c) (printable_get_amount c)),
     c\<lparr>printable_get_amount := snd (fiat_amount_text (tx c) (printable_get_amount c))\<rparr>)"
  by (simp add: fiat_amount_text_def format_fiat_amount_def Let_def case_prod_unfold)

lemma account_name_text:
  assumes "length (printable_get_amount c) = MAX_PRINTABLE_AMOUNT_SIZE"
  shows "cstr (printable_get_amount (format_account_name c)) = take 49 (member_string fund_account_name (tx c))"
proof -
  let ?s = "member_string fund_account_name (tx c)"
  let ?m = "strlcpy (printable_get_amount c) (drop (fst fund_account_name) (tx c)) 50"
  have nz: "0 \<notin> set (take 49 ?s)" using in_set_takeD member_string_no_zero by metis
  have m: "?m = take 49 ?s @ 0 # drop (Suc (length (take 49 ?s))) (printable_get_amount c)"
    by (simp add: strlcpy_def mwrite_def member_string_def)
  have "\<exists>ys. ?m[49 := 0] = take 49 ?s @ 0 # ys"
    unfolding m by (cases "49 - length (take 49 ?s)") (auto simp: list_update_append)
  then show ?thesis
    by (auto simp: format_account_name_def Let_def MAX_PRINTABLE_AMOUNT_SIZE_def cstr_append_zero cstr_id [OF nz])
qed

lemma flow_text_done:
  assumes "format_flow_text w = (Inr u, w')"
  shows "\<exists>t. w' = w\<lparr>ctx := (ctx w)\<lparr>printable_get_amount := t\<rparr>\<rparr> \<and>
    (swap_based (ctx_subcommand (ctx w)) \<longrightarrow> t = printable_get_amount (ctx w)) \<and>
    (sell_based (ctx_subcommand (ctx w)) \<longrightarrow>
       fiat_amount_text (tx (ctx w)) (printable_get_amount (ctx w)) = (True, t)) \<and>
    (fund_based (ctx_subcommand (ctx w)) \<and> length (printable_get_amount (ctx w)) = MAX_PRINTABLE_AMOUNT_SIZE \<longrightarrow>
       cstr t = take 49 (member_string fund_account_name (tx (ctx w))))"
proof -
  consider "swap_based (ctx_subcommand (ctx w))" | "sell_based (ctx_subcommand (ctx w))" | "fund_based (ctx_subcommand (ctx w))"
    by (cases "ctx_subcommand (ctx w)") auto
  then show ?thesis
  proof cases
    case 1
    with assms show ?thesis
      by (intro exI [of _ "printable_get_amount (ctx w)"]) (auto simp: format_flow_text_def step_defs)
  next
    case 2
    with assms show ?thesis
      by (intro exI [of _ "snd (fiat_amount_text (tx (ctx w)) (printable_get_amount (ctx w)))"])
         (auto simp: format_flow_text_def format_fiat_amount_eq step_defs prod_eq_iff split: if_splits)
  next
    case 3
    with assms account_name_text [of "ctx w"] show ?thesis
      by (intro exI [of _ "printable_get_amount (format_account_name (ctx w))"])
         (auto simp: format_flow_text_def step_defs format_account_name_def Let_def)
  qed
qed

text \<open>What a successful check of a coin leaves in the context.\<close>

definition checked_coin ::
    "platform \<Rightarrow> outside \<Rightarrow> command_t \<Rightarrow> u8 list \<Rightarrow> u8 list \<Rightarrow> u8 list \<Rightarrow> swap_app_context \<Rightarrow> swap_app_context \<Rightarrow> bool" where
  "checked_coin P e cmd app conf params c c' \<longleftrightarrow>
     (let s = ctx_subcommand c; on_payout = (cmd_ins cmd = CHECK_PAYOUT_ADDRESS) in
      unchecked_part c' = unchecked_part c \<and>
      address_checked P e (cmd_ins cmd) (cstr app) conf params c' \<and>
      prints_amount e (cstr app) conf (pb_array_bytes (relevant_amount s (cmd_ins cmd)) (tx c)) False
        (cstr (if swap_based s \<and> on_payout then printable_get_amount c' else printable_send_amount c')) \<and>
      (\<not> on_payout \<longrightarrow>
         prints_amount e (cstr app) conf (take (unat (transaction_fee_length c)) (transaction_fee c)) True
           (cstr (printable_fees_amount c')) \<and>
         cstr (payin_binary_name c') = cstr app \<and>
         take (unat (paying_sub_coin_config_size c')) (paying_sub_coin_config c') = conf \<and>
         ctx_rate c' = cmd_rate cmd) \<and>
      (swap_based s \<and> \<not> on_payout \<longrightarrow>
         printable_get_amount c' = printable_get_amount c \<and> other_seed_payout c' = other_seed_payout c) \<and>
      (sell_based s \<longrightarrow> fiat_amount_text (tx c) (printable_get_amount c) = (True, printable_get_amount c')) \<and>
      (fund_based s \<longrightarrow> cstr (printable_get_amount c') = take 49 (member_string fund_account_name (tx c))) \<and>
      (\<not> swap_based s \<longrightarrow> other_seed_payout c' = other_seed_payout c))"

lemma saved_coin:
  assumes "length app \<le> 32" and "length (buf_bytes conf) \<le> 64" and "buf_ok conf" and "ctx_sizes c"
  shows "cstr (payin_binary_name (save_paying_coin cmd (application_name_array app) conf c)) = cstr app"
    and "take (unat (paying_sub_coin_config_size (save_paying_coin cmd (application_name_array app) conf c)))
      (paying_sub_coin_config (save_paying_coin cmd (application_name_array app) conf c)) = buf_bytes conf"
proof -
  have "payin_binary_name (save_paying_coin cmd (application_name_array app) conf c) = application_name_array app"
    using assms(1,4) length_application_name_array [OF assms(1)]
    by (simp add: save_paying_coin_def mwrite_def ctx_sizes_def)
  then show "cstr (payin_binary_name (save_paying_coin cmd (application_name_array app) conf c)) = cstr app"
    using cstr_application_name_array [OF assms(1)] by simp
  have "unat (ucast (bsize conf) :: u8) = length (buf_bytes conf)"
    using length_buf_bytes [OF assms(3)] assms(2) by (simp add: unsigned_ucast_eq take_bit_nat_eq_self_iff)
  then show "take (unat (paying_sub_coin_config_size (save_paying_coin cmd (application_name_array app) conf c)))
      (paying_sub_coin_config (save_paying_coin cmd (application_name_array app) conf c)) = buf_bytes conf"
    by (simp add: save_paying_coin_def mwrite_def)
qed

lemma swap_address_flag:
  assumes clean: "lib_call_clean (lib_check_address e)"
    and run: "check_swap_address P e ins conf params app w = (Inr u, w')"
  shows "\<exists>b. ctx w' = (ctx w)\<lparr>other_seed_payout := b\<rparr> \<and>
    (ins \<noteq> CHECK_PAYOUT_ADDRESS \<or> \<not> swap_based (ctx_subcommand (ctx w)) \<longrightarrow> b = other_seed_payout (ctx w)) \<and>
    address_checked P e ins (cstr app) conf params (ctx w')"
proof (cases "w' = w")
  case True
  with swap_address_done [OF assms] show ?thesis
    by (intro exI [of _ "other_seed_payout (ctx w)"]) simp
next
  case False
  have "swap_based (ctx_subcommand (ctx w))"
  proof (rule ccontr)
    assume "\<not> swap_based (ctx_subcommand (ctx w))"
    with run have "w' = w" by (simp add: check_swap_address_def step_defs)
    with False show False ..
  qed
  with swap_address_done [OF assms] False show ?thesis
    by (intro exI [of _ True]) auto
qed

lemma fees_done:
  assumes clean: "lib_call_clean (lib_get_printable_amount e)"
    and run: "(if \<not> pay then format_fees P e conf app else done_with ()) w = (Inr u, w')"
  shows "\<exists>t. ctx w' = (ctx w)\<lparr>printable_fees_amount := t\<rparr> \<and>
    (\<not> pay \<longrightarrow> prints_amount e (cstr app) conf (take (unat (transaction_fee_length (ctx w))) (transaction_fee (ctx w))) True (cstr t))"
proof (cases pay)
  case True
  with run show ?thesis by (intro exI [of _ "printable_fees_amount (ctx w)"]) (auto simp: step_defs)
next
  case False
  with run have "format_fees P e conf app w = (Inr u, w')" by simp
  from printable_done [OF clean this [unfolded format_fees_def]] obtain t where
    w': "w' = upd_ctx (printable_fees_amount_update (\<lambda>m. t m)) w"
    and t: "\<forall>m. prints_amount e (cstr app) conf (take (unat (transaction_fee_length (ctx w))) (transaction_fee (ctx w)))
      True (cstr (t m))" by blast
  have "ctx w' = (ctx w)\<lparr>printable_fees_amount := t (printable_fees_amount (ctx w))\<rparr>" by (simp add: w')
  with t show ?thesis by blast
qed

lemma relevant_done:
  assumes clean: "lib_call_clean (lib_get_printable_amount e)"
    and run: "format_relevant_amount P e ins conf app w = (Inr u, w')"
  shows "\<exists>t. ctx w' = relevant_text (ctx_subcommand (ctx w)) ins (\<lambda>m. t m) (ctx w) \<and>
    (\<forall>m. prints_amount e (cstr app) conf (pb_array_bytes (relevant_amount (ctx_subcommand (ctx w)) ins) (tx (ctx w)))
       False (cstr (t m)))"
  using printable_done [OF clean run [unfolded format_relevant_amount_def Let_def]] by fastforce

lemma keeps_formats:
  assumes "lib_call_clean (lib_get_printable_amount e)"
  shows "keeps only_checked (format_relevant_amount P e ins c a)" and "keeps only_checked (format_fees P e c a)"
    and "keeps only_checked (if \<not> pay then format_fees P e c a else done_with ())"
proof -
  show r: "keeps only_checked (format_relevant_amount P e ins c a)" and f: "keeps only_checked (format_fees P e c a)"
    using keeps_printable [OF assms text_store_relevant] keeps_printable [OF assms text_stores(3)]
    by (simp_all add: keeps_def format_relevant_amount_def format_fees_def Let_def)
  show "keeps only_checked (if \<not> pay then format_fees P e c a else done_with ())"
    using f by (auto intro: keeps_basic)
qed

text \<open>The context after the check, member by member.\<close>

lemma check_coin_parts:
  assumes libs: "libs_keep_globals e"
    and run: "check_coin P e cmd app conf params w = (Inr (), w')" and size: "ctx_sizes (ctx w)"
  defines "c \<equiv> ctx w" and "s \<equiv> ctx_subcommand (ctx w)" and "pay \<equiv> cmd_ins cmd = CHECK_PAYOUT_ADDRESS"
  obtains b t2 t3 t4 c4 where
    "ctx w' = (if pay then c4 else save_paying_coin cmd app conf c4)" "ctx_sizes c4"
    "c4 = (relevant_text s (cmd_ins cmd) t2 (c\<lparr>other_seed_payout := b\<rparr>))\<lparr>printable_fees_amount := t3, printable_get_amount := t4\<rparr>"
    "\<not> pay \<or> \<not> swap_based s \<longrightarrow> b = other_seed_payout c"
    "address_checked P e (cmd_ins cmd) (cstr app) (buf_bytes conf) params (c\<lparr>other_seed_payout := b\<rparr>)"
    "\<And>m. prints_amount e (cstr app) (buf_bytes conf) (pb_array_bytes (relevant_amount s (cmd_ins cmd)) (tx c)) False (cstr (t2 m))"
    "\<not> pay \<longrightarrow> prints_amount e (cstr app) (buf_bytes conf)
        (take (unat (transaction_fee_length c)) (transaction_fee c)) True (cstr t3)"
    "swap_based s \<longrightarrow> t4 = (if pay then t2 (printable_get_amount c) else printable_get_amount c)"
    "sell_based s \<longrightarrow> fiat_amount_text (tx c) (printable_get_amount c) = (True, t4)"
    "fund_based s \<longrightarrow> cstr t4 = take 49 (member_string fund_account_name (tx c))"
proof -
  have clean: "lib_call_clean (lib_check_address e)" "lib_call_clean (lib_get_printable_amount e)"
    using libs by (simp_all add: libs_keep_globals_clean)
  from run obtain u1 w1 u2 w2 u3 w3 u4 w4 where
    s1: "check_swap_address P e (cmd_ins cmd) (buf_bytes conf) params app w = (Inr u1, w1)" and
    s2: "format_relevant_amount P e (cmd_ins cmd) (buf_bytes conf) app w1 = (Inr u2, w2)" and
    s3: "(if \<not> pay then format_fees P e (buf_bytes conf) app else done_with ()) w2 = (Inr u3, w3)" and
    s4: "format_flow_text w3 = (Inr u4, w4)" and
    s5: "(if \<not> pay then on_ctx (save_paying_coin cmd app conf) else done_with ()) w4 = (Inr (), w')"
    unfolding check_coin_def and_then_ok pay_def by blast
  obtain b where c1: "ctx w1 = c\<lparr>other_seed_payout := b\<rparr>" and b: "\<not> pay \<or> \<not> swap_based s \<longrightarrow> b = other_seed_payout c"
    and addr: "address_checked P e (cmd_ins cmd) (cstr app) (buf_bytes conf) params (ctx w1)"
    using swap_address_flag [OF clean(1) s1] unfolding c_def s_def pay_def by blast
  have c1_same: "ctx_subcommand (ctx w1) = s" "tx (ctx w1) = tx c" by (simp_all add: c1 c_def s_def)
  obtain t2 where c2: "ctx w2 = relevant_text s (cmd_ins cmd) t2 (ctx w1)"
    and p2: "\<And>m. prints_amount e (cstr app) (buf_bytes conf) (pb_array_bytes (relevant_amount s (cmd_ins cmd)) (tx c))
        False (cstr (t2 m))"
    using relevant_done [OF clean(2) s2] unfolding c1_same by blast
  have c2_same: "transaction_fee (ctx w2) = transaction_fee c" "transaction_fee_length (ctx w2) = transaction_fee_length c"
    using c1 c2 by (simp_all add: relevant_text_def)
  obtain t3 where c3: "ctx w3 = (ctx w2)\<lparr>printable_fees_amount := t3\<rparr>"
    and p3: "\<not> pay \<longrightarrow> prints_amount e (cstr app) (buf_bytes conf)
        (take (unat (transaction_fee_length c)) (transaction_fee c)) True (cstr t3)"
    using fees_done [OF clean(2) s3] unfolding c2_same by blast
  have c3_same: "ctx_subcommand (ctx w3) = s" "tx (ctx w3) = tx c"
    and get3: "printable_get_amount (ctx w3) =
      (if swap_based s \<and> pay then t2 (printable_get_amount c) else printable_get_amount c)"
    using c1 c2 c3 by (auto simp: relevant_text_def c_def s_def pay_def)
  have size3: "ctx_sizes (ctx w3)"
    using only_checked_frame(7) [OF keeps_run [OF keeps_swap_address [OF clean(1)] s1]]
      only_checked_frame(7) [OF keeps_run [OF keeps_formats(1) [OF clean(2)] s2]]
      only_checked_frame(7) [OF keeps_run [OF keeps_formats(3) [OF clean(2)] s3]] size by blast
  then have size4: "ctx_sizes (ctx w4)" by (rule only_checked_frame(7) [OF keeps_run [OF keeps_flow_text s4]])
  from size3 have len: "length (printable_get_amount (ctx w3)) = MAX_PRINTABLE_AMOUNT_SIZE" by (simp add: ctx_sizes_def)
  from flow_text_done [OF s4, unfolded c3_same] len obtain t4 where
    w4: "w4 = w3\<lparr>ctx := (ctx w3)\<lparr>printable_get_amount := t4\<rparr>\<rparr>" and
    p4: "swap_based s \<longrightarrow> t4 = printable_get_amount (ctx w3)"
      "sell_based s \<longrightarrow> fiat_amount_text (tx c) (printable_get_amount (ctx w3)) = (True, t4)"
      "fund_based s \<longrightarrow> cstr t4 = take 49 (member_string fund_account_name (tx c))" by blast
  have c4: "ctx w4 = (relevant_text s (cmd_ins cmd) t2 (c\<lparr>other_seed_payout := b\<rparr>))\<lparr>printable_fees_amount := t3, printable_get_amount := t4\<rparr>"
    by (simp add: w4 c3 c2 c1)
  have c5: "ctx w' = (if pay then ctx w4 else save_paying_coin cmd app conf (ctx w4))"
    using s5 by (auto simp: step_defs split: if_splits)
  have "sell_based s \<Longrightarrow> \<not> swap_based s" by auto
  with p4 get3 have p4': "swap_based s \<longrightarrow> t4 = (if pay then t2 (printable_get_amount c) else printable_get_amount c)"
    "sell_based s \<longrightarrow> fiat_amount_text (tx c) (printable_get_amount c) = (True, t4)"
    by (simp_all split: if_splits)
  show thesis
    by (rule that [OF c5 size4 c4 b addr [unfolded c1] p2 p3 p4' p4(3)])
qed

lemma check_coin_done:
  assumes libs: "libs_keep_globals e"
    and run: "check_coin P e cmd (application_name_array app) conf params w = (Inr (), w')"
    and app: "length app \<le> 32" and conf: "length (buf_bytes conf) \<le> 64" "buf_ok conf"
    and size: "ctx_sizes (ctx w)"
  shows "checked_coin P e cmd app (buf_bytes conf) params (ctx w) (ctx w')"
proof (rule check_coin_parts [OF libs run size])
  let ?s = "ctx_subcommand (ctx w)" and ?pay = "cmd_ins cmd = CHECK_PAYOUT_ADDRESS" and ?c = "ctx w" and ?c' = "ctx w'"
  fix b t2 t3 t4 c4
  assume c': "?c' = (if ?pay then c4 else save_paying_coin cmd (application_name_array app) conf c4)" and size4: "ctx_sizes c4"
    and c4: "c4 = (relevant_text ?s (cmd_ins cmd) t2 (?c\<lparr>other_seed_payout := b\<rparr>))\<lparr>printable_fees_amount := t3, printable_get_amount := t4\<rparr>"
    and b: "\<not> ?pay \<or> \<not> swap_based ?s \<longrightarrow> b = other_seed_payout ?c"
    and addr: "address_checked P e (cmd_ins cmd) (cstr (application_name_array app)) (buf_bytes conf) params (?c\<lparr>other_seed_payout := b\<rparr>)"
    and p2: "\<And>m. prints_amount e (cstr (application_name_array app)) (buf_bytes conf)
      (pb_array_bytes (relevant_amount ?s (cmd_ins cmd)) (tx ?c)) False (cstr (t2 m))"
    and p3: "\<not> ?pay \<longrightarrow> prints_amount e (cstr (application_name_array app)) (buf_bytes conf)
        (take (unat (transaction_fee_length ?c)) (transaction_fee ?c)) True (cstr t3)"
    and swap: "swap_based ?s \<longrightarrow> t4 = (if ?pay then t2 (printable_get_amount ?c) else printable_get_amount ?c)"
    and sell: "sell_based ?s \<longrightarrow> fiat_amount_text (tx ?c) (printable_get_amount ?c) = (True, t4)"
    and fund: "fund_based ?s \<longrightarrow> cstr t4 = take 49 (member_string fund_account_name (tx ?c))"
  have fields: "printable_get_amount ?c' = t4" "printable_fees_amount ?c' = t3" "other_seed_payout ?c' = b"
    "ctx_subcommand ?c' = ?s" "tx ?c' = tx ?c"
    and send: "\<not> (swap_based ?s \<and> ?pay) \<Longrightarrow> printable_send_amount ?c' = t2 (printable_send_amount ?c)"
    unfolding c' c4 by (auto simp: save_paying_coin_def relevant_text_def)
  have app': "cstr (application_name_array app) = cstr app" using app by (rule cstr_application_name_array)
  have "unchecked_part ?c' = unchecked_part ?c"
    using only_checked_frame(6) [OF keeps_run [OF keeps_check_coin [OF libs length_application_name_array [OF app]] run]]
      conf(1) by (simp add: size_defs)
  moreover have "address_checked P e (cmd_ins cmd) (cstr app) (buf_bytes conf) params ?c'"
    using addr fields by (simp add: address_checked_def app')
  moreover have "prints_amount e (cstr app) (buf_bytes conf) (pb_array_bytes (relevant_amount ?s (cmd_ins cmd)) (tx ?c)) False
      (cstr (if swap_based ?s \<and> ?pay then printable_get_amount ?c' else printable_send_amount ?c'))"
  proof (cases "swap_based ?s \<and> ?pay")
    case True
    with swap p2 [of "printable_get_amount ?c"] show ?thesis by (simp add: fields app')
  next
    case False
    show ?thesis
      unfolding if_not_P [OF False] send [OF False] app' [symmetric] by (rule p2)
  qed
  moreover have "\<not> ?pay \<longrightarrow> cstr (payin_binary_name ?c') = cstr app \<and>
      take (unat (paying_sub_coin_config_size ?c')) (paying_sub_coin_config ?c') = buf_bytes conf \<and> ctx_rate ?c' = cmd_rate cmd"
    using saved_coin [OF app conf size4, of cmd] unfolding c' by (simp add: save_paying_coin_def)
  moreover have "swap_based ?s \<and> \<not> ?pay \<longrightarrow> printable_get_amount ?c' = printable_get_amount ?c \<and> other_seed_payout ?c' = other_seed_payout ?c"
    using swap b by (auto simp: fields)
  moreover have "\<not> swap_based ?s \<longrightarrow> other_seed_payout ?c' = other_seed_payout ?c" using b by (simp add: fields)
  ultimately show ?thesis
    unfolding checked_coin_def Let_def using p3 sell fund unfolding fields app' by blast
qed

text \<open>A check of the refund address does not touch what the check of the payout address left.\<close>

definition payout_kept :: "world \<Rightarrow> world \<Rightarrow> bool" where
  "payout_kept w w' \<longleftrightarrow>
     (swap_based (ctx_subcommand (ctx w)) \<longrightarrow>
        swap_based (ctx_subcommand (ctx w')) \<and> printable_get_amount (ctx w') = printable_get_amount (ctx w) \<and>
        other_seed_payout (ctx w') = other_seed_payout (ctx w))"

lemma payout_kept_refl [simp]: "payout_kept w w" by (simp add: payout_kept_def)

lemma transp_payout_kept: "transp payout_kept"
  by (auto intro!: transpI simp: payout_kept_def)

lemma payout_kept_text:
  assumes "lib_call_clean (lib_get_printable_amount e)"
    and "\<And>f c. swap_based (ctx_subcommand c) \<Longrightarrow>
      swap_based (ctx_subcommand (store f c)) \<and> printable_get_amount (store f c) = printable_get_amount c \<and>
      other_seed_payout (store f c) = other_seed_payout c"
  shows "keeps payout_kept (get_printable_amount P e conf app amt store sz fee)"
proof -
  have lib: "keeps payout_kept (os_lib_call_bss_safe P (lib_get_printable_amount e) x)" for x
    unfolding keeps_def lib_call_keeps [OF assms(1)] by (auto split: lib_outcome.splits)
  have st: "keeps payout_kept (on_ctx (store f))" for f
    using assms(2) by (intro keeps_basic) (simp add: payout_kept_def)
  show ?thesis
    unfolding get_printable_amount_def Let_def
    by (intro keeps_and_then [OF lib _ transp_payout_kept]) (auto intro!: keeps_basic st split: prod.splits)
qed

lemma payout_kept_by_refund:
  assumes libs: "libs_keep_globals e" and ins: "cmd_ins cmd \<noteq> CHECK_PAYOUT_ADDRESS"
  shows "keeps payout_kept (check_coin P e cmd app conf params)"
proof -
  have clean: "lib_call_clean (lib_check_address e)" "lib_call_clean (lib_get_printable_amount e)"
    using libs by (simp_all add: libs_keep_globals_clean)
  have call: "keeps payout_kept (check_address P e c p a x y)" for c p a x y
    unfolding keeps_def using check_address_done(1) [OF clean(1)] payout_kept_refl by metis
  have addr: "keeps payout_kept (check_swap_address P e (cmd_ins cmd) c p a)" for c p a
    unfolding keeps_def
  proof (intro allI impI)
    fix w r w'
    assume "check_swap_address P e (cmd_ins cmd) c p a w = (r, w')"
    moreover obtain r1 w1 where r1: "check_payout_or_refund_address P e (cmd_ins cmd) c p a w = (r1, w1)" by fastforce
    ultimately have "w' = w \<or> w' = w1"
      using ins by (auto simp: check_swap_address_def step_defs split: if_splits sum.splits fault.splits)
    moreover have "payout_kept w w1"
      using r1 keeps_run [OF call]
      by (auto simp: check_payout_or_refund_address_def Let_def step_defs
          split: prod.splits if_splits sum.splits fault.splits)
    ultimately show "payout_kept w w'" by auto
  qed
  have r: "keeps payout_kept (format_relevant_amount P e (cmd_ins cmd) c a)"
    and f: "keeps payout_kept (format_fees P e c a)" for c a
    using payout_kept_text [OF clean(2), of "printable_send_amount_update"]
      payout_kept_text [OF clean(2), of "printable_fees_amount_update"] ins
    by (simp_all add: keeps_def format_relevant_amount_def format_fees_def Let_def relevant_text_def)
  have t: "keeps payout_kept format_flow_text"
    by (auto simp: keeps_def format_flow_text_def step_defs payout_kept_def)
  have s: "keeps payout_kept (on_ctx (save_paying_coin cmd app conf))"
    by (intro keeps_basic) (simp add: payout_kept_def save_paying_coin_def)
  show ?thesis
    unfolding check_coin_def
    by (intro keeps_and_then transp_payout_kept addr r t) (auto intro!: f s keeps_basic)
qed

text \<open>The state that a successful check leads to.\<close>

fun checked_state :: "command_e \<Rightarrow> state_e" where
  "checked_state ins =
     (if ins = CHECK_ASSET_IN_AND_DISPLAY \<or> ins = CHECK_REFUND_ADDRESS_AND_DISPLAY then WAITING_USER_VALIDATION
      else if ins = CHECK_PAYOUT_ADDRESS then PAYOUT_ADDRESS_CHECKED else ALL_ADDRESSES_CHECKED)"

lemma check_moved:
  assumes run: "check_addresses_and_amounts P e cmd w = (r, w')" and moved: "ctx_state (ctx w') \<noteq> ctx_state (ctx w)"
    and data: "data_ok cmd (ctx w)" "unat (cmd_data_size cmd) < 65535" and libs: "libs_keep_globals e"
    and size: "ctx_sizes (ctx w)"
  shows "\<exists>app conf params c. coin_certified P e cmd (ctx w) (data_bytes cmd (ctx w)) app conf params \<and> length app \<le> 32 \<and>
    checked_coin P e cmd app conf params (ctx w) c \<and> ctx w' = c\<lparr>ctx_state := checked_state (cmd_ins cmd)\<rparr> \<and>
    received_apdu w' = received_apdu w"
proof -
  obtain r1 w1 where steps: "check_addresses_and_amounts_steps P e cmd w = (r1, w1)" by fastforce
  note frame = steps_only_checked [OF libs data steps]
  note same = unchecked_part_same(1) [OF only_checked_frame(6) [OF frame]]
  have fin: "r1 = Inr () \<and> ctx w' = (ctx w1)\<lparr>ctx_state := checked_state (cmd_ins cmd)\<rparr> \<and> received_apdu w' = received_apdu w1"
    using run steps
  proof (cases rule: check_outcome)
    case stopped
    with moved same show ?thesis by simp
  next
    case (failed err)
    with moved same show ?thesis by simp
  next
    case displayed
    then show ?thesis by auto
  next
    case checked
    then show ?thesis by simp
  qed
  show ?thesis
    using steps data
  proof (cases rule: steps_cases)
    case (refused err)
    with fin show ?thesis by simp
  next
    case (coin app conf params)
    from check_coin_done [OF libs coin(1) [unfolded conjunct1 [OF fin]] coin(3-5) size] coin(2,3) fin
      only_checked_frame(2) [OF frame]
    show ?thesis by (intro exI [of _ app] exI [of _ "buf_bytes conf"] exI [of _ params] exI [of _ "ctx w1"]) simp
  qed
qed

section \<open>The currencies of a normalised message\<close>

lemma currency_apart:
  assumes "mb \<in> set (currency_members s)"
  shows "outside_members (amount_members s) (fst mb) (snd mb)" "fst mb + snd mb \<le> sizeof_tx" "snd mb = 10"
  using assms by (cases s; auto simp: currency_members_def amount_members_def outside_members_def layout_defs)+

lemma currency_after_trim:
  assumes "message_ok s m" and "mb \<in> set (currency_members s)"
  shows "member_bytes mb (normalized s m) = member_bytes mb (normalize_currencies s m)"
proof -
  have "\<forall>a \<in> set (amount_members s). amount_ok a (normalize_currencies s m)"
    using amounts_after_normalize(1) [OF assms(1)] by blast
  from trim_amounts_mread [OF this currency_apart(1) [OF assms(2)]] currency_apart(2) [OF assms(2)]
    normalize_currencies_frame(1) assms(1)
  show ?thesis by (simp add: member_bytes_def normalized_def message_ok_def)
qed

lemma string_of_message:
  assumes "message_ok s m" and "i < length (message_table s)" and "f_ltype (message_table s ! i) = LTYPE_STRING"
    and "members_from 0 (message_table s) ! i = mb"
  shows "0 \<in> set (member_bytes mb m)"
  using wf_member(2) [OF assms(1-3)] assms(4) by simp

lemma currency_of_message:
  assumes "message_ok s m" and mb: "mb \<in> set (currency_members s)"
  shows "0 \<in> set (member_bytes mb m)"
proof -
  consider "swap_based s" | "sell_based s" | "fund_based s" by (cases s) auto
  then show ?thesis
  proof cases
    case 1
    then have t: "message_table s = ledger_swap_NewTransactionResponse_fields" by (auto simp: message_table_def)
    show ?thesis
      using string_of_message [OF assms(1), of 6] string_of_message [OF assms(1), of 7] 1 mb unfolding t swap_members
      by (auto simp: currency_members_def ledger_swap_NewTransactionResponse_fields_def SINGULAR_STATIC_def)
  next
    case 2
    then have t: "message_table s = ledger_swap_NewSellResponse_fields" by (auto simp: message_table_def)
    show ?thesis
      using string_of_message [OF assms(1), of 1] string_of_message [OF assms(1), of 4] 2 mb unfolding t sell_members
      by (auto simp: currency_members_def ledger_swap_NewSellResponse_fields_def SINGULAR_STATIC_def)
  next
    case 3
    then have t: "message_table s = ledger_swap_NewFundResponse_fields" by (auto simp: message_table_def)
    show ?thesis
      using string_of_message [OF assms(1), of 2] 3 mb unfolding t fund_members
      by (auto simp: currency_members_def ledger_swap_NewFundResponse_fields_def SINGULAR_STATIC_def)
  qed
qed

lemma normalize_currency_terminated:
  assumes "fst mb + snd mb \<le> length m" and "snd mb = 10" and "0 \<in> set (member_bytes mb m)"
  shows "0 \<in> set (member_bytes mb (normalize_currency mb m))"
proof -
  let ?n = "normalize_currency mb m"
  have "length (cstr xs) < length xs" if "0 \<in> set xs" for xs :: "u8 list"
    using that by (induction xs) auto
  from this [OF assms(3)] have "length (cstr (member_bytes mb m)) \<le> 9"
    using assms(1,2) by (simp add: member_bytes_def length_mread)
  then have "length (cstr (member_bytes mb ?n)) < 10"
    using normalize_currency_name [of mb m] length_ledger_ticker [of "cstr (member_bytes mb m)"] assms(1,2) by simp
  moreover have "length (member_bytes mb ?n) = 10"
    using same_outside_length [OF normalize_currency_within [OF assms(1)]] assms(1,2)
    by (simp add: member_bytes_def length_mread)
  ultimately show ?thesis using zero_in_take_cstr by simp
qed

lemma currencies_of_normalized:
  assumes "message_ok s m" and mb: "mb \<in> set (currency_members s)"
  shows "0 \<in> set (member_bytes mb (normalized s m))"
proof -
  note room = currency_apart(2,3) [OF mb] and nul = currency_of_message [OF assms]
  have len: "length m = sizeof_tx" using assms(1) by (simp add: message_ok_def)
  note n = normalize_currency_terminated [OF _ room(2) nul] and keep = same_outside_mread
  have "0 \<in> set (member_bytes mb (normalize_currencies s m))"
  proof (cases "mb \<in> set (normalized_members s)")
    case False
    then have "mb = sell_out_currency" "sell_based s"
      using mb by (auto simp: currency_members_def normalized_members_def split: if_splits)
    then have "outside_members (normalized_members s) (fst mb) (snd mb)"
      by (auto simp: normalized_members_def outside_members_def layout_defs)
    with normalize_currencies_frame(2) [OF len] room(1) nul show ?thesis by (simp add: member_bytes_def)
  next
    case True
    show ?thesis
    proof (cases "swap_based s")
      case False
      then have "normalize_currencies s m = normalize_currency mb m"
        using True mb by (cases s) (auto simp: normalized_members_def normalize_currencies_def)
      with n room len show ?thesis by simp
    next
      case swap: True
      let ?a = "normalize_currency swap_currency_from m"
      let ?b = "normalize_currency swap_currency_to ?a"
      have a: "same_outside 513 10 m ?a"
        using normalize_currency_within [of swap_currency_from m] len by (simp add: layout_defs)
      have b: "same_outside 523 10 ?a ?b"
        using normalize_currency_within [of swap_currency_to ?a] same_outside_length [OF a] len by (simp add: layout_defs)
      have c: "same_outside 0 151 ?b (strip_address_header ?b)"
        using strip_address_header_within [of ?b] same_outside_length [OF a] same_outside_length [OF b] len
        by (simp add: layout_defs)
      have lens: "length m = 648" "length ?a = 648" "length ?b = 648"
        using same_outside_length [OF a] same_outside_length [OF b] len by (simp_all add: sizeof_tx_def)
      have norm: "normalize_currencies s m = strip_address_header ?b" using swap by (auto simp: normalize_currencies_def)
      have "mb = swap_currency_from \<or> mb = swap_currency_to" using swap mb by (auto simp: currency_members_def)
      then show ?thesis
      proof
        assume f: "mb = swap_currency_from"
        have "member_bytes mb (strip_address_header ?b) = member_bytes mb ?a"
          using keep [OF c, of 513 10] keep [OF b, of 513 10] lens by (simp add: member_bytes_def f swap_currency_from_def)
        with n room lens show ?thesis unfolding norm by (simp add: f sizeof_tx_def)
      next
        assume f: "mb = swap_currency_to"
        have "member_bytes mb ?a = member_bytes mb m" and e: "member_bytes mb (strip_address_header ?b) = member_bytes mb ?b"
          using keep [OF c, of 523 10] keep [OF a, of 523 10] lens by (simp_all add: member_bytes_def f swap_currency_to_def)
        then have "0 \<in> set (member_bytes mb ?b)"
          using normalize_currency_terminated [of mb ?a] nul room lens by (simp add: f sizeof_tx_def)
        with e show ?thesis unfolding norm by simp
      qed
    qed
  qed
  with currency_after_trim [OF assms] show ?thesis by simp
qed

text \<open>
  C16: A check of the addresses and amounts moves the program on only for the coin of the transaction: the
  data were a configuration signed by the signer's key whose ticker is the currency of the
  transaction; the application it names accepts the payout or refund address, or the payout is
  marked as of another seed; and it is that application that wrote the amount of the transaction
  and the fees as the texts in the context, nothing else of which has changed but the flow's own
  text and the coin that will be used to sign.
\<close>

theorem check_addresses_establishes:
  assumes "check_addresses_and_amounts P e cmd w = (r, w')" and "ctx_state (ctx w') \<noteq> ctx_state (ctx w)"
    and "data_ok cmd (ctx w)" and "unat (cmd_data_size cmd) < 65535" and "libs_keep_globals e"
    and "ctx_sizes (ctx w)"
  shows "\<exists>app conf params c. coin_certified P e cmd (ctx w) (data_bytes cmd (ctx w)) app conf params \<and> length app \<le> 32 \<and>
    checked_coin P e cmd app conf params (ctx w) c \<and> ctx w' = c\<lparr>ctx_state := checked_state (cmd_ins cmd)\<rparr>"
  using check_moved [OF assms] by blast

definition sample_coin :: "u8 list" where
  "sample_coin = enc_sized1 (ascii ''BTC'') @ enc_sized1 (ascii ''Bitcoin'') @ enc_sized1 []"

definition sample_check :: command_t where
  "sample_check = \<lparr>cmd_ins = CHECK_ASSET_IN_NO_DISPLAY, cmd_rate = FIXED, cmd_subcommand = FUND,
     cmd_data = In_apdu_buffer (replicate 5 0 @ enc_sized1 sample_coin @ (0x30 # enc_sized1 (replicate 68 1)) @ enc_sized1 [9]),
     cmd_data_size = 86\<rparr>"

definition sample_checkable :: world where
  "sample_checkable = (world_in SIGNATURE_CHECKED FUND)\<lparr>ctx := zero_context\<lparr>ctx_state := SIGNATURE_CHECKED,
     ctx_subcommand := FUND, tx := replicate 100 0 @ ascii ''BTC'' @ replicate 7 0 @ [1, 5] @ replicate 536 0\<rparr>\<rparr>"

lemma plain_libs_keep_globals: "libs_keep_globals plain_outside"
  by (simp add: libs_keep_globals_def plain_outside_def)

lemma check_addresses_establishes_witness:
  "\<exists>app conf params. coin_certified plain_platform plain_outside sample_check (ctx sample_checkable)
     (data_bytes sample_check (ctx sample_checkable)) app conf params"
proof -
  let ?run = "check_addresses_and_amounts plain_platform plain_outside sample_check sample_checkable"
  have moved: "ctx_state (ctx (snd ?run)) = ALL_ADDRESSES_CHECKED" by code_simp
  have st: "ctx_state (ctx sample_checkable) = SIGNATURE_CHECKED" by (simp add: sample_checkable_def)
  have "ctx_sizes (ctx sample_checkable)"
    by (simp add: sample_checkable_def ctx_sizes_def zero_context_def sizeof_tx_def)
  moreover have "data_ok sample_check (ctx sample_checkable)" "unat (cmd_data_size sample_check) < 65535"
    by (simp_all add: data_ok_def data_pointer_def sample_check_def sample_coin_def offset_defs enc_sized1_def)
  ultimately show ?thesis
    using check_addresses_establishes [of plain_platform plain_outside sample_check sample_checkable "fst ?run" "snd ?run"]
      moved st plain_libs_keep_globals by auto
qed

end
