(* ===== verification/Signing.thy ===== *)
theory Signing
  imports Process_Transaction Lib_Calls Ui_Review
begin

text \<open>
  The last command of a session, \<^verbatim>\<open>src/start_signing_transaction.c\<close>, which hands the transaction over
  to the application of the coin, and the page that tells how that went, \<^verbatim>\<open>src/ui/sign_result.c\<close>.
\<close>

section \<open>Handing over\<close>

text \<open>
  The parameters, with what their pointers point at. The extra identifier is a C string, or the
  bytes of the extra data of the transaction when there are 33 of them.
\<close>

definition signing_parameters :: "subcommand_e \<Rightarrow> swap_app_context \<Rightarrow> create_transaction_parameters" where
  "signing_parameters s c =
     (let (amount, destination, extra_id) =
        (if swap_based s then
           (swap_amount_to_provider, swap_payin_address,
            if pb_array_size swap_payin_extra_data (tx c) = 33 then pb_array_bytes swap_payin_extra_data (tx c)
            else member_string swap_payin_extra_id (tx c))
         else if sell_based s then
           (sell_in_amount, sell_in_address, member_string sell_in_extra_id (tx c))
         else
           (fund_in_amount, fund_in_address, member_string fund_in_extra_id (tx c)))
      in \<lparr>ct_application_name = cstr (payin_binary_name c),
          ct_coin_configuration =
            (if paying_sub_coin_config_size c = 0 then None
             else Some (take (unat (paying_sub_coin_config_size c)) (paying_sub_coin_config c))),
          ct_amount = pb_array_bytes amount (tx c),
          ct_fee_amount = take (unat (transaction_fee_length c)) (transaction_fee c),
          ct_destination_address = member_string destination (tx c),
          ct_destination_address_extra_id = extra_id\<rparr>)"

definition start_signing_transaction :: "outside \<Rightarrow> command_t \<Rightarrow> world \<Rightarrow> outcome \<times> world" where
  "start_signing_transaction e cmd w =
     (case instant_reply_success e w of
        (n, w) \<Rightarrow>
          if n < 0 then (Returned (-1), w)
          else case create_payin_transaction e (signing_parameters (cmd_subcommand cmd) (ctx w)) w of
            (Inl (Throws x), w) \<Rightarrow> (Threw x, w)
          | (_, w) \<Rightarrow> (Returned 0, w\<lparr>ctx := (ctx w)\<lparr>ctx_state := SIGN_FINISHED\<rparr>\<rparr>))"

section \<open>The page of the last cycle\<close>

definition REFUSAL_TEXT_PART_1 :: "u8 list" where
  "REFUSAL_TEXT_PART_1 = ascii ''Incorrect transaction'' @ [nl] @ ascii ''rejected by the'' @ [nl]"
definition REFUSAL_TEXT_PART_2 :: "u8 list" where "REFUSAL_TEXT_PART_2 = ascii '' app''"
definition REFUSAL_TEXT_MAX_SIZE :: nat where
  "REFUSAL_TEXT_MAX_SIZE =
     length REFUSAL_TEXT_PART_1 + (sizeof_payin_binary_name - 1) + length REFUSAL_TEXT_PART_2 + 1"

definition display_signing_failure :: "u8 list \<Rightarrow> world \<Rightarrow> world" where
  "display_signing_failure appname w =
     (let refusal_text = snprintf (replicate REFUSAL_TEXT_MAX_SIZE 0) REFUSAL_TEXT_MAX_SIZE
                           (REFUSAL_TEXT_PART_1 @ cstr appname @ REFUSAL_TEXT_PART_2)
      in w\<lparr>screen := Signing_failure (cstr refusal_text)\<rparr>)"

definition display_signing_success :: "world \<Rightarrow> world" where
  "display_signing_success w = w\<lparr>screen := Transaction_signed\<rparr>"

section \<open>What it does\<close>

text \<open>A library may write anywhere, but an object of C keeps its size.\<close>

definition libs_keep_sizes :: "outside \<Rightarrow> bool" where
  "libs_keep_sizes e \<longleftrightarrow>
     (\<forall>p g r g' k. lib_sign_transaction e p g = Lib_returned r g' k \<longrightarrow> ctx_sizes (ctx g) \<longrightarrow> ctx_sizes (ctx g'))"

lemma globals_ctx [simp]: "ctx (globals_of w) = ctx w"
  by (simp add: globals_of_def)

lemma create_payin_cases:
  obtains (missing) "create_payin_transaction e params w = (Inl (Throws SWO_SEC_APP_14), w\<lparr>screen := Screen_off\<rparr>)"
  | (signed) result g k w' where "lib_sign_transaction e params (globals_of w) = Lib_returned result g k"
      "create_payin_transaction e params w = (Inr result, w')" "ctx w' = ctx g" "sent w' = sent w"
      "screen w' = Screen_off"
      "was_successful (previous_cycle w') = (result = 1)"
proof (cases "lib_sign_transaction e params (globals_of w)")
  case Lib_missing
  then show thesis using missing by (simp add: create_payin_transaction_def globals_of_def)
next
  case (Lib_returned r g k)
  then show thesis
    using signed [of r g k "snd (create_payin_transaction e params w)"]
    by (simp add: create_payin_transaction_def globals_of_def Let_def)
qed

lemma start_signing_cases:
  obtains (unsent) "\<not> instant_io_ok e"
      "start_signing_transaction e cmd w = (Returned (-1), w\<lparr>sent := sent w @ [([], status_word SUCCESS)]\<rparr>)"
  | (missing) "start_signing_transaction e cmd w =
      (Threw SWO_SEC_APP_14, w\<lparr>sent := sent w @ [([], status_word SUCCESS)], screen := Screen_off\<rparr>)"
  | (signed) result g k w' where
      "lib_sign_transaction e (signing_parameters (cmd_subcommand cmd) (ctx w)) (globals_of w) = Lib_returned result g k"
      "start_signing_transaction e cmd w = (Returned 0, w')"
      "ctx w' = (ctx g)\<lparr>ctx_state := SIGN_FINISHED\<rparr>" "sent w' = sent w @ [([], status_word SUCCESS)]"
      "screen w' = Screen_off"
      "was_successful (previous_cycle w') = (result = 1)"
proof (cases "instant_io_ok e")
  case False
  then show thesis using unsent by (simp add: start_signing_transaction_def reply_defs)
next
  case True
  let ?w = "w\<lparr>sent := sent w @ [([], status_word SUCCESS)]\<rparr>"
  have g: "globals_of (w\<lparr>sent := x\<rparr>) = globals_of w" for x by (simp add: globals_of_def)
  have run: "start_signing_transaction e cmd w =
      (case create_payin_transaction e (signing_parameters (cmd_subcommand cmd) (ctx w)) ?w of
        (Inl (Throws x), w) \<Rightarrow> (Threw x, w)
      | (_, w) \<Rightarrow> (Returned 0, w\<lparr>ctx := (ctx w)\<lparr>ctx_state := SIGN_FINISHED\<rparr>\<rparr>))"
    using True by (simp add: start_signing_transaction_def reply_defs)
  show thesis
  proof (cases rule: create_payin_cases [of e "signing_parameters (cmd_subcommand cmd) (ctx w)" ?w])
    case gone: missing
    with run show thesis by (intro missing) simp
  next
    case over: (signed result g k w')
    with run show thesis
      by (intro signed [of result g k "w'\<lparr>ctx := (ctx w')\<lparr>ctx_state := SIGN_FINISHED\<rparr>\<rparr>"]) (simp_all add: g)
  qed
qed

interpretation signing_handler: handler "start_signing_transaction"
  "{SIGN_FINISHED}" "\<lambda>e cmd w. libs_keep_sizes e"
proof (unfold_locales, goal_cases)
  case (1 e cmd w r w')
  then show ?case by (cases rule: start_signing_cases [of e cmd w]) auto
next
  case (2 e cmd w r w')
  show ?case
  proof (cases rule: start_signing_cases [of e cmd w])
    case (signed result g k w1)
    have "ctx_sizes (ctx g)" using 2(1,3) signed(1) unfolding libs_keep_sizes_def by (metis globals_ctx)
    with 2 signed show ?thesis by (simp add: ctx_sizes_def)
  qed (use 2 in \<open>simp_all\<close>)
next
  case (3 e cmd w r w')
  then show ?case by (cases rule: start_signing_cases [of e cmd w]) auto
qed

text \<open>
  The array on the stack has no room for the zero of a name of 32 bytes: the page that tells of a
  refusal shows 31 of them.
\<close>

lemma failure_name_cut:
  assumes "create_payin_transaction e params w = (Inr result, w')"
  shows "cstr (appname_last_cycle (previous_cycle w')) = take 31 (cstr (payin_binary_name (ctx w)))"
proof -
  let ?n = "cstr (payin_binary_name (ctx w))"
  have nz: "0 \<notin> set (take 31 ?n)" using in_set_takeD cstr_no_zero by metis
  have copy: "cstr (strlcpy m src k) = take (k - 1) (cstr src)" if "0 < k" "0 \<notin> set (take (k - 1) (cstr src))"
    for m src k
    using that cstr_append_zero [of "take (k - 1) (cstr src)"]
    by (simp add: strlcpy_def mwrite_def cstr_id)
  have "cstr (strlcpy m (strlcpy m' (payin_binary_name (ctx w)) 32) 33) = take 31 ?n" for m m'
    using copy [of 32 "payin_binary_name (ctx w)" m'] copy [of 33 "strlcpy m' (payin_binary_name (ctx w)) 32" m] nz
    by simp
  with assms show ?thesis
    by (auto simp: create_payin_transaction_def Let_def ctx_size_defs size_defs split: lib_outcome.splits)
qed

end
