(* ===== verification/Main_Loop.thy ===== *)
theory Main_Loop
  imports Apdu_Parser Tx_Signature Trusted_Name Addresses_Amounts Signing
begin

text \<open>
  The dispatch of the commands, \<^verbatim>\<open>src/command_dispatcher.c\<close>, and the two loops of \<^verbatim>\<open>src/main.c\<close>.
  A run of the program is a sequence of events: a command that was received, the failure of a
  reception, an exception thrown while the program waits, and what the user does on the pages
  that wait for him.
\<close>

section \<open>One command\<close>

fun dispatch_command :: "platform \<Rightarrow> outside \<Rightarrow> command_t \<Rightarrow> world \<Rightarrow> outcome \<times> world" where
  "dispatch_command P e cmd w =
     (case cmd_ins cmd of
        GET_VERSION_COMMAND \<Rightarrow> returning (get_version_handler P e w)
      | START_NEW_TRANSACTION_COMMAND \<Rightarrow> returning (start_new_transaction P e cmd w)
      | SET_PARTNER_KEY_COMMAND \<Rightarrow> returning (set_partner_key P e cmd w)
      | CHECK_PARTNER_COMMAND \<Rightarrow> returning (check_partner P e cmd w)
      | PROCESS_TRANSACTION_RESPONSE_COMMAND \<Rightarrow> returning (process_transaction P e cmd w)
      | CHECK_TRANSACTION_SIGNATURE_COMMAND \<Rightarrow> returning (check_tx_signature P e cmd w)
      | GET_CHALLENGE \<Rightarrow> returning (get_challenge_handler e w)
      | SEND_TRUSTED_NAME_DESCRIPTOR \<Rightarrow> returning (trusted_name_descriptor_handler P e cmd w)
      | CHECK_PAYOUT_ADDRESS \<Rightarrow> check_addresses_and_amounts P e cmd w
      | CHECK_ASSET_IN_AND_DISPLAY \<Rightarrow> check_addresses_and_amounts P e cmd w
      | CHECK_ASSET_IN_NO_DISPLAY \<Rightarrow> check_addresses_and_amounts P e cmd w
      | CHECK_REFUND_ADDRESS_AND_DISPLAY \<Rightarrow> check_addresses_and_amounts P e cmd w
      | CHECK_REFUND_ADDRESS_NO_DISPLAY \<Rightarrow> check_addresses_and_amounts P e cmd w
      | PROMPT_UI_DISPLAY \<Rightarrow> returning (prompt_ui_display P e cmd w)
      | START_SIGNING_TRANSACTION \<Rightarrow> start_signing_transaction e cmd w)"

text \<open>What comes after: the next command, a new turn of the outer loop, or the end of the program.\<close>

datatype continuation = Next_command | New_cycle | Exit

text \<open>The handlers of the exceptions in \<open>main\<close>.\<close>

fun catch_exception :: "outside \<Rightarrow> exn \<Rightarrow> world \<Rightarrow> continuation \<times> world" where
  "catch_exception e SWO_SEC_APP_14 w = (New_cycle, snd (instant_reply_error e APPLICATION_NOT_INSTALLED w))"
| "catch_exception e EXCEPTION_IO_RESET w = (New_cycle, w)"
| "catch_exception e OTHER_EXCEPTION w = (Exit, w)"

text \<open>One turn of the loop of \<open>app_main\<close>, once \<open>apdu_length\<close> bytes have been received.\<close>

definition app_main_turn :: "platform \<Rightarrow> outside \<Rightarrow> mem \<Rightarrow> nat \<Rightarrow> world \<Rightarrow> continuation \<times> world" where
  "app_main_turn P e apdu apdu_length w =
     (case check_apdu_validity apdu apdu_length w of
        (Inl err, w) \<Rightarrow> (Next_command, snd (reply_error e err w))
      | (Inr cmd, w) \<Rightarrow>
          case dispatch_command P e cmd w of
            (Threw x, w) \<Rightarrow> catch_exception e x w
          | (Returned ret, w) \<Rightarrow>
              if ret < 0 then (New_cycle, w\<lparr>ctx := zero_context\<rparr>)
              else if ctx_state (ctx w) = SIGN_FINISHED then (New_cycle, w)
              else (Next_command, w))"

section \<open>The outer loop\<close>

text \<open>
  The beginning of a turn of the loop of \<open>main\<close>: the globals are cleared after a signature, of which
  only the data of the cycle are kept; then comes the first page, and a new challenge.
\<close>

definition reset_BSS :: "world \<Rightarrow> world" where
  "reset_BSS w =
     (if ctx_state (ctx w) = SIGN_FINISHED then
        let tmp = (previous_cycle w)\<lparr>had_previous_cycle := True\<rparr>
        in (with_globals zero_globals w)\<lparr>previous_cycle := tmp\<rparr>
      else w)"

definition first_page :: "world \<Rightarrow> world" where
  "first_page w =
     (if had_previous_cycle (previous_cycle w) then
        let w = w\<lparr>previous_cycle := (previous_cycle w)\<lparr>had_previous_cycle := False\<rparr>\<rparr> in
        if was_successful (previous_cycle w) then display_signing_success w
        else display_signing_failure (appname_last_cycle (previous_cycle w)) w
      else ui_idle w)"

definition new_cycle :: "platform \<Rightarrow> outside \<Rightarrow> world \<Rightarrow> world" where
  "new_cycle P e w = roll_challenge P e (first_page (reset_BSS w))"

definition boot :: "platform \<Rightarrow> outside \<Rightarrow> world" where
  "boot P e = new_cycle P e (with_globals zero_globals (world_in INITIAL_STATE SWAP))"

section \<open>Events\<close>

text \<open>The button of the home page: it calls \<open>os_sched_exit\<close>, after which there is no world.\<close>

definition app_quit :: "world \<Rightarrow> world option" where
  "app_quit w = None"

datatype event =
    Received_apdu mem nat
  | Reception_failed
  | Raised exn
  | Warning_choice bool
  | Review_choice bool
  | Page_closed
  | Quit_chosen

fun step :: "platform \<Rightarrow> outside \<Rightarrow> event \<Rightarrow> world \<Rightarrow> world option" where
  "step P e (Received_apdu apdu n) w =
     (case app_main_turn P e apdu n w of
        (Next_command, w) \<Rightarrow> Some w
      | (New_cycle, w) \<Rightarrow> Some (new_cycle P e w)
      | (Exit, w) \<Rightarrow> None)"
| "step P e Reception_failed w = Some (new_cycle P e (w\<lparr>ctx := zero_context\<rparr>))"
| "step P e (Raised x) w =
     (case catch_exception e x w of
        (Next_command, w) \<Rightarrow> Some w
      | (New_cycle, w) \<Rightarrow> Some (new_cycle P e w)
      | (Exit, w) \<Rightarrow> None)"
| "step P e (Warning_choice b) w = Some (on_warning_choice e b w)"
| "step P e (Review_choice b) w = Some (review_choice P e b w)"
| "step P e Page_closed w = Some (ui_idle w)"
| "step P e Quit_chosen w = app_quit w"

text \<open>
  When an event can happen: the choices only on their page, a status page can be closed, and a
  reception fits the buffer; the program is left from the home page.
\<close>

fun possible :: "event \<Rightarrow> world \<Rightarrow> bool" where
  "possible (Received_apdu apdu n) w \<longleftrightarrow> n \<le> length apdu"
| "possible (Warning_choice b) w \<longleftrightarrow> screen w = Cross_seed_warning"
| "possible (Review_choice b) w \<longleftrightarrow> screen w = Review"
| "possible Page_closed w \<longleftrightarrow>
     (case screen w of Transaction_rejected \<Rightarrow> True | Transaction_signed \<Rightarrow> True | Signing_failure t \<Rightarrow> True
      | _ \<Rightarrow> False)"
| "possible Quit_chosen w \<longleftrightarrow> screen w = Home"
| "possible (Raised x) w \<longleftrightarrow> x \<noteq> SWO_SEC_APP_14"
| "possible Reception_failed w \<longleftrightarrow> True"

text \<open>
  A history is the list of the events so far, the last one first, each with what the outside did
  and the world in which it found the program.
\<close>

type_synonym history = "(outside \<times> event \<times> world) list"

inductive reaches :: "platform \<Rightarrow> history \<Rightarrow> world \<Rightarrow> bool" for P where
  booted: "reaches P [] (boot P e)"
| stepped: "reaches P h w \<Longrightarrow> possible ev w \<Longrightarrow> libs_keep_globals e \<Longrightarrow> libs_keep_sizes e \<Longrightarrow>
    step P e ev w = Some w' \<Longrightarrow> reaches P ((e, ev, w) # h) w'"

inductive_cases reaches_Nil: "reaches P [] w"
inductive_cases reaches_Cons: "reaches P (x # h) w"

end
