(* ===== verification/Protocol.thy ===== *)
theory Protocol
  imports Main_Loop
begin

text \<open>
  What the dispatcher, a turn of the loop and a cycle of the program keep: every command is answered
  at most once and leads only to the states of its handler, the reassembly of commands and the sizes
  of the members are preserved, and the pages that wait for the user are up only in the state that
  waits for him. The last section is the invariant of every reachable world.
\<close>

section \<open>The contract of the dispatcher\<close>

text \<open>The states a command may lead to.\<close>

fun goal_states :: "command_e \<Rightarrow> state_e set" where
  "goal_states GET_VERSION_COMMAND = {}"
| "goal_states START_NEW_TRANSACTION_COMMAND = {INITIAL_STATE, WAITING_TRANSACTION}"
| "goal_states SET_PARTNER_KEY_COMMAND = {PROVIDER_SET}"
| "goal_states CHECK_PARTNER_COMMAND = {PROVIDER_CHECKED}"
| "goal_states PROCESS_TRANSACTION_RESPONSE_COMMAND = {TRANSACTION_RECEIVED}"
| "goal_states CHECK_TRANSACTION_SIGNATURE_COMMAND = {SIGNATURE_CHECKED}"
| "goal_states GET_CHALLENGE = {}"
| "goal_states SEND_TRUSTED_NAME_DESCRIPTOR = {}"
| "goal_states CHECK_PAYOUT_ADDRESS = {PAYOUT_ADDRESS_CHECKED}"
| "goal_states CHECK_ASSET_IN_AND_DISPLAY = {WAITING_USER_VALIDATION}"
| "goal_states CHECK_ASSET_IN_NO_DISPLAY = {ALL_ADDRESSES_CHECKED}"
| "goal_states CHECK_REFUND_ADDRESS_AND_DISPLAY = {WAITING_USER_VALIDATION}"
| "goal_states CHECK_REFUND_ADDRESS_NO_DISPLAY = {ALL_ADDRESSES_CHECKED}"
| "goal_states PROMPT_UI_DISPLAY = {WAITING_USER_VALIDATION}"
| "goal_states START_SIGNING_TRANSACTION = {SIGN_FINISHED}"

text \<open>What is known of a command when it is dispatched.\<close>

definition servable :: "outside \<Rightarrow> command_t \<Rightarrow> world \<Rightarrow> bool" where
  "servable e cmd w \<longleftrightarrow>
     data_ok cmd (ctx w) \<and> unat (cmd_data_size cmd) < 65535 \<and> ctx_sizes (ctx w) \<and>
     accepts (cmd_ins cmd) (cmd_subcommand cmd) (ctx w) \<and> libs_keep_globals e \<and> libs_keep_sizes e"

abbreviation check_commands :: "command_e set" where
  "check_commands \<equiv> {CHECK_PAYOUT_ADDRESS, CHECK_ASSET_IN_AND_DISPLAY, CHECK_ASSET_IN_NO_DISPLAY,
     CHECK_REFUND_ADDRESS_AND_DISPLAY, CHECK_REFUND_ADDRESS_NO_DISPLAY}"

lemma dispatch_check:
  "cmd_ins cmd \<in> check_commands \<Longrightarrow> dispatch_command P e cmd w = check_addresses_and_amounts P e cmd w"
  by auto

lemma check_goal: "i \<in> check_commands \<Longrightarrow> goal_states i = {checked_state i}"
  by auto

lemma servable_trusted: "servable e cmd w \<Longrightarrow> cmd_ins cmd = SEND_TRUSTED_NAME_DESCRIPTOR \<Longrightarrow> swap_based (ctx_subcommand (ctx w))"
  by (auto simp: servable_def accepts_def flow_allows_def flowless_def)

lemmas plain_handler_defs = get_version_handler_def get_challenge_handler_def reply_defs

interpretation version_handler: handler "\<lambda>e cmd w. returning (get_version_handler P e w)" "{}" "\<lambda>_ _ _. True" for P
  by unfold_locales (auto simp: plain_handler_defs split: prod.splits if_splits)

interpretation challenge_handler: handler "\<lambda>e cmd w. returning (get_challenge_handler e w)" "{}" "\<lambda>_ _ _. True"
  by unfold_locales (auto simp: plain_handler_defs split: prod.splits if_splits)

lemma dispatch_contract:
  assumes ok: "servable e cmd w" and run: "dispatch_command P e cmd w = (r, w')"
  shows "(\<exists>rs. sent w' = sent w @ rs \<and> length rs \<le> 1) \<and> ctx_sizes (ctx w') \<and>
    (ctx_state (ctx w') = ctx_state (ctx w) \<or> ctx_state (ctx w') \<in> goal_states (cmd_ins cmd))"
proof -
  have size: "ctx_sizes (ctx w)" using ok by (simp add: servable_def)
  have checks: ?thesis if i: "cmd_ins cmd \<in> check_commands"
  proof -
    have run: "check_addresses_and_amounts P e cmd w = (r, w')" using run dispatch_check [OF i] by simp
    have pre: "data_ok cmd (ctx w) \<and> unat (cmd_data_size cmd) < 65535 \<and> libs_keep_globals e"
      using ok by (simp add: servable_def)
    show ?thesis
      using check_handler.replies [OF pre run] check_handler.sizes [OF pre run size]
        check_moved [OF run _ _ _ _ size] pre check_goal [OF i] by fastforce
  qed
  show ?thesis
  proof (cases "cmd_ins cmd")
    case GET_VERSION_COMMAND
    with run have "returning (get_version_handler P e w) = (r, w')" by simp
    from version_handler.replies [OF TrueI this] version_handler.sizes [OF TrueI this size]
      version_handler.moves [OF TrueI this] show ?thesis by blast
  next
    case START_NEW_TRANSACTION_COMMAND
    with run have "returning (start_new_transaction P e cmd w) = (r, w')" by simp
    from start_handler.replies [OF TrueI this] start_handler.sizes [OF TrueI this size]
      start_handler.moves [OF TrueI this] START_NEW_TRANSACTION_COMMAND show ?thesis by simp
  next
    case SET_PARTNER_KEY_COMMAND
    with run have r: "returning (set_partner_key P e cmd w) = (r, w')" by simp
    have pre: "data_ok cmd (ctx w)" using ok by (simp add: servable_def)
    from set_partner_handler.replies [OF pre r] set_partner_handler.sizes [OF pre r size]
      set_partner_handler.moves [OF pre r] SET_PARTNER_KEY_COMMAND show ?thesis by simp
  next
    case CHECK_PARTNER_COMMAND
    with run have r: "returning (check_partner P e cmd w) = (r, w')" by simp
    from check_partner_handler.replies [OF TrueI r] check_partner_handler.sizes [OF TrueI r size]
      check_partner_handler.moves [OF TrueI r] CHECK_PARTNER_COMMAND show ?thesis by simp
  next
    case PROCESS_TRANSACTION_RESPONSE_COMMAND
    with run have r: "returning (process_transaction P e cmd w) = (r, w')" by simp
    have pre: "data_ok cmd (ctx w) \<and> ctx_sizes (ctx w)" using ok by (simp add: servable_def)
    from process_handler.replies [OF pre r] process_handler.sizes [OF pre r size]
      process_handler.moves [OF pre r] PROCESS_TRANSACTION_RESPONSE_COMMAND show ?thesis by simp
  next
    case CHECK_TRANSACTION_SIGNATURE_COMMAND
    with run have r: "returning (check_tx_signature P e cmd w) = (r, w')" by simp
    from tx_signature_handler.replies [OF TrueI r] tx_signature_handler.sizes [OF TrueI r size]
      tx_signature_handler.moves [OF TrueI r] CHECK_TRANSACTION_SIGNATURE_COMMAND show ?thesis by simp
  next
    case GET_CHALLENGE
    with run have "returning (get_challenge_handler e w) = (r, w')" by simp
    from challenge_handler.replies [OF TrueI this] challenge_handler.sizes [OF TrueI this size]
      challenge_handler.moves [OF TrueI this] show ?thesis by blast
  next
    case SEND_TRUSTED_NAME_DESCRIPTOR
    with run have r: "returning (trusted_name_descriptor_handler P e cmd w) = (r, w')" by simp
    note pre = servable_trusted [OF ok SEND_TRUSTED_NAME_DESCRIPTOR]
    from trusted_name_handler.replies [OF pre r] trusted_name_handler.sizes [OF pre r size]
      trusted_name_handler.moves [OF pre r] show ?thesis by blast
  next
    case PROMPT_UI_DISPLAY
    with run have r: "returning (prompt_ui_display P e cmd w) = (r, w')" by simp
    from prompt_handler.replies [OF TrueI r] prompt_handler.sizes [OF TrueI r size]
      prompt_handler.moves [OF TrueI r] PROMPT_UI_DISPLAY show ?thesis by simp
  next
    case START_SIGNING_TRANSACTION
    with run have r: "start_signing_transaction e cmd w = (r, w')" by simp
    have pre: "libs_keep_sizes e" using ok by (simp add: servable_def)
    from signing_handler.replies [OF pre r] signing_handler.sizes [OF pre r size]
      signing_handler.moves [OF pre r] START_SIGNING_TRANSACTION show ?thesis by simp
  qed (use checks in simp_all)
qed

interpretation dispatch_handler: handler "dispatch_command P" "goal_states i"
  "\<lambda>e cmd w. servable e cmd w \<and> cmd_ins cmd = i" for P i
  using dispatch_contract by unfold_locales blast+

section \<open>What a command leaves alone\<close>

text \<open>
  No handler touches the reassembly data, and the pages that wait for the user are put up only with
  the state that waits for him; the signing library alone may write over anything.
\<close>

definition quiet :: "world \<Rightarrow> world \<Rightarrow> bool" where
  "quiet w w' \<longleftrightarrow> received_apdu w' = received_apdu w \<and> challenge w' = challenge w \<and>
     previous_cycle w' = previous_cycle w \<and> screen w' = screen w"

definition page_kept :: "world \<Rightarrow> world \<Rightarrow> bool" where
  "page_kept w w' \<longleftrightarrow>
     screen w' = screen w \<or> screen w' \<in> {Home, Screen_off} \<or> ctx_state (ctx w') = WAITING_USER_VALIDATION"

lemma quiet_refl [simp]: "quiet w w" by (simp add: quiet_def)

lemma quiet_page: "quiet w w' \<Longrightarrow> page_kept w w'" by (simp add: quiet_def page_kept_def)

lemma plain_frames:
  "get_version_handler P e w = (r, w') \<Longrightarrow> quiet w w'"
  "set_partner_key P e cmd w = (r, w') \<Longrightarrow> quiet w w'"
  "check_partner P e cmd w = (r, w') \<Longrightarrow> quiet w w'"
  "process_transaction P e cmd w = (r, w') \<Longrightarrow> quiet w w'"
  "check_tx_signature P e cmd w = (r, w') \<Longrightarrow> quiet w w'"
  "get_challenge_handler e w = (r, w') \<Longrightarrow> quiet w w'"
  by (auto simp: quiet_def plain_handler_defs partner_handler_defs process_transaction_def signature_handler_defs
      split: prod.splits sum.splits option.splits if_splits)

lemma start_frame:
  assumes "start_new_transaction P e cmd w = (r, w')"
  shows "received_apdu w' = received_apdu w" and "page_kept w w'"
  using assms by (auto simp: start_defs page_kept_def split: option.splits if_splits)

lemma trusted_frame:
  assumes "trusted_name_descriptor_handler P e cmd w = (r, w')"
  shows "received_apdu w' = received_apdu w" and "page_kept w w'"
  using trusted_name_world [OF assms] by (auto simp: page_kept_def)

lemma check_frame:
  assumes run: "check_addresses_and_amounts P e cmd w = (r, w')" and ok: "servable e cmd w"
  shows "received_apdu w' = received_apdu w" and "page_kept w w'"
proof -
  obtain r1 w1 where steps: "check_addresses_and_amounts_steps P e cmd w = (r1, w1)" by fastforce
  have "only_checked w w1" using steps_only_checked [OF _ _ _ steps] ok by (simp add: servable_def)
  note f = only_checked_frame [OF this]
  have "received_apdu w' = received_apdu w \<and> page_kept w w'"
    using run steps by (cases rule: check_outcome) (use f in \<open>auto simp: page_kept_def\<close>)
  then show "received_apdu w' = received_apdu w" "page_kept w w'" by blast+
qed

lemma dispatch_frame:
  assumes ok: "servable e cmd w" and run: "dispatch_command P e cmd w = (r, w')"
  shows "(received_apdu w' = received_apdu w \<or>
      cmd_ins cmd = START_SIGNING_TRANSACTION \<and> r = Returned 0 \<and> ctx_state (ctx w') = SIGN_FINISHED) \<and> page_kept w w'"
proof -
  have checks: ?thesis if "cmd_ins cmd \<in> check_commands"
    using check_frame [OF _ ok] run dispatch_check [OF that] by simp
  show ?thesis
  proof (cases "cmd_ins cmd")
    case START_NEW_TRANSACTION_COMMAND
    with run start_frame [of P e cmd w] show ?thesis
      by (cases "start_new_transaction P e cmd w") simp
  next
    case SEND_TRUSTED_NAME_DESCRIPTOR
    with run trusted_frame [of P e cmd w] show ?thesis
      by (cases "trusted_name_descriptor_handler P e cmd w") simp
  next
    case PROMPT_UI_DISPLAY
    with run show ?thesis by (auto simp: prompt_ui_display_def page_kept_def)
  next
    case START_SIGNING_TRANSACTION
    with run have "start_signing_transaction e cmd w = (r, w')" by simp
    with START_SIGNING_TRANSACTION show ?thesis
      by (cases rule: start_signing_cases [of e cmd w]) (auto simp: page_kept_def)
  next
    case GET_VERSION_COMMAND
    with run plain_frames(1) [of P e w] show ?thesis
      by (cases "get_version_handler P e w") (auto simp: quiet_page, simp add: quiet_def)
  next
    case SET_PARTNER_KEY_COMMAND
    with run plain_frames(2) [of P e cmd w] show ?thesis
      by (cases "set_partner_key P e cmd w") (auto simp: quiet_page, simp add: quiet_def)
  next
    case CHECK_PARTNER_COMMAND
    with run plain_frames(3) [of P e cmd w] show ?thesis
      by (cases "check_partner P e cmd w") (auto simp: quiet_page, simp add: quiet_def)
  next
    case PROCESS_TRANSACTION_RESPONSE_COMMAND
    with run plain_frames(4) [of P e cmd w] show ?thesis
      by (cases "process_transaction P e cmd w") (auto simp: quiet_page, simp add: quiet_def)
  next
    case CHECK_TRANSACTION_SIGNATURE_COMMAND
    with run plain_frames(5) [of P e cmd w] show ?thesis
      by (cases "check_tx_signature P e cmd w") (auto simp: quiet_page, simp add: quiet_def)
  next
    case GET_CHALLENGE
    with run plain_frames(6) [of e w] show ?thesis
      by (cases "get_challenge_handler e w") (auto simp: quiet_page, simp add: quiet_def)
  qed (use checks in simp_all)
qed

section \<open>A turn of the loop\<close>

text \<open>What holds between two events.\<close>

definition resting :: "world \<Rightarrow> bool" where
  "resting w \<longleftrightarrow>
     ctx_sizes (ctx w) \<and> reception_ok w \<and> ctx_state (ctx w) \<noteq> SIGN_FINISHED \<and>
     (screen w = Review \<or> screen w = Cross_seed_warning \<longrightarrow> ctx_state (ctx w) = WAITING_USER_VALIDATION)"

lemma received_ctx:
  assumes "check_apdu_validity apdu n w = (res, w1)" and "n \<le> length apdu" and "resting w"
  shows "\<exists>t. ctx w1 = (ctx w)\<lparr>tx := t\<rparr> \<and> length t = sizeof_tx \<and>
      (t = tx (ctx w) \<or> ctx_state (ctx w) = PROVIDER_CHECKED)"
    and "ctx_sizes (ctx w1)" and "reception_ok w1"
    and "screen w1 = screen w" "sent w1 = sent w" "challenge w1 = challenge w" "previous_cycle w1 = previous_cycle w"
    and "review_pairs w1 = review_pairs w" "review_title_string w1 = review_title_string w"
      "review_confirm_string w1 = review_confirm_string w"
proof -
  have ok: "reception_ok w" and size: "ctx_sizes (ctx w)" using assms(3) by (simp_all add: resting_def)
  from validity_frame [OF assms(1,2) ok] obtain t a where
    w1: "w1 = w\<lparr>ctx := (ctx w)\<lparr>tx := t\<rparr>, received_apdu := a\<rparr>" and r: "reception_ok w1"
    and t: "t = tx (ctx w) \<or> ctx_state (ctx w) = PROVIDER_CHECKED" by blast
  have len: "length t = sizeof_tx" using r by (simp add: w1 reception_ok_def)
  show "\<exists>t. ctx w1 = (ctx w)\<lparr>tx := t\<rparr> \<and> length t = sizeof_tx \<and> (t = tx (ctx w) \<or> ctx_state (ctx w) = PROVIDER_CHECKED)"
    using t len by (auto simp: w1)
  show "ctx_sizes (ctx w1)" using size len by (simp add: w1 ctx_sizes_def)
  show "reception_ok w1" by (rule r)
  show "screen w1 = screen w" "sent w1 = sent w" "challenge w1 = challenge w" "previous_cycle w1 = previous_cycle w"
    "review_pairs w1 = review_pairs w" "review_title_string w1 = review_title_string w"
    "review_confirm_string w1 = review_confirm_string w"
    by (simp_all add: w1)
qed

lemma delivered_servable:
  assumes v: "check_apdu_validity apdu n w = (Inr cmd, w1)" and n: "n \<le> length apdu" and w: "resting w"
    and libs: "libs_keep_globals e" "libs_keep_sizes e"
  shows "servable e cmd w1" and "\<not> expecting_more (received_apdu w1)"
proof -
  have ok: "reception_ok w" using w by (simp add: resting_def)
  note d = validity_delivers [OF v n ok]
  from received_ctx(1) [OF v n w] obtain t where "ctx w1 = (ctx w)\<lparr>tx := t\<rparr>" by blast
  with d have "accepts (cmd_ins cmd) (cmd_subcommand cmd) (ctx w1)" by (simp add: accepts_def)
  with d received_ctx(2) [OF v n w] libs validity_data_size [OF v n ok] show "servable e cmd w1"
    by (simp add: servable_def sizeof_raw_transaction_def)
  show "\<not> expecting_more (received_apdu w1)" using d by blast
qed

lemma turn_cases:
  assumes run: "app_main_turn P e apdu n w = (k, w')" and w: "resting w" and n: "n \<le> length apdu"
    and libs: "libs_keep_globals e" "libs_keep_sizes e"
  obtains (refused) err w1 where "check_apdu_validity apdu n w = (Inl err, w1)" "k = Next_command"
      "w' = w1\<lparr>sent := sent w1 @ [([], status_word err)]\<rparr>"
  | (served) cmd w1 v w2 where "check_apdu_validity apdu n w = (Inr cmd, w1)" "servable e cmd w1"
      "dispatch_command P e cmd w1 = (Returned v, w2)" "0 \<le> v" "ctx_state (ctx w2) \<noteq> SIGN_FINISHED"
      "k = Next_command" "w' = w2"
  | (signed) cmd w1 v w2 where "check_apdu_validity apdu n w = (Inr cmd, w1)" "servable e cmd w1"
      "dispatch_command P e cmd w1 = (Returned v, w2)" "0 \<le> v" "ctx_state (ctx w2) = SIGN_FINISHED"
      "k = New_cycle" "w' = w2"
  | (failed) cmd w1 v w2 where "check_apdu_validity apdu n w = (Inr cmd, w1)" "servable e cmd w1"
      "dispatch_command P e cmd w1 = (Returned v, w2)" "v < 0" "k = New_cycle" "w' = w2\<lparr>ctx := zero_context\<rparr>"
  | (thrown) cmd w1 x w2 where "check_apdu_validity apdu n w = (Inr cmd, w1)" "servable e cmd w1"
      "dispatch_command P e cmd w1 = (Threw x, w2)" "catch_exception e x w2 = (k, w')"
proof -
  obtain res w1 where v: "check_apdu_validity apdu n w = (res, w1)" by fastforce
  show thesis
  proof (cases res)
    case (Inl err)
    with run v show thesis by (intro refused) (auto simp: app_main_turn_def reply_defs)
  next
    case (Inr cmd)
    note ok = delivered_servable(1) [OF v [unfolded Inr] n w libs]
    obtain r w2 where d: "dispatch_command P e cmd w1 = (r, w2)" by fastforce
    show thesis
    proof (cases r)
      case (Threw x)
      show thesis
        by (rule thrown [OF v [unfolded Inr] ok d [unfolded Threw]])
           (use run v d in \<open>simp add: app_main_turn_def Inr Threw del: dispatch_command.simps\<close>)
    next
      case (Returned ret)
      have turn: "(k, w') = (if ret < 0 then (New_cycle, w2\<lparr>ctx := zero_context\<rparr>)
          else if ctx_state (ctx w2) = SIGN_FINISHED then (New_cycle, w2) else (Next_command, w2))"
        using run v d by (simp add: app_main_turn_def Inr Returned del: dispatch_command.simps)
      note d = d [unfolded Returned]
      from turn show thesis
        using failed [OF v [unfolded Inr] ok d] signed [OF v [unfolded Inr] ok d] served [OF v [unfolded Inr] ok d]
        by (auto split: if_splits)
    qed
  qed
qed

text \<open>What an exception finds: the context as it was, but for what the check had already written.\<close>

lemma dispatch_threw:
  assumes ok: "servable e cmd w" and run: "dispatch_command P e cmd w = (Threw x, w')"
  shows "unchecked_part (ctx w') = unchecked_part (ctx w) \<and> ctx_sizes (ctx w') \<and> received_apdu w' = received_apdu w \<and>
    (cmd_ins cmd \<in> check_commands \<and> sent w' = sent w \<and> screen w' = screen w \<or>
     cmd_ins cmd = START_SIGNING_TRANSACTION \<and> length (sent w') = Suc (length (sent w)) \<and> screen w' = Screen_off \<and>
     ctx w' = ctx w)"
proof (cases "cmd_ins cmd \<in> check_commands")
  case True
  with run have run: "check_addresses_and_amounts P e cmd w = (Threw x, w')" using dispatch_check by simp
  obtain r1 w1 where steps: "check_addresses_and_amounts_steps P e cmd w = (r1, w1)" by fastforce
  have "only_checked w w1" using steps_only_checked [OF _ _ _ steps] ok by (simp add: servable_def)
  note f = only_checked_frame [OF this]
  have "w' = w1"
    using run steps
    by (auto simp: check_addresses_and_amounts_def returning_def split: sum.splits fault.splits if_splits prod.splits)
  with f True ok show ?thesis by (simp add: servable_def)
next
  case False
  then have "cmd_ins cmd = START_SIGNING_TRANSACTION"
    using run by (cases "cmd_ins cmd") auto
  with run have "start_signing_transaction e cmd w = (Threw x, w')" by simp
  with \<open>cmd_ins cmd = START_SIGNING_TRANSACTION\<close> ok show ?thesis
    by (cases rule: start_signing_cases [of e cmd w]) (auto simp: servable_def)
qed

lemma catch_world:
  assumes "catch_exception e x w = (k, w')"
  shows "ctx w' = ctx w" "received_apdu w' = received_apdu w" "screen w' = screen w" "k \<noteq> Next_command"
    "\<exists>rs. sent w' = sent w @ rs \<and> length rs \<le> 1" "k = New_cycle \<Longrightarrow> x = SWO_SEC_APP_14 \<or> x = EXCEPTION_IO_RESET"
  using assms by (cases x; auto simp: reply_defs)+

section \<open>A new cycle\<close>

lemma zero_globals_received [simp]: "received_apdu (with_globals g w) = received_apdu g"
  by (simp add: with_globals_def)

lemma new_cycle_world:
  "ctx (new_cycle P e w) = (if ctx_state (ctx w) = SIGN_FINISHED then zero_context else ctx w)"
  "received_apdu (new_cycle P e w) = (if ctx_state (ctx w) = SIGN_FINISHED then zero_apdu else received_apdu w)"
  "sent (new_cycle P e w) = sent w"
  "screen (new_cycle P e w) \<noteq> Review" "screen (new_cycle P e w) \<noteq> Cross_seed_warning"
  by (simp_all add: new_cycle_def roll_challenge_def first_page_def reset_BSS_def ui_idle_def display_signing_success_def
      display_signing_failure_def zero_globals_def Let_def)

lemma zero_context_rest:
  "ctx_sizes zero_context" "ctx_state zero_context = INITIAL_STATE" "length (tx zero_context) = sizeof_tx"
  by (rule zero_context_sizes) (simp_all add: zero_context_def)

lemma new_cycle_resting:
  assumes "ctx_sizes (ctx w)" and "reception_ok w \<or> ctx_state (ctx w) = SIGN_FINISHED"
  shows "resting (new_cycle P e w)"
  using assms zero_context_rest
  by (auto simp: resting_def new_cycle_world reception_ok_def zero_apdu_def ctx_sizes_def)

lemma boot_resting: "resting (boot P e)"
  unfolding boot_def
  by (rule new_cycle_resting) (simp_all add: zero_globals_def reception_ok_def zero_apdu_def zero_context_rest)

lemma new_cycle_zero: "reception_ok w \<Longrightarrow> resting (new_cycle P e (w\<lparr>ctx := zero_context\<rparr>))"
  using zero_context_rest by (intro new_cycle_resting) (auto simp: reception_ok_def)

lemma sizes_reception:
  "ctx_sizes (ctx w) \<Longrightarrow> \<not> expecting_more (received_apdu w) \<Longrightarrow> reception_ok w"
  by (simp add: reception_ok_def ctx_sizes_def)

lemma turn_resting:
  assumes run: "app_main_turn P e apdu n w = (k, w')" and w: "resting w" and n: "n \<le> length apdu"
    and libs: "libs_keep_globals e" "libs_keep_sizes e"
  shows "k = Next_command \<Longrightarrow> resting w'" and "k = New_cycle \<Longrightarrow> resting (new_cycle P e w')"
proof -
  have "(k = Next_command \<longrightarrow> resting w') \<and> (k = New_cycle \<longrightarrow> resting (new_cycle P e w'))"
    using assms
  proof (cases rule: turn_cases)
    case (refused err w1)
    note r = received_ctx [OF refused(1) n w]
    from r(1) obtain t where "ctx w1 = (ctx w)\<lparr>tx := t\<rparr>" by blast
    with r w refused show ?thesis by (simp add: resting_def reception_ok_def)
  next
    case (served cmd w1 v w2)
    note r = received_ctx [OF served(1) n w] and more = delivered_servable(2) [OF served(1) n w libs]
    note c = dispatch_contract [OF served(2,3)] and f = dispatch_frame [OF served(2,3)]
    have "ctx_state (ctx w1) \<noteq> WAITING_USER_VALIDATION"
      using served(2) by (cases "cmd_ins cmd") (auto simp: servable_def accepts_def)
    moreover have "ctx_state (ctx w1) = ctx_state (ctx w)" using r(1) by auto
    moreover have "received_apdu w2 = received_apdu w1" using f served(5) by blast
    ultimately show ?thesis
      using c f r(4) served more w sizes_reception [of w2] by (auto simp: resting_def page_kept_def)
  next
    case (signed cmd w1 v w2)
    with dispatch_contract [OF signed(2,3)] new_cycle_resting [of w2] show ?thesis by simp
  next
    case (failed cmd w1 v w2)
    note more = delivered_servable(2) [OF failed(1) n w libs] and f = dispatch_frame [OF failed(2,3)]
    have "resting (new_cycle P e (w2\<lparr>ctx := zero_context\<rparr>))" if "received_apdu w2 = received_apdu w1"
      using that more zero_context_rest by (intro new_cycle_resting) (simp_all add: reception_ok_def)
    moreover have "received_apdu w2 = received_apdu w1"
      using f failed(4) by simp
    ultimately show ?thesis using failed by simp
  next
    case (thrown cmd w1 x w2)
    note t = dispatch_threw [OF thrown(2,3)] and c = catch_world [OF thrown(4)]
    have "reception_ok w'" using t c(1,2) delivered_servable(2) [OF thrown(1) n w libs]
      by (intro sizes_reception) simp_all
    with t c new_cycle_resting [of w'] show ?thesis by simp
  qed
  then show "k = Next_command \<Longrightarrow> resting w'" and "k = New_cycle \<Longrightarrow> resting (new_cycle P e w')" by blast+
qed

lemma refusal_world:
  "ctx (handle_refusal e err w) = (ctx w)\<lparr>ctx_state := INITIAL_STATE\<rparr>"
  "received_apdu (handle_refusal e err w) = received_apdu w" "screen (handle_refusal e err w) = Transaction_rejected"
  "sent (handle_refusal e err w) = sent w @ [([], status_word err)]"
  by (simp_all add: handle_refusal_def reply_defs Let_def)

lemma review_choice_world:
  "ctx (review_choice P e b w) = (ctx w)\<lparr>ctx_state := (if b then WAITING_SIGNING else INITIAL_STATE)\<rparr>"
  "received_apdu (review_choice P e b w) = received_apdu w"
  "screen (review_choice P e b w) = (if b then Spinner else Transaction_rejected)"
  by (simp_all add: review_choice_def refusal_world reply_defs Let_def)

lemma step_resting:
  assumes st: "step P e ev w = Some w'" and w: "resting w" and ev: "possible ev w"
    and libs: "libs_keep_globals e" "libs_keep_sizes e"
  shows "resting w'"
proof (cases ev)
  case (Received_apdu apdu n)
  with ev have n: "n \<le> length apdu" by simp
  obtain k w1 where run: "app_main_turn P e apdu n w = (k, w1)" by fastforce
  with st Received_apdu turn_resting [OF run w n libs] show ?thesis by (cases k) auto
next
  case Reception_failed
  with st w new_cycle_zero show ?thesis by (auto simp: resting_def)
next
  case (Raised x)
  obtain k w1 where c: "catch_exception e x w = (k, w1)" by fastforce
  note f = catch_world [OF c]
  have "resting (new_cycle P e w1)"
    using w f by (intro new_cycle_resting) (auto simp: resting_def reception_ok_def)
  with st Raised c f(4) show ?thesis by (cases k) auto
next
  case (Warning_choice b)
  with st w ev show ?thesis
    by (cases b) (auto simp: on_warning_choice_def resting_def refusal_world reception_ok_def ctx_sizes_def)
next
  case (Review_choice b)
  with st have "w' = review_choice P e b w" by simp
  with w show ?thesis
    by (cases b) (simp_all add: resting_def review_choice_world reception_ok_def ctx_sizes_def)
next
  case Page_closed
  with st w show ?thesis by (auto simp: ui_idle_def resting_def reception_ok_def)
qed (use st in \<open>simp add: app_quit_def\<close>)

lemma reaches_resting: "reaches P h w \<Longrightarrow> resting w"
proof (induction rule: reaches.induct)
  case (booted e)
  show ?case by (rule boot_resting)
next
  case (stepped h w ev e w')
  then show ?case using step_resting by blast
qed

end
