(* ===== verification/Automaton.thy ===== *)
theory Automaton
  imports Protocol
begin

text \<open>
  The protocol as an automaton, which the program refines: the states and the flow alone, and which
  command, choice or failure leads from where to where. The history of the program, seen through
  it, is a run of the automaton.
\<close>

section \<open>What a command keeps of the session\<close>

text \<open>The parts of the context that a group of commands writes, each with the commands that do.\<close>

definition flow_part :: "swap_app_context \<Rightarrow> subcommand_e \<times> public_key \<times> u8 list" where
  "flow_part c = (ctx_subcommand c, ledger_public_key c, device_transaction_id c)"

definition partner_part :: "swap_app_context \<Rightarrow> public_key \<times> mem" where
  "partner_part c = (partner_public_key c, partner_name c)"

definition digest_part :: "swap_app_context \<Rightarrow> u8 list \<times> u8 list \<times> mem \<times> u8" where
  "digest_part c = (sha256_digest_prefixed c, sha256_digest_no_prefix c, transaction_fee c, transaction_fee_length c)"

lemmas part_defs = flow_part_def partner_part_def digest_part_def

abbreviation closing_commands :: "command_e set" where
  "closing_commands \<equiv> {START_NEW_TRANSACTION_COMMAND, START_SIGNING_TRANSACTION}"

definition parts_kept :: "command_e \<Rightarrow> swap_app_context \<Rightarrow> swap_app_context \<Rightarrow> bool" where
  "parts_kept i c c' \<longleftrightarrow>
     flow_part c' = flow_part c \<and>
     (i \<noteq> SET_PARTNER_KEY_COMMAND \<longrightarrow> partner_part c' = partner_part c) \<and>
     (i \<noteq> SET_PARTNER_KEY_COMMAND \<and> i \<noteq> PROCESS_TRANSACTION_RESPONSE_COMMAND \<longrightarrow>
        digest_part c' = digest_part c \<and> (i \<noteq> SEND_TRUSTED_NAME_DESCRIPTOR \<longrightarrow> tx c' = tx c)) \<and>
     (i \<notin> check_commands \<longrightarrow> printable_get_amount c' = printable_get_amount c \<and>
        printable_send_amount c' = printable_send_amount c \<and> printable_fees_amount c' = printable_fees_amount c \<and>
        other_seed_payout c' = other_seed_payout c \<and> payin_binary_name c' = payin_binary_name c \<and>
        paying_sub_coin_config_size c' = paying_sub_coin_config_size c \<and>
        paying_sub_coin_config c' = paying_sub_coin_config c \<and> ctx_rate c' = ctx_rate c)"

lemma parts_kept_state: "parts_kept i c (c'\<lparr>ctx_state := s\<rparr>) \<longleftrightarrow> parts_kept i c c'"
  by (simp add: parts_kept_def part_defs)

lemma parts_kept_refl [simp]: "parts_kept i c c" "parts_kept i c (c\<lparr>ctx_state := s\<rparr>)"
  by (simp_all add: parts_kept_def part_defs)

lemma save_partner_parts: "parts_kept SET_PARTNER_KEY_COMMAND c (save_partner_name b c)"
  by (subst save_partner_name_only) (simp add: parts_kept_def part_defs)

lemma set_partner_parts:
  assumes "set_partner_key P e cmd w = (r, w')"
  shows "parts_kept SET_PARTNER_KEY_COMMAND (ctx w) (ctx w')"
proof -
  have more: "parts_kept SET_PARTNER_KEY_COMMAND (ctx w) (c\<lparr>partner_public_key := k\<rparr>)"
    "parts_kept SET_PARTNER_KEY_COMMAND (ctx w) (c\<lparr>sha256_digest_no_prefix := d\<rparr>)"
    if "parts_kept SET_PARTNER_KEY_COMMAND (ctx w) c" for c k d
    using that by (simp_all add: parts_kept_def part_defs)
  show ?thesis
    using assms save_partner_parts [of "ctx w"]
    by (auto simp: partner_handler_defs parts_kept_state intro!: more split: option.splits sum.splits if_splits)
qed

lemma process_parts:
  assumes "process_transaction P e cmd w = (r, w')"
  shows "parts_kept PROCESS_TRANSACTION_RESPONSE_COMMAND (ctx w) (ctx w')"
proof -
  obtain err c where run: "receive_transaction P e cmd (ctx w) = (err, c)" by fastforce
  have same: "f (session_part c) = f (session_part (ctx w))" for f :: "swap_app_context \<Rightarrow> 'a"
    using receive_transaction_frame [OF run] by simp
  have "parts_kept PROCESS_TRANSACTION_RESPONSE_COMMAND (ctx w) c"
    using same [of flow_part] same [of partner_part] same [of printable_get_amount] same [of printable_send_amount]
      same [of printable_fees_amount] same [of other_seed_payout] same [of payin_binary_name]
      same [of paying_sub_coin_config_size] same [of paying_sub_coin_config] same [of ctx_rate]
    by (simp add: parts_kept_def part_defs session_part_def)
  moreover have "ctx w' = c \<or> ctx w' = c\<lparr>ctx_state := TRANSACTION_RECEIVED\<rparr>"
    using assms run by (auto simp: process_transaction_def reply_defs split: option.splits if_splits)
  ultimately show ?thesis by (auto simp: parts_kept_state)
qed

lemma trusted_parts:
  "trusted_name_descriptor_handler P e cmd w = (r, w') \<Longrightarrow> parts_kept SEND_TRUSTED_NAME_DESCRIPTOR (ctx w) (ctx w')"
  using trusted_name_world [of P e cmd w r w'] by (auto simp: parts_kept_def part_defs)

lemma check_parts:
  assumes run: "check_addresses_and_amounts P e cmd w = (r, w')" and ok: "servable e cmd w"
    and i: "cmd_ins cmd \<in> check_commands"
  shows "parts_kept (cmd_ins cmd) (ctx w) (ctx w')"
proof -
  obtain r1 w1 where steps: "check_addresses_and_amounts_steps P e cmd w = (r1, w1)" by fastforce
  have "only_checked w w1" using steps_only_checked [OF _ _ _ steps] ok by (simp add: servable_def)
  note same = unchecked_part_same [OF only_checked_frame(6) [OF this]]
  have "parts_kept (cmd_ins cmd) (ctx w) (ctx w1)"
    unfolding parts_kept_def part_defs using i same by auto
  with run steps show ?thesis
    by (cases rule: check_outcome) (auto simp: parts_kept_state)
qed

lemma plain_parts:
  "get_version_handler P e w = (r, w') \<Longrightarrow> ctx w' = ctx w"
  "get_challenge_handler e w = (r, w') \<Longrightarrow> ctx w' = ctx w"
  "check_partner P e cmd w = (r, w') \<Longrightarrow> ctx w' = ctx w \<or> ctx w' = (ctx w)\<lparr>ctx_state := PROVIDER_CHECKED\<rparr>"
  "check_tx_signature P e cmd w = (r, w') \<Longrightarrow> ctx w' = ctx w \<or> ctx w' = (ctx w)\<lparr>ctx_state := SIGNATURE_CHECKED\<rparr>"
  "prompt_ui_display P e cmd w = (r, w') \<Longrightarrow> ctx w' = (ctx w)\<lparr>ctx_state := WAITING_USER_VALIDATION\<rparr>"
  by (auto simp: plain_handler_defs partner_handler_defs signature_handler_defs prompt_ui_display_def
      split: prod.splits sum.splits option.splits if_splits)

lemma returning_cases:
  assumes "returning f = (r, w')"
  obtains n where "f = (n, w')" "r = Returned n"
  using assms by (cases f) simp

lemma dispatch_parts:
  assumes ok: "servable e cmd w" and run: "dispatch_command P e cmd w = (r, w')"
    and open_session: "cmd_ins cmd \<notin> closing_commands"
  shows "parts_kept (cmd_ins cmd) (ctx w) (ctx w')"
proof -
  have checks: ?thesis if "cmd_ins cmd \<in> check_commands"
    using check_parts [OF _ ok that] run dispatch_check [OF that] by simp
  show ?thesis
  proof (cases "cmd_ins cmd")
    case GET_VERSION_COMMAND
    with run have "returning (get_version_handler P e w) = (r, w')" by simp
    then obtain n where "get_version_handler P e w = (n, w')" by (rule returning_cases)
    from plain_parts(1) [OF this] show ?thesis by simp
  next
    case SET_PARTNER_KEY_COMMAND
    with run have "returning (set_partner_key P e cmd w) = (r, w')" by simp
    then obtain n where "set_partner_key P e cmd w = (n, w')" by (rule returning_cases)
    from set_partner_parts [OF this] SET_PARTNER_KEY_COMMAND show ?thesis by simp
  next
    case CHECK_PARTNER_COMMAND
    with run have "returning (check_partner P e cmd w) = (r, w')" by simp
    then obtain n where "check_partner P e cmd w = (n, w')" by (rule returning_cases)
    from plain_parts(3) [OF this] show ?thesis by auto
  next
    case PROCESS_TRANSACTION_RESPONSE_COMMAND
    with run have "returning (process_transaction P e cmd w) = (r, w')" by simp
    then obtain n where "process_transaction P e cmd w = (n, w')" by (rule returning_cases)
    from process_parts [OF this] PROCESS_TRANSACTION_RESPONSE_COMMAND show ?thesis by simp
  next
    case CHECK_TRANSACTION_SIGNATURE_COMMAND
    with run have "returning (check_tx_signature P e cmd w) = (r, w')" by simp
    then obtain n where "check_tx_signature P e cmd w = (n, w')" by (rule returning_cases)
    from plain_parts(4) [OF this] show ?thesis by auto
  next
    case GET_CHALLENGE
    with run have "returning (get_challenge_handler e w) = (r, w')" by simp
    then obtain n where "get_challenge_handler e w = (n, w')" by (rule returning_cases)
    from plain_parts(2) [OF this] show ?thesis by simp
  next
    case SEND_TRUSTED_NAME_DESCRIPTOR
    with run have "returning (trusted_name_descriptor_handler P e cmd w) = (r, w')" by simp
    then obtain n where "trusted_name_descriptor_handler P e cmd w = (n, w')" by (rule returning_cases)
    from trusted_parts [OF this] SEND_TRUSTED_NAME_DESCRIPTOR show ?thesis by simp
  next
    case PROMPT_UI_DISPLAY
    with run have "returning (prompt_ui_display P e cmd w) = (r, w')" by simp
    then obtain n where "prompt_ui_display P e cmd w = (n, w')" by (rule returning_cases)
    from plain_parts(5) [OF this] show ?thesis by simp
  qed (use checks open_session in simp_all)
qed

section \<open>What an event does to the context\<close>

lemma step_cases:
  assumes st: "step P e ev w = Some w'" and w: "resting w" and ev: "possible ev w"
    and libs: "libs_keep_globals e" "libs_keep_sizes e"
  obtains (lost) "ctx w' = zero_context" "\<forall>b. ev \<noteq> Review_choice b \<and> ev \<noteq> Warning_choice b"
  | (idle) t where "\<forall>b. ev \<noteq> Review_choice b" "ev \<noteq> Warning_choice False" "ctx w' = (ctx w)\<lparr>tx := t\<rparr>" "length t = sizeof_tx"
      "t = tx (ctx w) \<or> ctx_state (ctx w) = PROVIDER_CHECKED"
  | (thrown) apdu n cmd w1 x w2 where "ev = Received_apdu apdu n" "check_apdu_validity apdu n w = (Inr cmd, w1)"
      "servable e cmd w1" "dispatch_command P e cmd w1 = (Threw x, w2)" "ctx w' = ctx w2"
  | (served) apdu n cmd w1 v where "ev = Received_apdu apdu n" "check_apdu_validity apdu n w = (Inr cmd, w1)"
      "servable e cmd w1" "dispatch_command P e cmd w1 = (Returned v, w')" "ctx_state (ctx w') \<noteq> SIGN_FINISHED"
  | (declined) "ev = Review_choice False \<or> ev = Warning_choice False" "ctx w' = (ctx w)\<lparr>ctx_state := INITIAL_STATE\<rparr>"
  | (approved) "ev = Review_choice True" "screen w = Review" "ctx w' = (ctx w)\<lparr>ctx_state := WAITING_SIGNING\<rparr>"
proof (cases ev)
  case (Received_apdu apdu n)
  with ev have n: "n \<le> length apdu" by simp
  obtain k w2 where run: "app_main_turn P e apdu n w = (k, w2)" by fastforce
  have w': "w' = (if k = Next_command then w2 else new_cycle P e w2)" and "k \<noteq> Exit"
    using st Received_apdu run by (cases k; simp)+
  show thesis
    using run w n libs
  proof (cases rule: turn_cases)
    case (refused err w1)
    note r = received_ctx(1) [OF refused(1) n w]
    have "ctx w' = ctx w1" using refused w' by simp
    moreover obtain t where "ctx w1 = (ctx w)\<lparr>tx := t\<rparr>" "length t = sizeof_tx"
      "t = tx (ctx w) \<or> ctx_state (ctx w) = PROVIDER_CHECKED" using r by blast
    ultimately show thesis using idle [of t] Received_apdu by simp
  next
    case (served cmd w1 v w3)
    with w' that(4) [OF Received_apdu served(1,2), of v] show thesis by simp
  next
    case (signed cmd w1 v w3)
    with w' Received_apdu show thesis by (intro lost) (simp_all add: new_cycle_world)
  next
    case (failed cmd w1 v w3)
    with w' Received_apdu show thesis by (intro lost) (simp_all add: new_cycle_world)
  next
    case (thrown cmd w1 x w3)
    have st: "ctx_state (ctx w3) = ctx_state (ctx w1)"
      using unchecked_part_same(1) dispatch_threw [OF thrown(2,3)] by blast
    have "ctx_state (ctx w1) = ctx_state (ctx w)" using received_ctx(1) [OF thrown(1) n w] by auto
    then have "ctx_state (ctx w2) \<noteq> SIGN_FINISHED"
      using st w catch_world(1) [OF thrown(4)] by (simp add: resting_def)
    then have "ctx w' = ctx w3" using w' catch_world(1) [OF thrown(4)] by (simp add: new_cycle_world)
    with that(3) [OF Received_apdu thrown(1-3)] show thesis by simp
  qed
next
  case Reception_failed
  with st show thesis by (intro lost) (auto simp: new_cycle_world)
next
  case (Raised x)
  obtain k w1 where c: "catch_exception e x w = (k, w1)" by fastforce
  note f = catch_world [OF c]
  have "ctx w' = ctx w"
    using st Raised c f(1,4) w by (cases k) (auto simp: new_cycle_world resting_def)
  then show thesis using idle [of "tx (ctx w)"] w Raised by (simp add: resting_def ctx_sizes_def)
next
  case (Warning_choice b)
  show thesis
  proof (cases b)
    case True
    with st Warning_choice have "ctx w' = ctx w" by (auto simp: on_warning_choice_def)
    then show thesis using idle [of "tx (ctx w)"] w True Warning_choice by (simp add: resting_def ctx_sizes_def)
  next
    case False
    with st Warning_choice show thesis by (intro declined) (auto simp: on_warning_choice_def refusal_world)
  qed
next
  case (Review_choice b)
  have w': "w' = review_choice P e b w" using st Review_choice by simp
  show thesis
  proof (cases b)
    case True
    with Review_choice ev w' show thesis by (intro approved) (simp_all add: review_choice_world)
  next
    case False
    with Review_choice w' show thesis by (intro declined) (simp_all add: review_choice_world)
  qed
next
  case Page_closed
  with st have "ctx w' = ctx w" by (auto simp: ui_idle_def)
  then show thesis using idle [of "tx (ctx w)"] w Page_closed by (simp add: resting_def ctx_sizes_def)
qed (use st in \<open>simp add: app_quit_def\<close>)

lemma start_done:
  assumes "start_new_transaction P e cmd w = (r, w')"
  shows "ctx_state (ctx w') = INITIAL_STATE \<and> ctx_subcommand (ctx w') = SWAP \<or>
    ctx_state (ctx w') = WAITING_TRANSACTION \<and> ctx_subcommand (ctx w') = cmd_subcommand cmd \<and>
    cx_ecfp_init_public_key P CX_CURVE_SECP256K1 (LedgerPubKey P) = Some (ledger_public_key (ctx w'))"
  using assms by (auto simp: start_defs zero_context_def split: option.splits if_splits)

section \<open>The automaton\<close>

datatype label = Command command_e subcommand_e | Choice bool | Other

text \<open>
  The state of the protocol and its flow. A command may leave both as they are, when it is refused or
  fails; an event of the outside may lose them.
\<close>

inductive protocol_step :: "state_e \<times> subcommand_e \<Rightarrow> label \<Rightarrow> state_e \<times> subcommand_e \<Rightarrow> bool" where
  stays: "l \<noteq> Choice False \<Longrightarrow> protocol_step (s, f) l (s, f)"
| starts: "s \<noteq> WAITING_USER_VALIDATION \<Longrightarrow>
    protocol_step (s, f) (Command START_NEW_TRANSACTION_COMMAND g) (WAITING_TRANSACTION, g)"
| advances: "i \<notin> closing_commands \<Longrightarrow> flow_allows i f \<Longrightarrow> s \<in> allowed_states i \<Longrightarrow> t \<in> goal_states i \<Longrightarrow>
    protocol_step (s, f) (Command i g) (t, f)"
| approves: "protocol_step (WAITING_USER_VALIDATION, f) (Choice True) (WAITING_SIGNING, f)"
| declines: "protocol_step (WAITING_USER_VALIDATION, f) (Choice False) (INITIAL_STATE, f)"
| fails: "\<forall>b. l \<noteq> Choice b \<Longrightarrow> protocol_step (s, f) l (INITIAL_STATE, SWAP)"

inductive_cases protocol_stepE: "protocol_step (s, f) l (t, g)"

inductive protocol_run :: "label list \<Rightarrow> state_e \<times> subcommand_e \<Rightarrow> bool" where
  initial: "protocol_run [] (INITIAL_STATE, SWAP)"
| extended: "protocol_run ls s \<Longrightarrow> protocol_step s l t \<Longrightarrow> protocol_run (l # ls) t"

text \<open>What the automaton sees of the program.\<close>

definition protocol_view :: "world \<Rightarrow> state_e \<times> subcommand_e" where
  "protocol_view w = (ctx_state (ctx w), ctx_subcommand (ctx w))"

fun label_of :: "event \<Rightarrow> world \<Rightarrow> label" where
  "label_of (Received_apdu apdu n) w =
     (case check_apdu_validity apdu n w of
        (Inr cmd, w) \<Rightarrow> Command (cmd_ins cmd) (cmd_subcommand cmd)
      | (Inl err, w) \<Rightarrow> Other)"
| "label_of (Warning_choice b) w = Choice b"
| "label_of (Review_choice b) w = Choice b"
| "label_of ev w = Other"

lemma label_choice: "label_of ev w = Choice b \<longleftrightarrow> ev = Review_choice b \<or> ev = Warning_choice b"
  by (cases ev) (auto split: prod.splits sum.splits)

lemma delivered_view:
  assumes "check_apdu_validity apdu n w = (Inr cmd, w1)" and "n \<le> length apdu" and "resting w"
  shows "protocol_view w1 = protocol_view w"
  using received_ctx(1) [OF assms] by (auto simp: protocol_view_def)

lemma served_refines:
  assumes ok: "servable e cmd w" and run: "dispatch_command P e cmd w = (Returned v, w')"
    and open_cycle: "ctx_state (ctx w') \<noteq> SIGN_FINISHED"
  shows "protocol_step (protocol_view w) (Command (cmd_ins cmd) (cmd_subcommand cmd)) (protocol_view w')"
proof -
  have acc: "flow_allows (cmd_ins cmd) (cmd_subcommand cmd)" "ctx_state (ctx w) \<in> allowed_states (cmd_ins cmd)"
    "cmd_ins cmd \<in> flowless \<or> cmd_subcommand cmd = ctx_subcommand (ctx w)"
    using ok by (simp_all add: servable_def accepts_def)
  note moves = dispatch_contract [OF ok run]
  show ?thesis
  proof (cases "cmd_ins cmd \<in> closing_commands")
    case True
    show ?thesis
    proof (cases "cmd_ins cmd = START_NEW_TRANSACTION_COMMAND")
      case new: True
      with run have "returning (start_new_transaction P e cmd w) = (Returned v, w')" by simp
      then obtain n where "start_new_transaction P e cmd w = (n, w')" by (rule returning_cases)
      from start_done [OF this] acc(2) new show ?thesis
        by (auto simp: protocol_view_def intro: starts fails)
    next
      case False
      with True have i: "cmd_ins cmd = START_SIGNING_TRANSACTION" by simp
      with run have "start_signing_transaction e cmd w = (Returned v, w')" by simp
      then have "ctx w' = ctx w" using open_cycle by (cases rule: start_signing_cases [of e cmd w]) auto
      then show ?thesis by (simp add: protocol_view_def stays)
    qed
  next
    case False
    have "ctx_subcommand (ctx w') = ctx_subcommand (ctx w)"
      using dispatch_parts [OF ok run False] by (simp add: parts_kept_def flow_part_def)
    moreover have "flow_allows (cmd_ins cmd) (ctx_subcommand (ctx w))"
      using acc(1,3) False by (auto simp: flowless_def flow_allows_def)
    ultimately show ?thesis
      using moves acc(2) False by (auto simp: protocol_view_def intro: stays advances)
  qed
qed

lemma step_refines_automaton:
  assumes st: "step P e ev w = Some w'" and w: "resting w" and ev: "possible ev w"
    and libs: "libs_keep_globals e" "libs_keep_sizes e"
  shows "protocol_step (protocol_view w) (label_of ev w) (protocol_view w')"
  using assms
proof (cases rule: step_cases)
  case lost
  then have "\<forall>b. label_of ev w \<noteq> Choice b" by (simp add: label_choice)
  with lost show ?thesis by (simp add: protocol_view_def zero_context_def fails)
next
  case (idle t)
  then have "label_of ev w \<noteq> Choice False" using label_choice [of ev w False] by auto
  with idle show ?thesis by (simp add: protocol_view_def stays)
next
  case (thrown apdu n cmd w1 x w2)
  have "n \<le> length apdu" using ev thrown(1) by simp
  note v = delivered_view [OF thrown(2) this w]
  have "protocol_view w2 = protocol_view w1"
    using unchecked_part_same(1,2) dispatch_threw [OF thrown(3,4)] by (metis protocol_view_def)
  moreover have "protocol_view w' = protocol_view w2" using thrown(5) by (simp add: protocol_view_def)
  ultimately show ?thesis using v thrown(1,2)
    by (cases "protocol_view w") (simp add: stays)
next
  case (served apdu n cmd w1 v)
  have "n \<le> length apdu" using ev served(1) by simp
  from delivered_view [OF served(2) this w] served_refines [OF served(3-5)] served(1,2) show ?thesis by simp
next
  case declined
  moreover have "ctx_state (ctx w) = WAITING_USER_VALIDATION" using declined(1) ev w by (auto simp: resting_def)
  ultimately show ?thesis by (auto simp: protocol_view_def intro: declines)
next
  case approved
  moreover have "ctx_state (ctx w) = WAITING_USER_VALIDATION" using approved(2) w by (auto simp: resting_def)
  ultimately show ?thesis by (simp add: protocol_view_def approves)
qed

fun labels :: "history \<Rightarrow> label list" where
  "labels [] = []"
| "labels ((e, ev, w) # h) = label_of ev w # labels h"

lemma reaches_protocol_run: "reaches P h w \<Longrightarrow> protocol_run (labels h) (protocol_view w)"
proof (induction rule: reaches.induct)
  case (booted e)
  have "protocol_view (boot P e) = (INITIAL_STATE, SWAP)"
    by (simp add: boot_def new_cycle_world protocol_view_def zero_globals_def zero_context_def)
  then show ?case using initial by simp
next
  case (stepped h w ev e w')
  from step_refines_automaton [OF stepped(5) reaches_resting [OF stepped(1)] stepped(2-4)] stepped.IH
  show ?case by (simp add: extended)
qed

text \<open>
  C4: The program refines the automaton of the protocol: seen through the states, the flows and the
  labels of its events, every history of the program, whatever is received, thrown, chosen or
  answered by the applications, is a run of the automaton.
\<close>

theorem program_refines_automaton:
  assumes "reaches P h w"
  shows "protocol_run (labels h) (protocol_view w)"
  by (rule reaches_protocol_run [OF assms])

end
