(* ===== verification/Replies.thy ===== *)
theory Replies
  imports Automaton
begin

text \<open>
  Every command is answered: by exactly one response, at once, or by the choice of the user when it
  starts the review. The one exception is the signature by an application that is not installed any
  more, where the success that was announced is followed by an error.
\<close>

section \<open>What can be thrown\<close>

text \<open>A library that is not installed is all that the model lets a call throw.\<close>

definition throws_missing :: "'a step \<Rightarrow> bool" where
  "throws_missing m \<longleftrightarrow> (\<forall>w x w'. m w = (Inl (Throws x), w') \<longrightarrow> x = SWO_SEC_APP_14)"

lemma throws_missing_and_then:
  assumes "throws_missing m" and "\<And>x. throws_missing (k x)"
  shows "throws_missing (and_then m k)"
  using assms unfolding throws_missing_def and_then_def by (fastforce split: prod.splits sum.splits)

lemma throws_missing_basic [simp]:
  "throws_missing (done_with x)" "throws_missing (fails_with err)" "throws_missing (on_ctx f)"
  by (simp_all add: throws_missing_def step_defs)

lemma throws_missing_call: "throws_missing (os_lib_call_bss_safe P call params)"
  by (auto simp: throws_missing_def os_lib_call_bss_safe_def Let_def split: lib_outcome.splits if_splits)

lemma throws_missing_printable: "throws_missing (get_printable_amount P e conf app amt store sz fee)"
  unfolding get_printable_amount_def
  by (intro throws_missing_and_then throws_missing_call) (auto simp: Let_def split: prod.splits)

lemma throws_missing_address: "throws_missing (check_address P e conf params app addr extra)"
  unfolding check_address_def
  by (intro throws_missing_and_then throws_missing_call) (auto split: prod.splits)

lemma throws_missing_swap: "throws_missing (check_swap_address P e ins conf params app)"
proof -
  have "throws_missing (check_payout_or_refund_address P e ins conf params app)"
    unfolding throws_missing_def
  proof (intro allI impI)
    fix w x w'
    assume run: "check_payout_or_refund_address P e ins conf params app w = (Inl (Throws x), w')"
    then obtain a b w1 where "check_address P e conf params app a b w = (Inl (Throws x), w1)"
      by (auto simp: check_payout_or_refund_address_def case_prod_unfold Let_def step_defs prod_eq_iff
          split: if_splits sum.splits fault.splits)
    with throws_missing_address show "x = SWO_SEC_APP_14" unfolding throws_missing_def by blast
  qed
  then show ?thesis
    unfolding throws_missing_def check_swap_address_def
    by (auto simp: step_defs split: if_splits prod.splits sum.splits fault.splits)
qed

lemma throws_missing_coin: "throws_missing (check_coin P e cmd app conf params)"
proof -
  have "throws_missing format_flow_text"
    by (auto simp: throws_missing_def format_flow_text_def step_defs split: if_splits prod.splits)
  moreover have "throws_missing (format_relevant_amount P e ins c a)" "throws_missing (format_fees P e c a)" for ins c a
    using throws_missing_printable unfolding throws_missing_def format_relevant_amount_def format_fees_def Let_def
    by blast+
  ultimately show ?thesis
    unfolding check_coin_def by (intro throws_missing_and_then throws_missing_swap) auto
qed

lemma dispatch_throws_missing:
  assumes ok: "servable e cmd w" and run: "dispatch_command P e cmd w = (Threw x, w')"
  shows "x = SWO_SEC_APP_14"
proof (cases "cmd_ins cmd \<in> check_commands")
  case True
  with run have run: "check_addresses_and_amounts P e cmd w = (Threw x, w')" using dispatch_check by simp
  have "check_addresses_and_amounts_steps P e cmd w = (Inl (Throws x), w')"
    using run
    by (auto simp: check_addresses_and_amounts_def returning_def split: sum.splits fault.splits if_splits prod.splits)
  moreover have "data_ok cmd (ctx w)" "unat (cmd_data_size cmd) < 65535" using ok by (simp_all add: servable_def)
  ultimately show ?thesis
    by (cases rule: steps_cases) (use throws_missing_coin in \<open>unfold throws_missing_def, blast+\<close>)
next
  case False
  then have "cmd_ins cmd = START_SIGNING_TRANSACTION"
    using run by (cases "cmd_ins cmd") auto
  with run have "start_signing_transaction e cmd w = (Threw x, w')" by simp
  then show ?thesis by (cases rule: start_signing_cases [of e cmd w]) auto
qed

section \<open>Exactly one response\<close>

text \<open>A page that waits for the user owes the answer to the command that put it up.\<close>

definition owes_answer :: "world \<Rightarrow> bool" where
  "owes_answer w \<longleftrightarrow> screen w = Review \<or> screen w = Cross_seed_warning"

definition answered :: "world \<Rightarrow> world \<Rightarrow> bool" where
  "answered w w' \<longleftrightarrow> (\<exists>r. sent w' = sent w @ [r]) \<and> (owes_answer w' \<longrightarrow> owes_answer w)"

lemma answered_sent [simp]:
  "sent w' = sent w @ [r] \<Longrightarrow> screen w' = screen w \<Longrightarrow> answered w w'"
  "sent w' = sent w @ [r] \<Longrightarrow> screen w' = Screen_off \<Longrightarrow> answered w w'"
  by (simp_all add: answered_def owes_answer_def)

lemma plain_answered:
  "get_version_handler P e w = (r, w') \<Longrightarrow> answered w w'"
  "get_challenge_handler e w = (r, w') \<Longrightarrow> answered w w'"
  "start_new_transaction P e cmd w = (r, w') \<Longrightarrow> answered w w'"
  "set_partner_key P e cmd w = (r, w') \<Longrightarrow> answered w w'"
  "check_partner P e cmd w = (r, w') \<Longrightarrow> answered w w'"
  "process_transaction P e cmd w = (r, w') \<Longrightarrow> answered w w'"
  "check_tx_signature P e cmd w = (r, w') \<Longrightarrow> answered w w'"
  by (auto simp: answered_def owes_answer_def plain_handler_defs partner_handler_defs process_transaction_def signature_handler_defs
      start_defs split: prod.splits sum.splits option.splits if_splits)

lemma trusted_answered: "trusted_name_descriptor_handler P e cmd w = (r, w') \<Longrightarrow> answered w w'"
  using trusted_name_world [of P e cmd w r w'] by (auto simp: answered_def owes_answer_def)

lemma display_owes: "owes_answer (start_ui_display P e w)"
  by (auto simp: owes_answer_def start_ui_display_def ui_validate_amounts_def on_warning_choice_def Let_def)

lemma check_answered:
  assumes run: "check_addresses_and_amounts P e cmd w = (Returned v, w')" and ok: "servable e cmd w"
  shows "answered w w' \<or> sent w' = sent w \<and> owes_answer w' \<and> 0 \<le> v"
proof -
  obtain r1 w1 where steps: "check_addresses_and_amounts_steps P e cmd w = (r1, w1)" by fastforce
  have "only_checked w w1" using steps_only_checked [OF _ _ _ steps] ok by (simp add: servable_def)
  note same = only_checked_frame(1,5) [OF this]
  show ?thesis
    using run steps
  proof (cases rule: check_outcome)
    case stopped
    then obtain f where r1: "r1 = Inl f" by (cases r1) auto
    with run steps same show ?thesis
      by (cases f) (auto simp: check_addresses_and_amounts_def reply_defs)
  next
    case (failed err)
    with same show ?thesis by simp
  next
    case displayed
    with same display_owes [of P e w1] show ?thesis by simp
  next
    case checked
    with same show ?thesis by simp
  qed
qed

lemma dispatch_answers:
  assumes ok: "servable e cmd w" and run: "dispatch_command P e cmd w = (Returned v, w')"
  shows "answered w w' \<or> sent w' = sent w \<and> owes_answer w' \<and> 0 \<le> v"
proof -
  have checks: ?thesis if "cmd_ins cmd \<in> check_commands"
    using check_answered [OF _ ok] run dispatch_check [OF that] by simp
  have plain: ?thesis if "returning f = (Returned v, w')" and "\<And>n. f = (n, w') \<Longrightarrow> answered w w'" for f
    using that by (cases f) simp
  show ?thesis
  proof (cases "cmd_ins cmd")
    case GET_VERSION_COMMAND
    with run show ?thesis by (intro plain [OF _ plain_answered(1)]) auto
  next
    case START_NEW_TRANSACTION_COMMAND
    with run show ?thesis by (intro plain [OF _ plain_answered(3)]) auto
  next
    case SET_PARTNER_KEY_COMMAND
    with run show ?thesis by (intro plain [OF _ plain_answered(4)]) auto
  next
    case CHECK_PARTNER_COMMAND
    with run show ?thesis by (intro plain [OF _ plain_answered(5)]) auto
  next
    case PROCESS_TRANSACTION_RESPONSE_COMMAND
    with run show ?thesis by (intro plain [OF _ plain_answered(6)]) auto
  next
    case CHECK_TRANSACTION_SIGNATURE_COMMAND
    with run show ?thesis by (intro plain [OF _ plain_answered(7)]) auto
  next
    case GET_CHALLENGE
    with run show ?thesis by (intro plain [OF _ plain_answered(2)]) auto
  next
    case SEND_TRUSTED_NAME_DESCRIPTOR
    with run show ?thesis by (intro plain [OF _ trusted_answered]) auto
  next
    case PROMPT_UI_DISPLAY
    with run display_owes [of P e w] show ?thesis by (auto simp: prompt_ui_display_def)
  next
    case START_SIGNING_TRANSACTION
    with run have "start_signing_transaction e cmd w = (Returned v, w')" by simp
    then show ?thesis by (cases rule: start_signing_cases [of e cmd w]) auto
  qed (use checks in simp_all)
qed

section \<open>A command\<close>

lemma first_page_quiet: "\<not> owes_answer (new_cycle P e w)"
  using new_cycle_world(4,5) by (simp add: owes_answer_def)

text \<open>The delivery of the signing command when its application is no longer there.\<close>

definition signs_with_missing :: "platform \<Rightarrow> outside \<Rightarrow> mem \<Rightarrow> nat \<Rightarrow> world \<Rightarrow> bool" where
  "signs_with_missing P e apdu n w \<longleftrightarrow>
     (\<exists>cmd w1. check_apdu_validity apdu n w = (Inr cmd, w1) \<and> cmd_ins cmd = START_SIGNING_TRANSACTION \<and>
        (\<exists>p g. lib_sign_transaction e p g = Lib_missing))"

lemma signing_throw:
  assumes "dispatch_command P e cmd w = (Threw x, w')" and "cmd_ins cmd = START_SIGNING_TRANSACTION"
  shows "\<exists>p g. lib_sign_transaction e p g = Lib_missing"
proof (rule ccontr)
  assume none: "\<not> (\<exists>p g. lib_sign_transaction e p g = Lib_missing)"
  have "start_signing_transaction e cmd w = (Threw x, w')" using assms by simp
  then obtain w1 where "create_payin_transaction e (signing_parameters (cmd_subcommand cmd) (ctx w))
      (w\<lparr>sent := sent w @ [([], status_word SUCCESS)]\<rparr>) = (Inl (Throws x), w1)"
    by (auto simp: start_signing_transaction_def reply_defs split: prod.splits sum.splits fault.splits if_splits)
  with none show False by (auto simp: create_payin_transaction_def Let_def split: lib_outcome.splits)
qed

lemma delivered_quiet:
  assumes v: "check_apdu_validity apdu n w = (Inr cmd, w1)" and ok: "servable e cmd w1"
    and n: "n \<le> length apdu" and w: "resting w"
  shows "\<not> owes_answer w" and "\<not> owes_answer w1" and "sent w1 = sent w"
proof -
  have "ctx_state (ctx w1) \<noteq> WAITING_USER_VALIDATION"
    using ok by (cases "cmd_ins cmd") (auto simp: servable_def accepts_def)
  then show "\<not> owes_answer w" using received_ctx(1) [OF v n w] w by (auto simp: resting_def owes_answer_def)
  with received_ctx(4,5) [OF v n w] show "\<not> owes_answer w1" "sent w1 = sent w" by (simp_all add: owes_answer_def)
qed

text \<open>How a turn of the loop answers.\<close>

definition turn_answer :: "platform \<Rightarrow> outside \<Rightarrow> mem \<Rightarrow> nat \<Rightarrow> world \<Rightarrow> continuation \<Rightarrow> world \<Rightarrow> bool" where
  "turn_answer P e apdu n w k w' \<longleftrightarrow>
     k \<noteq> Exit \<and> (k = New_cycle \<longrightarrow> \<not> owes_answer w) \<and>
     ((\<exists>r. sent w' = sent w @ [r]) \<and> owes_answer w' = owes_answer w \<or>
      sent w' = sent w \<and> owes_answer w' \<and> \<not> owes_answer w \<and> k = Next_command \<or>
      (\<exists>r1 r2. sent w' = sent w @ [r1, r2]) \<and> signs_with_missing P e apdu n w \<and> k = New_cycle)"

lemma turn_answers:
  assumes run: "app_main_turn P e apdu n w = (k, w')" and w: "resting w" and n: "n \<le> length apdu"
    and libs: "libs_keep_globals e" "libs_keep_sizes e"
  shows "turn_answer P e apdu n w k w'"
  using assms
proof (cases rule: turn_cases)
  case (refused err w1)
  with received_ctx(4,5) [OF refused(1) n w] show ?thesis by (simp add: turn_answer_def owes_answer_def)
next
  case (served cmd w1 v w2)
  note d = delivered_quiet [OF served(1,2) n w]
  from dispatch_answers [OF served(2,3)] d served show ?thesis by (auto simp: answered_def turn_answer_def)
next
  case (signed cmd w1 v w2)
  note d = delivered_quiet [OF signed(1,2) n w]
  have "ctx_state (ctx w1) \<noteq> SIGN_FINISHED"
    using received_ctx(1) [OF signed(1) n w] w by (auto simp: resting_def)
  then have "cmd_ins cmd = START_SIGNING_TRANSACTION"
    using dispatch_contract [OF signed(2,3)] signed(5) by (cases "cmd_ins cmd") auto
  with signed(3) have "start_signing_transaction e cmd w1 = (Returned v, w2)" by simp
  then have "answered w1 w2" by (cases rule: start_signing_cases [of e cmd w1]) auto
  with d signed show ?thesis by (simp add: answered_def turn_answer_def)
next
  case (failed cmd w1 v w2)
  note d = delivered_quiet [OF failed(1,2) n w]
  from dispatch_answers [OF failed(2,3)] d failed show ?thesis
    by (auto simp: answered_def turn_answer_def owes_answer_def)
next
  case (thrown cmd w1 x w2)
  note d = delivered_quiet [OF thrown(1,2) n w]
  have x: "x = SWO_SEC_APP_14" by (rule dispatch_throws_missing [OF thrown(2,3)])
  have k: "k = New_cycle" and w': "w' = w2\<lparr>sent := sent w2 @ [([], status_word APPLICATION_NOT_INSTALLED)]\<rparr>"
    using thrown(4) by (simp_all add: x reply_defs)
  show ?thesis
  proof (cases "cmd_ins cmd = START_SIGNING_TRANSACTION")
    case False
    with dispatch_threw [OF thrown(2,3)] d k w' show ?thesis by (auto simp: turn_answer_def owes_answer_def)
  next
    case True
    obtain rs where rs: "sent w2 = sent w1 @ rs" using dispatch_contract [OF thrown(2,3)] by blast
    have "length rs = 1" using dispatch_threw [OF thrown(2,3)] True rs by simp
    then obtain r1 where "rs = [r1]" by (cases rs) auto
    moreover have "signs_with_missing P e apdu n w"
      using thrown(1) True signing_throw [OF thrown(3) True] by (auto simp: signs_with_missing_def)
    ultimately show ?thesis using rs d k w' by (simp add: turn_answer_def)
  qed
qed

lemma command_step_answers:
  assumes w: "resting w" and n: "n \<le> length apdu" and libs: "libs_keep_globals e" "libs_keep_sizes e"
  shows "\<exists>w'. step P e (Received_apdu apdu n) w = Some w' \<and>
    ((\<exists>r. sent w' = sent w @ [r]) \<and> owes_answer w' = owes_answer w \<or>
     sent w' = sent w \<and> owes_answer w' \<and> \<not> owes_answer w \<or>
     (\<exists>r1 r2. sent w' = sent w @ [r1, r2]) \<and> signs_with_missing P e apdu n w)"
proof -
  obtain k w1 where run: "app_main_turn P e apdu n w = (k, w1)" by fastforce
  note t = turn_answers [OF run w n libs, unfolded turn_answer_def]
  show ?thesis
  proof (cases k)
    case Next_command
    with t run show ?thesis by auto
  next
    case New_cycle
    with t have "(\<exists>r. sent w1 = sent w @ [r]) \<or>
      (\<exists>r1 r2. sent w1 = sent w @ [r1, r2]) \<and> signs_with_missing P e apdu n w" "\<not> owes_answer w"
      by auto
    with New_cycle run show ?thesis by (auto simp: new_cycle_world(3) first_page_quiet)
  next
    case Exit
    with t show ?thesis by simp
  qed
qed

text \<open>
  C5: Every command is answered and never ends the program: whatever bytes are received, the program
  goes on, and has sent exactly one response more, or has put up the review and sent none yet, or,
  when the signing application is not installed, the error after the announced success.
\<close>

theorem command_answered:
  assumes "reaches P h w" and "n \<le> length apdu" and "libs_keep_globals e" and "libs_keep_sizes e"
  shows "\<exists>w'. step P e (Received_apdu apdu n) w = Some w' \<and>
    ((\<exists>r. sent w' = sent w @ [r]) \<and> owes_answer w' = owes_answer w \<or>
     sent w' = sent w \<and> owes_answer w' \<and> \<not> owes_answer w \<or>
     (\<exists>r1 r2. sent w' = sent w @ [r1, r2]) \<and> signs_with_missing P e apdu n w)"
  by (rule command_step_answers [OF reaches_resting [OF assms(1)] assms(2-4)])

section \<open>The whole history\<close>

fun received_commands :: "history \<Rightarrow> nat" where
  "received_commands [] = 0"
| "received_commands ((e, Received_apdu apdu n, w) # h) = Suc (received_commands h)"
| "received_commands ((e, ev, w) # h) = received_commands h"

text \<open>Nothing is thrown while the program waits, no reception fails, and the applications stay installed.\<close>

fun undisturbed :: "platform \<Rightarrow> history \<Rightarrow> bool" where
  "undisturbed P [] \<longleftrightarrow> True"
| "undisturbed P ((e, ev, w) # h) \<longleftrightarrow>
     (case ev of
        Received_apdu apdu n \<Rightarrow> \<not> signs_with_missing P e apdu n w
      | Reception_failed \<Rightarrow> False
      | Raised x \<Rightarrow> False
      | _ \<Rightarrow> True) \<and> undisturbed P h"

lemma review_choice_answer:
  "\<exists>r. sent (review_choice P e b w) = sent w @ [r]"
  "screen (review_choice P e b w) = (if b then Spinner else Transaction_rejected)"
  by (auto simp: review_choice_def refusal_world reply_defs Let_def)

lemma responses_counted:
  assumes "reaches P h w" and "undisturbed P h"
  shows "length (sent w) + (if owes_answer w then 1 else 0) = received_commands h"
  using assms
proof (induction rule: reaches.induct)
  case (booted e)
  show ?case by (simp add: boot_def first_page_quiet new_cycle_world world_in_def)
next
  case (stepped h w ev e w')
  note w = reaches_resting [OF stepped(1)]
  have IH: "length (sent w) + (if owes_answer w then 1 else 0) = received_commands h"
    using stepped by simp
  show ?case
  proof (cases ev)
    case (Received_apdu apdu n)
    have n: "n \<le> length apdu" using stepped(2) Received_apdu by simp
    obtain w2 where w2: "step P e (Received_apdu apdu n) w = Some w2" and
      a: "(\<exists>r. sent w2 = sent w @ [r]) \<and> owes_answer w2 = owes_answer w \<or>
        sent w2 = sent w \<and> owes_answer w2 \<and> \<not> owes_answer w \<or>
        (\<exists>r1 r2. sent w2 = sent w @ [r1, r2]) \<and> signs_with_missing P e apdu n w"
      using command_step_answers [OF w n stepped(3,4)] by blast
    have "w2 = w'" using w2 stepped(5) unfolding Received_apdu by (simp only: option.inject)
    moreover have "\<not> signs_with_missing P e apdu n w" using stepped.prems Received_apdu by simp
    ultimately have "(\<exists>r. sent w' = sent w @ [r]) \<and> owes_answer w' = owes_answer w \<or>
       sent w' = sent w \<and> owes_answer w' \<and> \<not> owes_answer w"
      using a by blast
    with IH Received_apdu show ?thesis by auto
  next
    case (Warning_choice b)
    with stepped(2,5) IH show ?thesis
      by (cases b) (auto simp: on_warning_choice_def refusal_world owes_answer_def)
  next
    case (Review_choice b)
    with stepped(2,5) IH show ?thesis
      using review_choice_answer [of P e b w] by (auto simp: owes_answer_def split: if_splits)
  next
    case Page_closed
    with stepped(2,5) IH show ?thesis by (auto simp: ui_idle_def owes_answer_def split: screen.splits)
  qed (use stepped.prems stepped(5) in \<open>simp_all add: app_quit_def\<close>)
qed

text \<open>
  C6: Every command is answered exactly once: in a history in which nothing interrupts the program
  while it waits and no application disappears before it signs, as many responses have been sent as
  commands have been received, less one while the user is still asked about the last.
\<close>

theorem one_response_each:
  assumes "reaches P h w" and "undisturbed P h"
  shows "length (sent w) + (if owes_answer w then 1 else 0) = received_commands h"
  by (rule responses_counted [OF assms])

section \<open>While the user is asked\<close>

lemma nothing_allowed_in_review: "WAITING_USER_VALIDATION \<notin> allowed_states i"
  by (cases i) auto

lemma review_refuses:
  assumes "check_apdu_validity apdu n w = (res, w')" and "ctx_state (ctx w) = WAITING_USER_VALIDATION"
  shows "w' = w \<and> (\<exists>err. res = Inl err \<and> err \<noteq> SUCCESS)"
  using assms(1)
proof (cases rule: validity_cases)
  case (received i sub ext)
  with assms(2) nothing_allowed_in_review show ?thesis by (simp add: accepts_def)
qed simp

lemma review_command:
  assumes "ctx_state (ctx w) = WAITING_USER_VALIDATION"
  shows "\<exists>err. err \<noteq> SUCCESS \<and>
    step P e (Received_apdu apdu n) w = Some (w\<lparr>sent := sent w @ [([], status_word err)]\<rparr>)"
proof -
  obtain res w' where v: "check_apdu_validity apdu n w = (res, w')" by fastforce
  from review_refuses [OF v assms] obtain err where "res = Inl err" "err \<noteq> SUCCESS" "w' = w" by blast
  with v show ?thesis by (intro exI [of _ err]) (simp add: app_main_turn_def reply_defs)
qed

text \<open>
  C12: A reset of the transport while the user is asked locks the program up: it takes the review off
  the screen and leaves the state, so that no choice can come any more and every command, whatever its
  bytes, is answered with an error and changes nothing.
\<close>

theorem review_lost:
  assumes "ctx_state (ctx w) = WAITING_USER_VALIDATION"
  shows "\<exists>w'. step P e (Raised EXCEPTION_IO_RESET) w = Some w' \<and>
    screen w' \<noteq> Review \<and> screen w' \<noteq> Cross_seed_warning \<and>
    (\<forall>e' apdu n. \<exists>err. err \<noteq> SUCCESS \<and>
       step P e' (Received_apdu apdu n) w' = Some (w'\<lparr>sent := sent w' @ [([], status_word err)]\<rparr>))"
proof -
  let ?w = "new_cycle P e w"
  have "ctx_state (ctx ?w) = WAITING_USER_VALIDATION" using assms by (simp add: new_cycle_world)
  from review_command [OF this] show ?thesis by (intro exI [of _ ?w]) (simp add: new_cycle_world(4,5))
qed

text \<open>
  C7: While the user is asked, on the warning or on the review, a command has no effect but its answer:
  whatever bytes are received, one response is sent, and the transaction, the state, the page and the
  texts on it stay as they are; and the answer is an error for every command except \<open>GET_VERSION_COMMAND\<close>,
  which the protocol lets be sent in every state. (The code answers that one with an error too: it is the
  departure from the document of \<open>check_instruction\<close>.)
\<close>

theorem refused_while_asked:
  assumes "reaches P h w" and "screen w = Review \<or> screen w = Cross_seed_warning"
  shows "\<exists>r. step P e (Received_apdu apdu n) w = Some (w\<lparr>sent := sent w @ [r]\<rparr>) \<and>
    (apdu ! OFFSET_INS \<noteq> ins_value GET_VERSION_COMMAND \<longrightarrow>
       (\<exists>err. err \<noteq> SUCCESS \<and> r = ([], status_word err)))"
proof -
  have "ctx_state (ctx w) = WAITING_USER_VALIDATION"
    using reaches_resting [OF assms(1)] assms(2) by (auto simp: resting_def)
  from review_command [OF this] show ?thesis by blast
qed

end
