(* ===== verification/Session_Evidence.thy ===== *)
theory Session_Evidence
  imports Automaton
begin

text \<open>
  What every state of a session rests on. The evidence is in the commands that were received: the
  credentials of the partner and the signature of the signer over them, the transaction that the
  partner signed, the configurations of its coins and what their applications answered. Each state
  of the protocol requires the evidence of the ones before it.
\<close>

section \<open>The commands heard so far\<close>

text \<open>The commands that were delivered to the dispatcher, with their data and what the outside did.\<close>

type_synonym commands_heard = "(outside \<times> command_t \<times> u8 list) set"

definition heard :: "history \<Rightarrow> commands_heard" where
  "heard h = {(e, cmd, data_bytes cmd (ctx w1)) | e cmd w1. \<exists>apdu n w.
     (e, Received_apdu apdu n, w) \<in> set h \<and> check_apdu_validity apdu n w = (Inr cmd, w1)}"

lemma heard_Cons: "heard h \<subseteq> heard (x # h)"
  unfolding heard_def by (intro Collect_mono) (metis list.set_intros(2))

lemma heard_delivered:
  "check_apdu_validity apdu n w = (Inr cmd, w1) \<Longrightarrow>
   (e, cmd, data_bytes cmd (ctx w1)) \<in> heard ((e, Received_apdu apdu n, w) # h)"
  unfolding heard_def by (simp only: mem_Collect_eq) (metis list.set_intros(1))

section \<open>The evidence\<close>

definition signer_known :: "platform \<Rightarrow> swap_app_context \<Rightarrow> bool" where
  "signer_known P c \<longleftrightarrow> cx_ecfp_init_public_key P CX_CURVE_SECP256K1 (LedgerPubKey P) = Some (ledger_public_key c)"

text \<open>The partner: its name and its key are the ones of credentials with the given digest.\<close>

definition partner_named :: "platform \<Rightarrow> commands_heard \<Rightarrow> swap_app_context \<Rightarrow> u8 list \<Rightarrow> bool" where
  "partner_named P H c digest \<longleftrightarrow>
     (\<exists>e cmd name curve key.
        (e, cmd, partner_credentials (ctx_subcommand c) name curve key) \<in> H \<and>
        cmd_ins cmd = SET_PARTNER_KEY_COMMAND \<and>
        partner_credentials_ok (ctx_subcommand c) name curve key \<and>
        cx_ecfp_init_public_key P curve key = Some (partner_public_key c) \<and>
        cx_sha256 P (partner_credentials (ctx_subcommand c) name curve key) = Some digest \<and>
        displayed_partner c = partner_label (ctx_subcommand c) name)"

definition partner_known :: "platform \<Rightarrow> commands_heard \<Rightarrow> swap_app_context \<Rightarrow> bool" where
  "partner_known P H c \<longleftrightarrow>
     (\<exists>digest e cmd sig. partner_named P H c digest \<and>
        (e, cmd, sig) \<in> H \<and> cmd_ins cmd = CHECK_PARTNER_COMMAND \<and>
        cx_ecdsa_verify P (ledger_public_key c) digest sig)"

text \<open>
  In a swap, an address of the transaction may have been replaced by trusted names, one after the
  other.
\<close>

inductive renamed :: "platform \<Rightarrow> commands_heard \<Rightarrow> subcommand_e \<Rightarrow> mem \<Rightarrow> mem \<Rightarrow> bool" for P H f m where
  as_received: "renamed P H f m m"
| by_descriptor: "renamed P H f m m1 \<Longrightarrow> (e, cmd, data) \<in> H \<Longrightarrow> cmd_ins cmd = SEND_TRUSTED_NAME_DESCRIPTOR \<Longrightarrow>
    swap_based f \<Longrightarrow> descriptor_for P data ch = Some (name, owner) \<Longrightarrow>
    renamed P H f m (resolve_address name owner swap_refund_address (resolve_address name owner swap_payout_address m1))"

definition transaction_known :: "platform \<Rightarrow> commands_heard \<Rightarrow> swap_app_context \<Rightarrow> bool" where
  "transaction_known P H c \<longleftrightarrow>
     (\<exists>e cmd b64 payload fees m0 m.
        (e, cmd, transaction_command (ctx_subcommand c) b64 payload fees) \<in> H \<and>
        cmd_ins cmd = PROCESS_TRANSACTION_RESPONSE_COMMAND \<and>
        transaction_command_ok (ctx_subcommand c) b64 payload fees \<and>
        cx_sha256 P (ascii ''.'' @ payload) = Some (sha256_digest_prefixed c) \<and>
        cx_sha256 P payload = Some (sha256_digest_no_prefix c) \<and>
        payload_decodes e (ctx_subcommand c) b64 payload m0 m \<and> message_ok (ctx_subcommand c) m \<and>
        (transaction_id_matches (ctx_subcommand c) (device_transaction_id c) m \<or> BYPASS_TRANSACTION_ID_CHECK P) \<and>
        check_extra_id_extra_data P (ctx_subcommand c) m \<and>
        renamed P H (ctx_subcommand c) (normalized (ctx_subcommand c) m) (tx c) \<and>
        transaction_fee_length c = of_nat (length fees) \<and>
        transaction_fee c = fees @ replicate (16 - length fees) 0)"

definition signature_known :: "platform \<Rightarrow> commands_heard \<Rightarrow> swap_app_context \<Rightarrow> bool" where
  "signature_known P H c \<longleftrightarrow>
     (\<exists>e cmd in_R_S dot sig.
        (e, cmd, selector_bytes (ctx_subcommand c) in_R_S dot @ sig) \<in> H \<and>
        cmd_ins cmd = CHECK_TRANSACTION_SIGNATURE_COMMAND \<and>
        selectors_ok (ctx_subcommand c) in_R_S dot \<and> signature_size_ok in_R_S sig \<and>
        cx_ecdsa_verify P (partner_public_key c) (signed_digest dot c) (as_der in_R_S sig))"

text \<open>The coin that is received, in a swap: its address, or the warning, and the text of its amount.\<close>

definition payout_known :: "platform \<Rightarrow> commands_heard \<Rightarrow> swap_app_context \<Rightarrow> bool" where
  "payout_known P H c \<longleftrightarrow>
     (\<exists>e cmd data app conf params.
        (e, cmd, data) \<in> H \<and> cmd_ins cmd = CHECK_PAYOUT_ADDRESS \<and> cmd_subcommand cmd = ctx_subcommand c \<and>
        coin_certified P e cmd c data app conf params \<and>
        address_checked P e CHECK_PAYOUT_ADDRESS (cstr app) conf params c \<and>
        prints_amount e (cstr app) conf (pb_array_bytes swap_amount_to_wallet (tx c)) False (cstr (printable_get_amount c)))"

text \<open>The coin that is sent: its refund address, the texts, and the application that will sign.\<close>

definition asset_known :: "platform \<Rightarrow> commands_heard \<Rightarrow> swap_app_context \<Rightarrow> bool" where
  "asset_known P H c \<longleftrightarrow>
     (\<exists>e cmd data app conf params.
        (e, cmd, data) \<in> H \<and> cmd_ins cmd \<in> check_commands - {CHECK_PAYOUT_ADDRESS} \<and>
        cmd_subcommand cmd = ctx_subcommand c \<and>
        coin_certified P e cmd c data app conf params \<and>
        address_checked P e (cmd_ins cmd) (cstr app) conf params c \<and>
        prints_amount e (cstr app) conf (pb_array_bytes (relevant_amount (ctx_subcommand c) (cmd_ins cmd)) (tx c)) False
          (cstr (printable_send_amount c)) \<and>
        prints_amount e (cstr app) conf (take (unat (transaction_fee_length c)) (transaction_fee c)) True
          (cstr (printable_fees_amount c)) \<and>
        cstr (payin_binary_name c) = cstr app \<and>
        take (unat (paying_sub_coin_config_size c)) (paying_sub_coin_config c) = conf \<and>
        ctx_rate c = cmd_rate cmd \<and>
        (sell_based (ctx_subcommand c) \<longrightarrow> (\<exists>old. fiat_amount_text (tx c) old = (True, printable_get_amount c))) \<and>
        (fund_based (ctx_subcommand c) \<longrightarrow>
           cstr (printable_get_amount c) = take 49 (member_string fund_account_name (tx c))))"

text \<open>What each state requires.\<close>

definition evidence :: "platform \<Rightarrow> commands_heard \<Rightarrow> swap_app_context \<Rightarrow> bool" where
  "evidence P H c \<longleftrightarrow>
     (ctx_state c \<noteq> INITIAL_STATE \<longrightarrow> signer_known P c) \<and>
     (ctx_state c = PROVIDER_SET \<longrightarrow> partner_named P H c (sha256_digest_no_prefix c)) \<and>
     (PROVIDER_CHECKED \<le> ctx_state c \<longrightarrow> partner_known P H c) \<and>
     (TRANSACTION_RECEIVED \<le> ctx_state c \<longrightarrow> transaction_known P H c) \<and>
     (SIGNATURE_CHECKED \<le> ctx_state c \<longrightarrow> signature_known P H c) \<and>
     (PAYOUT_ADDRESS_CHECKED \<le> ctx_state c \<and> swap_based (ctx_subcommand c) \<longrightarrow> payout_known P H c) \<and>
     (ALL_ADDRESSES_CHECKED \<le> ctx_state c \<longrightarrow> asset_known P H c)"

section \<open>Evidence lasts\<close>

lemma partner_named_mono: "H \<subseteq> H' \<Longrightarrow> partner_named P H c d \<Longrightarrow> partner_named P H' c d"
  unfolding partner_named_def by blast

lemma partner_known_mono: "H \<subseteq> H' \<Longrightarrow> partner_known P H c \<Longrightarrow> partner_known P H' c"
  unfolding partner_known_def using partner_named_mono by blast

lemma renamed_mono:
  assumes "H \<subseteq> H'" and "renamed P H f m m'"
  shows "renamed P H' f m m'"
  using assms(2)
proof (induction rule: renamed.induct)
  case as_received
  show ?case by (rule renamed.as_received)
next
  case (by_descriptor m1 e cmd data ch name owner)
  with assms(1) show ?case by (intro renamed.by_descriptor) auto
qed

lemma transaction_known_mono: "H \<subseteq> H' \<Longrightarrow> transaction_known P H c \<Longrightarrow> transaction_known P H' c"
  unfolding transaction_known_def by (elim ex_forward conj_forward) (auto intro: renamed_mono)

lemma signature_known_mono: "H \<subseteq> H' \<Longrightarrow> signature_known P H c \<Longrightarrow> signature_known P H' c"
  unfolding signature_known_def by blast

lemma payout_known_mono: "H \<subseteq> H' \<Longrightarrow> payout_known P H c \<Longrightarrow> payout_known P H' c"
  unfolding payout_known_def by blast

lemma asset_known_mono: "H \<subseteq> H' \<Longrightarrow> asset_known P H c \<Longrightarrow> asset_known P H' c"
  unfolding asset_known_def by blast

lemmas known_mono = partner_named_mono partner_known_mono transaction_known_mono signature_known_mono
  payout_known_mono asset_known_mono

lemma evidence_mono: "H \<subseteq> H' \<Longrightarrow> evidence P H c \<Longrightarrow> evidence P H' c"
  unfolding evidence_def using known_mono [of H H' P c] by blast

text \<open>It rests on its own parts of the context.\<close>

lemma signer_frame: "flow_part c' = flow_part c \<Longrightarrow> signer_known P c' = signer_known P c"
  by (simp add: signer_known_def flow_part_def)

lemma partner_frame:
  assumes "flow_part c' = flow_part c" and "partner_part c' = partner_part c"
  shows "partner_named P H c' d = partner_named P H c d" and "partner_known P H c' = partner_known P H c"
  using assms by (simp_all add: partner_known_def partner_named_def displayed_partner_def part_defs)

lemma transaction_frame:
  assumes "flow_part c' = flow_part c" and "digest_part c' = digest_part c" and "tx c' = tx c"
  shows "transaction_known P H c' = transaction_known P H c"
  using assms by (simp add: transaction_known_def part_defs)

lemma signature_frame:
  assumes "flow_part c' = flow_part c" and "partner_part c' = partner_part c" and "digest_part c' = digest_part c"
  shows "signature_known P H c' = signature_known P H c"
  using assms by (simp add: signature_known_def signed_digest_def part_defs)

lemma coin_certified_frame:
  assumes "flow_part c' = flow_part c" and "tx c' = tx c"
  shows "coin_certified P e cmd c' d app conf params = coin_certified P e cmd c d app conf params"
  using assms by (simp add: coin_certified_def check_coin_configuration_signature_def flow_part_def)

lemma payout_frame:
  assumes "flow_part c' = flow_part c" and "tx c' = tx c"
    and "printable_get_amount c' = printable_get_amount c" and "other_seed_payout c' = other_seed_payout c"
  shows "payout_known P H c' = payout_known P H c"
  using assms coin_certified_frame [OF assms(1,2)]
  by (simp add: payout_known_def address_checked_def flow_part_def)

text \<open>Only the state changes.\<close>

lemma state_frame [simp]:
  "signer_known P (c\<lparr>ctx_state := s\<rparr>) = signer_known P c"
  "partner_named P H (c\<lparr>ctx_state := s\<rparr>) d = partner_named P H c d"
  "partner_known P H (c\<lparr>ctx_state := s\<rparr>) = partner_known P H c"
  "transaction_known P H (c\<lparr>ctx_state := s\<rparr>) = transaction_known P H c"
  "signature_known P H (c\<lparr>ctx_state := s\<rparr>) = signature_known P H c"
  "payout_known P H (c\<lparr>ctx_state := s\<rparr>) = payout_known P H c"
  "asset_known P H (c\<lparr>ctx_state := s\<rparr>) = asset_known P H c"
proof -
  let ?c = "c\<lparr>ctx_state := s\<rparr>"
  have same: "flow_part ?c = flow_part c" "partner_part ?c = partner_part c" "digest_part ?c = digest_part c"
    "tx ?c = tx c" "printable_get_amount ?c = printable_get_amount c" "other_seed_payout ?c = other_seed_payout c"
    by (simp_all add: part_defs)
  show "signer_known P ?c = signer_known P c" by (rule signer_frame [OF same(1)])
  show "partner_named P H ?c d = partner_named P H c d" "partner_known P H ?c = partner_known P H c"
    by (rule partner_frame [OF same(1,2)])+
  show "transaction_known P H ?c = transaction_known P H c" by (rule transaction_frame [OF same(1,3,4)])
  show "signature_known P H ?c = signature_known P H c" by (rule signature_frame [OF same(1-3)])
  show "payout_known P H ?c = payout_known P H c" by (rule payout_frame [OF same(1,4-6)])
  have "address_checked P e i a f q ?c = address_checked P e i a f q c" for e i a f q
    by (simp add: address_checked_def)
  then show "asset_known P H ?c = asset_known P H c"
    by (simp add: asset_known_def coin_certified_frame [OF same(1,4)])
qed

section \<open>Each command adds its own\<close>

lemmas state_order = less_eq_state_e_def less_state_e_def

lemma evidence_state:
  assumes "evidence P H c" and "ctx_state c = s"
  shows "s \<noteq> INITIAL_STATE \<Longrightarrow> signer_known P c"
    and "s = PROVIDER_SET \<Longrightarrow> partner_named P H c (sha256_digest_no_prefix c)"
    and "PROVIDER_CHECKED \<le> s \<Longrightarrow> partner_known P H c"
    and "TRANSACTION_RECEIVED \<le> s \<Longrightarrow> transaction_known P H c"
    and "SIGNATURE_CHECKED \<le> s \<Longrightarrow> signature_known P H c"
    and "PAYOUT_ADDRESS_CHECKED \<le> s \<Longrightarrow> swap_based (ctx_subcommand c) \<Longrightarrow> payout_known P H c"
    and "ALL_ADDRESSES_CHECKED \<le> s \<Longrightarrow> asset_known P H c"
  using assms by (simp_all add: evidence_def)

lemma servable_state:
  "servable e cmd w \<Longrightarrow> ctx_state (ctx w) \<in> allowed_states (cmd_ins cmd)"
  "servable e cmd w \<Longrightarrow> cmd_ins cmd \<notin> flowless \<Longrightarrow> cmd_subcommand cmd = ctx_subcommand (ctx w)"
  "servable e cmd w \<Longrightarrow> flow_allows (cmd_ins cmd) (cmd_subcommand cmd)"
  "servable e cmd w \<Longrightarrow> data_ok cmd (ctx w) \<and> unat (cmd_data_size cmd) < 65535"
  "servable e cmd w \<Longrightarrow> ctx_sizes (ctx w)"
  by (auto simp: servable_def accepts_def)

lemma start_evidence:
  assumes "start_new_transaction P e cmd w = (r, w')"
  shows "evidence P H (ctx w')"
  using start_done [OF assms] by (auto simp: evidence_def signer_known_def state_order)

lemma save_partner_state: "ctx_state (save_partner_name b c) = ctx_state c"
  by (subst save_partner_name_only) simp

lemma set_partner_evidence:
  assumes ok: "servable e cmd w" and i: "cmd_ins cmd = SET_PARTNER_KEY_COMMAND"
    and run: "set_partner_key P e cmd w = (r, w')" and ev: "evidence P H (ctx w)"
    and heard: "(e, cmd, data_bytes cmd (ctx w)) \<in> H"
  shows "evidence P H (ctx w')"
proof -
  have st: "ctx_state (ctx w) = WAITING_TRANSACTION" and flow: "cmd_subcommand cmd = ctx_subcommand (ctx w)"
    using servable_state(1,2) [OF ok] i by (simp_all add: flowless_def)
  have parts: "flow_part (ctx w') = flow_part (ctx w)"
    using set_partner_parts [OF run] by (simp add: parts_kept_def)
  have signer: "signer_known P (ctx w')"
    using evidence_state(1) [OF ev st] signer_frame [OF parts] by simp
  have moves: "ctx_state (ctx w') = WAITING_TRANSACTION \<or> ctx_state (ctx w') = PROVIDER_SET \<and> r = 0"
    using run st save_partner_state by (auto simp: partner_handler_defs split: option.splits sum.splits if_splits)
  show ?thesis
  proof (cases "ctx_state (ctx w') = PROVIDER_SET")
    case False
    with moves signer show ?thesis by (simp add: evidence_def state_order)
  next
    case True
    with moves st run have r: "set_partner_key P e cmd w = (0, w')" by simp
    obtain name curve key digest k m where
      d: "data_bytes cmd (ctx w) = partner_credentials (cmd_subcommand cmd) name curve key"
      "partner_credentials_ok (cmd_subcommand cmd) name curve key" "cx_ecfp_init_public_key P curve key = Some k"
      "cx_sha256 P (data_bytes cmd (ctx w)) = Some digest"
      and w': "ctx w' = (ctx w)\<lparr>partner_name := m, partner_public_key := k, sha256_digest_no_prefix := digest,
           ctx_state := PROVIDER_SET\<rparr>"
      and shown: "displayed_partner (ctx w') = partner_label (ctx_subcommand (ctx w)) name"
      using set_partner_key_done [OF r True] st servable_state(4,5) [OF ok] by auto
    have "partner_named P H (ctx w') digest"
      unfolding partner_named_def
      by (rule exI [of _ e], rule exI [of _ cmd], rule exI [of _ name], rule exI [of _ curve], rule exI [of _ key])
         (use d heard shown i flow in \<open>simp add: w'\<close>)
    with signer show ?thesis by (simp add: evidence_def state_order w')
  qed
qed

lemma check_partner_evidence:
  assumes ok: "servable e cmd w" and i: "cmd_ins cmd = CHECK_PARTNER_COMMAND"
    and run: "check_partner P e cmd w = (r, w')" and ev: "evidence P H (ctx w)"
    and heard: "(e, cmd, data_bytes cmd (ctx w)) \<in> H"
  shows "evidence P H (ctx w')"
proof -
  have st: "ctx_state (ctx w) = PROVIDER_SET" using servable_state(1) [OF ok] i by simp
  note known = evidence_state [OF ev st]
  show ?thesis
  proof (cases "ctx_state (ctx w') = PROVIDER_CHECKED")
    case False
    with plain_parts(3) [OF run] ev show ?thesis by auto
  next
    case True
    from check_partner_done [OF run True] st have
      ver: "cx_ecdsa_verify P (ledger_public_key (ctx w)) (sha256_digest_no_prefix (ctx w)) (data_bytes cmd (ctx w))"
      and w': "ctx w' = (ctx w)\<lparr>ctx_state := PROVIDER_CHECKED\<rparr>" by simp_all
    have "partner_known P H (ctx w)"
      unfolding partner_known_def using known(2) ver heard i by blast
    with known(1) show ?thesis by (simp add: evidence_def state_order w')
  qed
qed

lemma receive_state: "receive_transaction P e cmd c = (err, c') \<Longrightarrow> ctx_state c' = ctx_state c"
  using arg_cong [OF receive_transaction_frame, of P e cmd c err c' ctx_state] by (simp add: session_part_def)

lemma process_evidence:
  assumes ok: "servable e cmd w" and i: "cmd_ins cmd = PROCESS_TRANSACTION_RESPONSE_COMMAND"
    and run: "process_transaction P e cmd w = (r, w')" and ev: "evidence P H (ctx w)"
    and heard: "(e, cmd, data_bytes cmd (ctx w)) \<in> H"
  shows "evidence P H (ctx w')"
proof -
  have st: "ctx_state (ctx w) = PROVIDER_CHECKED" and flow: "cmd_subcommand cmd = ctx_subcommand (ctx w)"
    using servable_state(1,2) [OF ok] i by (simp_all add: flowless_def)
  have parts: "flow_part (ctx w') = flow_part (ctx w)" "partner_part (ctx w') = partner_part (ctx w)"
    using process_parts [OF run] by (simp_all add: parts_kept_def)
  have known: "signer_known P (ctx w')" "partner_known P H (ctx w')"
    using evidence_state(1,3) [OF ev st] signer_frame [OF parts(1)] partner_frame(2) [OF parts]
    by (simp_all add: state_order)
  have moves: "ctx_state (ctx w') = PROVIDER_CHECKED \<or> ctx_state (ctx w') = TRANSACTION_RECEIVED \<and> r = 0"
  proof -
    obtain err c where rc: "receive_transaction P e cmd (ctx w) = (err, c)" by fastforce
    with run st receive_state [OF rc] show ?thesis
      by (auto simp: process_transaction_def reply_defs split: option.splits if_splits)
  qed
  show ?thesis
  proof (cases "ctx_state (ctx w') = TRANSACTION_RECEIVED")
    case False
    with moves known show ?thesis by (simp add: evidence_def state_order)
  next
    case True
    with moves st run have r: "process_transaction P e cmd w = (0, w')" by simp
    obtain b64 payload fees m d1 d2 where
      d: "data_bytes cmd (ctx w) = transaction_command (cmd_subcommand cmd) b64 payload fees"
      "transaction_command_ok (cmd_subcommand cmd) b64 payload fees"
      "cx_sha256 P (ascii ''.'' @ payload) = Some d1" "cx_sha256 P payload = Some d2"
      "payload_decodes e (cmd_subcommand cmd) b64 payload (tx (ctx w)) m" "message_ok (cmd_subcommand cmd) m"
      "transaction_id_matches (cmd_subcommand cmd) (device_transaction_id (ctx w)) m \<or> BYPASS_TRANSACTION_ID_CHECK P"
      "check_extra_id_extra_data P (cmd_subcommand cmd) m"
      and w': "ctx w' = (ctx w)\<lparr>sha256_digest_prefixed := d1, sha256_digest_no_prefix := d2,
        tx := normalized (cmd_subcommand cmd) m, transaction_fee_length := of_nat (length fees),
        transaction_fee := fees @ replicate (16 - length fees) 0, ctx_state := TRANSACTION_RECEIVED\<rparr>"
      using process_transaction_accepted [OF r True st] servable_state(4,5) [OF ok] by blast
    have "transaction_known P H (ctx w')"
      unfolding transaction_known_def w'
      by (rule exI [of _ e], rule exI [of _ cmd], rule exI [of _ b64], rule exI [of _ payload], rule exI [of _ fees],
          rule exI [of _ "tx (ctx w)"], rule exI [of _ m])
         (use d heard flow i in \<open>simp add: as_received\<close>)
    with known True show ?thesis by (simp add: evidence_def state_order)
  qed
qed

lemma signature_evidence:
  assumes ok: "servable e cmd w" and i: "cmd_ins cmd = CHECK_TRANSACTION_SIGNATURE_COMMAND"
    and run: "check_tx_signature P e cmd w = (r, w')" and ev: "evidence P H (ctx w)"
    and heard: "(e, cmd, data_bytes cmd (ctx w)) \<in> H"
  shows "evidence P H (ctx w')"
proof -
  have st: "ctx_state (ctx w) = TRANSACTION_RECEIVED" and flow: "cmd_subcommand cmd = ctx_subcommand (ctx w)"
    using servable_state(1,2) [OF ok] i by (simp_all add: flowless_def)
  note known = evidence_state [OF ev st]
  show ?thesis
  proof (cases "ctx w' = ctx w")
    case True
    with ev show ?thesis by simp
  next
    case False
    with plain_parts(4) [OF run] have w': "ctx w' = (ctx w)\<lparr>ctx_state := SIGNATURE_CHECKED\<rparr>" by simp
    have "io_ok e" using run False by (auto simp: signature_handler_defs split: option.splits sum.splits if_splits)
    then obtain in_R_S dot sig where "tx_signature_valid P cmd (ctx w) in_R_S dot sig"
      using check_tx_signature_checks [of cmd w e P] servable_state(4) [OF ok] st run w' by auto
    then have "signature_known P H (ctx w)"
      unfolding signature_known_def tx_signature_valid_def using heard i flow by metis
    with known show ?thesis by (simp add: evidence_def state_order w')
  qed
qed

lemma trusted_evidence:
  assumes ok: "servable e cmd w" and i: "cmd_ins cmd = SEND_TRUSTED_NAME_DESCRIPTOR"
    and run: "trusted_name_descriptor_handler P e cmd w = (r, w')" and ev: "evidence P H (ctx w)"
    and heard: "(e, cmd, data_bytes cmd (ctx w)) \<in> H"
  shows "evidence P H (ctx w')"
proof -
  have st: "ctx_state (ctx w) = SIGNATURE_CHECKED" using servable_state(1) [OF ok] i by simp
  note known = evidence_state [OF ev st]
  have len: "length (tx (ctx w)) = sizeof_tx" using servable_state(5) [OF ok] by (simp add: ctx_sizes_def)
  note t = trusted_name_run [OF servable_trusted [OF ok i] len run]
  show ?thesis
  proof (cases "descriptor_for P (data_bytes cmd (ctx w)) (challenge w)")
    case None
    with t ev show ?thesis by simp
  next
    case (Some d)
    obtain name owner where d: "d = (name, owner)" by (cases d)
    let ?t = "resolve_address name owner swap_refund_address (resolve_address name owner swap_payout_address (tx (ctx w)))"
    have w': "ctx w' = (ctx w)\<lparr>tx := ?t\<rparr>" using t Some d by simp
    have ren: "renamed P H (ctx_subcommand (ctx w)) m (tx (ctx w)) \<Longrightarrow> renamed P H (ctx_subcommand (ctx w)) m ?t" for m
      using by_descriptor heard i Some d servable_trusted [OF ok i] by metis
    have "transaction_known P H (ctx w')"
      using known(4) ren unfolding transaction_known_def w'
      by (simp add: state_order) (elim ex_forward conj_forward; simp)
    moreover
    have parts: "flow_part (ctx w') = flow_part (ctx w)" "partner_part (ctx w') = partner_part (ctx w)"
      "digest_part (ctx w') = digest_part (ctx w)"
      by (simp_all add: w' part_defs)
    have "signer_known P (ctx w')" "partner_known P H (ctx w')" "signature_known P H (ctx w')"
      unfolding signer_frame [OF parts(1)] partner_frame(2) [OF parts(1,2)] signature_frame [OF parts]
      using known(1,3,5) by (simp_all add: state_order)
    moreover have "ctx_state (ctx w') = SIGNATURE_CHECKED" by (simp add: w' st)
    ultimately show ?thesis by (simp add: evidence_def state_order)
  qed
qed

text \<open>A check that fails, or is cut short by a missing application.\<close>

lemma check_unmoved:
  assumes ok: "servable e cmd w" and i: "cmd_ins cmd \<in> check_commands"
    and run: "check_addresses_and_amounts P e cmd w = (r, w')" and still: "ctx_state (ctx w') = ctx_state (ctx w)"
  shows "unchecked_part (ctx w') = unchecked_part (ctx w)"
    and "cmd_ins cmd \<noteq> CHECK_PAYOUT_ADDRESS \<Longrightarrow> swap_based (ctx_subcommand (ctx w)) \<Longrightarrow>
      printable_get_amount (ctx w') = printable_get_amount (ctx w) \<and>
      other_seed_payout (ctx w') = other_seed_payout (ctx w)"
proof -
  note state = servable_state(1,4,5) [OF ok] and libs = ok [unfolded servable_def]
  obtain r1 w1 where steps: "check_addresses_and_amounts_steps P e cmd w = (r1, w1)" by fastforce
  have lib: "libs_keep_globals e" using ok by (simp add: servable_def)
  note frame = only_checked_frame(6) [OF steps_only_checked [OF lib _ _ steps]]
  have moved: "ctx_state (ctx w) \<notin> {WAITING_USER_VALIDATION, ALL_ADDRESSES_CHECKED}"
    "ctx_state (ctx w) = PAYOUT_ADDRESS_CHECKED \<Longrightarrow> cmd_ins cmd \<noteq> CHECK_PAYOUT_ADDRESS"
    using state(1) i by auto
  have w1: "ctx w' = ctx w1"
    using run steps still moved by (cases rule: check_outcome) (auto split: if_splits)
  show "unchecked_part (ctx w') = unchecked_part (ctx w)" using frame state(2) w1 by simp
  assume p: "cmd_ins cmd \<noteq> CHECK_PAYOUT_ADDRESS" and s: "swap_based (ctx_subcommand (ctx w))"
  have "payout_kept w w1"
    using steps conjunct1 [OF state(2)] conjunct2 [OF state(2)]
  proof (cases rule: steps_cases)
    case (coin app conf params)
    show ?thesis by (rule keeps_run [OF payout_kept_by_refund [OF lib p] coin(1)])
  qed simp_all
  with s show "printable_get_amount (ctx w') = printable_get_amount (ctx w) \<and>
      other_seed_payout (ctx w') = other_seed_payout (ctx w)"
    unfolding w1 payout_kept_def by blast
qed

lemma check_unmoved_evidence:
  assumes ok: "servable e cmd w" and i: "cmd_ins cmd \<in> check_commands"
    and run: "check_addresses_and_amounts P e cmd w = (r, w')" and still: "ctx_state (ctx w') = ctx_state (ctx w)"
    and ev: "evidence P H (ctx w)"
  shows "evidence P H (ctx w')"
proof -
  note same = unchecked_part_same [OF check_unmoved(1) [OF ok i run still]]
  have parts: "flow_part (ctx w') = flow_part (ctx w)" "partner_part (ctx w') = partner_part (ctx w)"
    "digest_part (ctx w') = digest_part (ctx w)"
    using same by (simp_all add: part_defs)
  have st: "ctx_state (ctx w) = SIGNATURE_CHECKED \<or> ctx_state (ctx w) = PAYOUT_ADDRESS_CHECKED"
    "ctx_state (ctx w) = PAYOUT_ADDRESS_CHECKED \<Longrightarrow> cmd_ins cmd \<noteq> CHECK_PAYOUT_ADDRESS"
    using servable_state(1) [OF ok] i by auto
  have "payout_known P H (ctx w')"
    if p: "ctx_state (ctx w) = PAYOUT_ADDRESS_CHECKED" and s: "swap_based (ctx_subcommand (ctx w))"
  proof -
    have "payout_known P H (ctx w)" using ev p s by (simp add: evidence_def state_order)
    with payout_frame [OF parts(1) same(3)] check_unmoved(2) [OF ok i run still st(2) [OF p] s] show ?thesis by simp
  qed
  moreover have "signer_known P (ctx w')" "partner_known P H (ctx w')" "transaction_known P H (ctx w')"
    "signature_known P H (ctx w')"
    using st(1) evidence_state(1,3,4,5) [OF ev refl] signer_frame [OF parts(1)] partner_frame(2) [OF parts(1,2)]
      signature_frame [OF parts] transaction_frame [OF parts(1,3) same(3)]
    by (auto simp: state_order)
  ultimately show ?thesis
    using st(1) same(2) by (elim disjE) (simp_all add: evidence_def state_order still)
qed

lemma check_moved_evidence:
  assumes ok: "servable e cmd w" and i: "cmd_ins cmd \<in> check_commands"
    and run: "check_addresses_and_amounts P e cmd w = (r, w')" and moved: "ctx_state (ctx w') \<noteq> ctx_state (ctx w)"
    and ev: "evidence P H (ctx w)" and heard: "(e, cmd, data_bytes cmd (ctx w)) \<in> H"
  shows "evidence P H (ctx w')"
proof -
  note facts = servable_state(4,5) [OF ok]
  have lib: "libs_keep_globals e" using ok by (simp add: servable_def)
  have flow: "cmd_subcommand cmd = ctx_subcommand (ctx w)" using servable_state(2) [OF ok] i by (auto simp: flowless_def)
  from check_moved [OF run moved] facts lib obtain app conf params c where
    cert: "coin_certified P e cmd (ctx w) (data_bytes cmd (ctx w)) app conf params"
    and coin: "checked_coin P e cmd app conf params (ctx w) c"
    and w': "ctx w' = c\<lparr>ctx_state := checked_state (cmd_ins cmd)\<rparr>" by blast
  note coin = coin [unfolded checked_coin_def Let_def]
  note same = unchecked_part_same [OF conjunct1 [OF coin]]
  have parts: "flow_part c = flow_part (ctx w)" "partner_part c = partner_part (ctx w)"
    "digest_part c = digest_part (ctx w)"
    using same by (simp_all add: part_defs)
  have certc: "coin_certified P e cmd c (data_bytes cmd (ctx w)) app conf params"
    using cert coin_certified_frame [OF parts(1) same(3)] by simp
  have st: "SIGNATURE_CHECKED \<le> ctx_state (ctx w)"
    "cmd_ins cmd \<noteq> CHECK_PAYOUT_ADDRESS \<Longrightarrow> swap_based (ctx_subcommand (ctx w)) \<Longrightarrow> ctx_state (ctx w) = PAYOUT_ADDRESS_CHECKED"
    using servable_state(1,3) [OF ok] i flow by (auto simp: state_order flow_allows_def)
  have known: "signer_known P c" "partner_known P H c" "transaction_known P H c" "signature_known P H c"
    using ev st(1) signer_frame [OF parts(1)] partner_frame(2) [OF parts(1,2)]
      signature_frame [OF parts] transaction_frame [OF parts(1,3) same(3)]
    by (auto simp: evidence_def state_order)
  have payout: "payout_known P H c" if "swap_based (ctx_subcommand (ctx w))"
  proof (cases "cmd_ins cmd = CHECK_PAYOUT_ADDRESS")
    case True
    with coin heard certc flow same(2,3) that show ?thesis
      unfolding payout_known_def
      by (intro exI [of _ e] exI [of _ cmd] exI [of _ "data_bytes cmd (ctx w)"] exI [of _ app] exI [of _ conf] exI [of _ params])
         (simp add: relevant_amount_def)
  next
    case False
    have "payout_known P H (ctx w)" using ev st(2) [OF False that] that by (simp add: evidence_def state_order)
    with payout_frame [OF parts(1) same(3)] coin False that show ?thesis by simp
  qed
  have asset: "asset_known P H c" if p: "cmd_ins cmd \<noteq> CHECK_PAYOUT_ADDRESS"
  proof -
    let ?s = "ctx_subcommand (ctx w)" and ?t = "tx (ctx w)" and ?a = "cstr app"
    have "cmd_ins cmd \<in> check_commands - {CHECK_PAYOUT_ADDRESS}" using i p by simp
    moreover have "address_checked P e (cmd_ins cmd) ?a conf params c" using coin by blast
    moreover have "prints_amount e ?a conf (pb_array_bytes (relevant_amount ?s (cmd_ins cmd)) ?t) False (cstr (printable_send_amount c))"
      using coin p by simp
    moreover have "prints_amount e ?a conf (take (unat (transaction_fee_length (ctx w))) (transaction_fee (ctx w))) True
        (cstr (printable_fees_amount c))" "cstr (payin_binary_name c) = ?a"
      "take (unat (paying_sub_coin_config_size c)) (paying_sub_coin_config c) = conf" "ctx_rate c = cmd_rate cmd"
      using coin p by blast+
    moreover have "sell_based ?s \<Longrightarrow> \<exists>old. fiat_amount_text ?t old = (True, printable_get_amount c)"
      "fund_based ?s \<Longrightarrow> cstr (printable_get_amount c) = take 49 (member_string fund_account_name ?t)"
      using coin by blast+
    ultimately show ?thesis
      unfolding asset_known_def same(2,3,7,8) using heard certc flow by blast
  qed
  show ?thesis
  proof (cases "cmd_ins cmd = CHECK_PAYOUT_ADDRESS")
    case True
    with known payout same(2) show ?thesis by (simp add: w' evidence_def state_order)
  next
    case False
    with known payout asset same(2) show ?thesis by (simp add: w' evidence_def state_order)
  qed
qed

end
