(* ===== verification/Session_Safety.thy ===== *)
theory Session_Safety
  imports Session_Evidence
begin

text \<open>
  The safety of a session: in every reachable world the context rests on the evidence that its state
  requires; the review shows what the context holds; and what is handed over to be signed is what
  the user approved.
\<close>

section \<open>The evidence of every reachable world\<close>

lemma idle_evidence:
  assumes ev: "evidence P H c" and t: "t = tx c \<or> ctx_state c = PROVIDER_CHECKED"
  shows "evidence P H (c\<lparr>tx := t\<rparr>)"
proof (cases "t = tx c")
  case True
  with ev show ?thesis by simp
next
  case False
  with t have st: "ctx_state c = PROVIDER_CHECKED" by simp
  have parts: "flow_part (c\<lparr>tx := t\<rparr>) = flow_part c" "partner_part (c\<lparr>tx := t\<rparr>) = partner_part c"
    by (simp_all add: part_defs)
  have "signer_known P (c\<lparr>tx := t\<rparr>)" "partner_known P H (c\<lparr>tx := t\<rparr>)"
    unfolding signer_frame [OF parts(1)] partner_frame(2) [OF parts]
    using evidence_state(1,3) [OF ev st] by (simp_all add: state_order)
  with st show ?thesis by (simp add: evidence_def state_order)
qed

lemma served_evidence:
  assumes ok: "servable e cmd w" and run: "dispatch_command P e cmd w = (Returned v, w')"
    and running: "ctx_state (ctx w') \<noteq> SIGN_FINISHED"
    and ev: "evidence P H (ctx w)" and heard: "(e, cmd, data_bytes cmd (ctx w)) \<in> H"
  shows "evidence P H (ctx w')"
proof -
  have checks: ?thesis if i: "cmd_ins cmd \<in> check_commands"
  proof -
    have "check_addresses_and_amounts P e cmd w = (Returned v, w')" using run dispatch_check [OF i] by simp
    from check_moved_evidence [OF ok i this _ ev heard] check_unmoved_evidence [OF ok i this _ ev]
    show ?thesis by blast
  qed
  have same: "ctx w' = ctx w \<Longrightarrow> ?thesis" using ev by simp
  show ?thesis
  proof (cases "cmd_ins cmd")
    case GET_VERSION_COMMAND
    with run have "returning (get_version_handler P e w) = (Returned v, w')" by simp
    then obtain n where "get_version_handler P e w = (n, w')" by (rule returning_cases)
    from plain_parts(1) [OF this] show ?thesis by (rule same)
  next
    case START_NEW_TRANSACTION_COMMAND
    with run have "returning (start_new_transaction P e cmd w) = (Returned v, w')" by simp
    then obtain n where "start_new_transaction P e cmd w = (n, w')" by (rule returning_cases)
    from start_evidence [OF this] show ?thesis .
  next
    case i: SET_PARTNER_KEY_COMMAND
    with run have "returning (set_partner_key P e cmd w) = (Returned v, w')" by simp
    then obtain n where "set_partner_key P e cmd w = (n, w')" by (rule returning_cases)
    from set_partner_evidence [OF ok i this ev heard] show ?thesis .
  next
    case i: CHECK_PARTNER_COMMAND
    with run have "returning (check_partner P e cmd w) = (Returned v, w')" by simp
    then obtain n where "check_partner P e cmd w = (n, w')" by (rule returning_cases)
    from check_partner_evidence [OF ok i this ev heard] show ?thesis .
  next
    case i: PROCESS_TRANSACTION_RESPONSE_COMMAND
    with run have "returning (process_transaction P e cmd w) = (Returned v, w')" by simp
    then obtain n where "process_transaction P e cmd w = (n, w')" by (rule returning_cases)
    from process_evidence [OF ok i this ev heard] show ?thesis .
  next
    case i: CHECK_TRANSACTION_SIGNATURE_COMMAND
    with run have "returning (check_tx_signature P e cmd w) = (Returned v, w')" by simp
    then obtain n where "check_tx_signature P e cmd w = (n, w')" by (rule returning_cases)
    from signature_evidence [OF ok i this ev heard] show ?thesis .
  next
    case GET_CHALLENGE
    with run have "returning (get_challenge_handler e w) = (Returned v, w')" by simp
    then obtain n where "get_challenge_handler e w = (n, w')" by (rule returning_cases)
    from plain_parts(2) [OF this] show ?thesis by (rule same)
  next
    case i: SEND_TRUSTED_NAME_DESCRIPTOR
    with run have "returning (trusted_name_descriptor_handler P e cmd w) = (Returned v, w')" by simp
    then obtain n where "trusted_name_descriptor_handler P e cmd w = (n, w')" by (rule returning_cases)
    from trusted_evidence [OF ok i this ev heard] show ?thesis .
  next
    case i: PROMPT_UI_DISPLAY
    then have "ctx_state (ctx w) = ALL_ADDRESSES_CHECKED" using servable_state(1) [OF ok] by simp
    moreover have "ctx w' = (ctx w)\<lparr>ctx_state := WAITING_USER_VALIDATION\<rparr>"
      using run i by (auto simp: prompt_ui_display_def)
    ultimately show ?thesis using ev by (simp add: evidence_def state_order)
  next
    case START_SIGNING_TRANSACTION
    with run have "start_signing_transaction e cmd w = (Returned v, w')" by simp
    then have "ctx w' = ctx w" using running by (cases rule: start_signing_cases [of e cmd w]) auto
    then show ?thesis by (rule same)
  qed (use checks in simp_all)
qed

lemma thrown_evidence:
  assumes ok: "servable e cmd w" and run: "dispatch_command P e cmd w = (Threw x, w')" and ev: "evidence P H (ctx w)"
  shows "evidence P H (ctx w')"
proof (cases "cmd_ins cmd \<in> check_commands")
  case True
  with run have "check_addresses_and_amounts P e cmd w = (Threw x, w')" using dispatch_check by simp
  moreover have "ctx_state (ctx w') = ctx_state (ctx w)"
    using unchecked_part_same(1) dispatch_threw [OF ok run] by blast
  ultimately show ?thesis using check_unmoved_evidence [OF ok True _ _ ev] by blast
next
  case False
  with dispatch_threw [OF ok run] ev show ?thesis by auto
qed

lemma step_evidence:
  assumes st: "step P e event w = Some w'" and w: "resting w" and ev: "possible event w"
    and libs: "libs_keep_globals e" "libs_keep_sizes e" and known: "evidence P (heard h) (ctx w)"
  shows "evidence P (heard ((e, event, w) # h)) (ctx w')"
proof -
  let ?H = "heard ((e, event, w) # h)"
  have known: "evidence P ?H (ctx w)" using evidence_mono [OF heard_Cons known] .
  have received: "evidence P ?H (ctx w1)" if "check_apdu_validity apdu n w = (res, w1)" "n \<le> length apdu" for apdu n res w1
    using received_ctx(1) [OF that w] idle_evidence [OF known] known by auto
  show ?thesis
    using st w ev libs
  proof (cases rule: step_cases)
    case lost
    then show ?thesis by (simp add: evidence_def zero_context_def state_order)
  next
    case (idle t)
    with idle_evidence [OF known] show ?thesis by simp
  next
    case (thrown apdu n cmd w1 x w2)
    have "n \<le> length apdu" using ev thrown(1) by simp
    from thrown_evidence [OF thrown(3,4) received [OF thrown(2) this]] thrown(5) show ?thesis by simp
  next
    case (served apdu n cmd w1 v)
    have "n \<le> length apdu" using ev served(1) by simp
    from served_evidence [OF served(3-5) received [OF served(2) this]] heard_delivered [OF served(2)] served(1)
    show ?thesis by simp
  next
    case declined
    then show ?thesis by (simp add: evidence_def state_order)
  next
    case approved
    moreover have "ctx_state (ctx w) = WAITING_USER_VALIDATION" using approved(2) w by (auto simp: resting_def)
    ultimately show ?thesis using known by (simp add: evidence_def state_order)
  qed
qed

lemma reaches_evidence: "reaches P h w \<Longrightarrow> evidence P (heard h) (ctx w)"
proof (induction rule: reaches.induct)
  case (booted e)
  show ?case by (simp add: boot_def new_cycle_world zero_globals_def evidence_def zero_context_def state_order)
next
  case (stepped h w ev e w')
  from step_evidence [OF stepped(5) reaches_resting [OF stepped(1)] stepped(2-4) stepped.IH] show ?case .
qed

section \<open>The currencies of the transaction\<close>

lemma resolve_address_apart:
  assumes "length m = sizeof_tx" and "mb = swap_payout_address \<or> mb = swap_refund_address"
    and "off + n \<le> fst mb \<or> fst mb + snd mb \<le> off" and "off + n \<le> sizeof_tx"
  shows "mread off n (resolve_address name owner mb m) = mread off n m"
    and "length (resolve_address name owner mb m) = sizeof_tx"
  using assms
  by (auto simp: resolve_address_def names_address_def layout_defs mread_mwrite_before mread_mwrite_after length_mwrite)

lemma renamed_apart:
  assumes "renamed P H f m m'" and "length m = sizeof_tx"
  shows "length m' = sizeof_tx" and "mb \<in> set (currency_members f) \<Longrightarrow> member_bytes mb m' = member_bytes mb m"
proof -
  have "length m' = sizeof_tx \<and> (\<forall>mb \<in> set (currency_members f). member_bytes mb m' = member_bytes mb m)"
    using assms
  proof (induction rule: renamed.induct)
    case as_received
    then show ?case by simp
  next
    case (by_descriptor m1 e cmd data ch name owner)
    then have len: "length m1 = sizeof_tx" and s: "swap_based f" by simp_all
    let ?m2 = "resolve_address name owner swap_payout_address m1"
    have len2: "length ?m2 = sizeof_tx"
      using resolve_address_apart(2) [OF len, of swap_payout_address 0 0] by simp
    have "length (resolve_address name owner swap_refund_address ?m2) = sizeof_tx"
      using resolve_address_apart(2) [OF len2, of swap_refund_address 0 0] by simp
    moreover have "member_bytes mb (resolve_address name owner swap_refund_address ?m2) = member_bytes mb m"
      if "mb \<in> set (currency_members f)" for mb
    proof -
      have "mb = swap_currency_from \<or> mb = swap_currency_to" using that s by (auto simp: currency_members_def)
      then have "fst swap_payout_address + snd swap_payout_address \<le> fst mb"
        "fst swap_refund_address + snd swap_refund_address \<le> fst mb" "fst mb + snd mb \<le> sizeof_tx"
        by (auto simp: layout_defs)
      then show ?thesis
        using resolve_address_apart(1) [OF len, of swap_payout_address "fst mb" "snd mb"]
          resolve_address_apart(1) [OF len2, of swap_refund_address "fst mb" "snd mb"] by_descriptor that
        by (simp add: member_bytes_def)
    qed
    ultimately show ?case by blast
  qed
  then show "length m' = sizeof_tx" "mb \<in> set (currency_members f) \<Longrightarrow> member_bytes mb m' = member_bytes mb m"
    by blast+
qed

lemma known_currencies: "transaction_known P H c \<Longrightarrow> currencies_terminated c"
  unfolding transaction_known_def currencies_terminated_def
  using renamed_apart(2) [OF _ length_normalized] currencies_of_normalized by (metis (no_types, lifting))

section \<open>The review shows the context\<close>

definition review_of :: "platform \<Rightarrow> world \<Rightarrow> bool" where
  "review_of P w \<longleftrightarrow>
     cstr (review_title_string w) = title_text P (ctx w) \<and>
     cstr (review_confirm_string w) = confirm_text P (ctx w) \<and>
     review_pairs w = prepare_pairs_list P (ctx w)"

text \<open>A page that waits for the user, and on a large screen the warning before it.\<close>

definition warned :: "history \<Rightarrow> swap_app_context \<Rightarrow> bool" where
  "warned h c \<longleftrightarrow> (\<exists>e w. (e, Warning_choice True, w) \<in> set h \<and> screen w = Cross_seed_warning \<and> ctx w = c)"

lemma warned_mono: "warned h c \<Longrightarrow> warned (x # h) c"
  unfolding warned_def by (metis list.set_intros(2))

definition reviewing :: "platform \<Rightarrow> history \<Rightarrow> world \<Rightarrow> bool" where
  "reviewing P h w \<longleftrightarrow>
     (screen w = Review \<or> screen w = Cross_seed_warning \<longrightarrow> review_of P w) \<and>
     (screen w = Review \<and> SCREEN_SIZE_WALLET P \<and> other_seed_payout (ctx w) \<longrightarrow> warned h (ctx w))"

lemma reviewing_mono: "reviewing P h w \<Longrightarrow> reviewing P (x # h) w"
  by (auto simp: reviewing_def intro: warned_mono)

lemma reviewing_same:
  assumes "reviewing P h w" and "ctx w' = ctx w" and "screen w' = screen w"
    and "review_title_string w' = review_title_string w" "review_confirm_string w' = review_confirm_string w"
      "review_pairs w' = review_pairs w"
  shows "reviewing P h w'"
  using assms by (simp add: reviewing_def review_of_def)

lemma not_reviewing: "screen w \<noteq> Review \<Longrightarrow> screen w \<noteq> Cross_seed_warning \<Longrightarrow> reviewing P h w"
  by (simp add: reviewing_def)

lemma display_reviewing:
  assumes "currencies_terminated (ctx w)"
  shows "reviewing P h (start_ui_display P e w)"
proof -
  note d = start_ui_display_review [OF assms, of P e]
  have "title_text P (c\<lparr>ctx_state := s\<rparr>) = title_text P c" "confirm_text P (c\<lparr>ctx_state := s\<rparr>) = confirm_text P c"
    "prepare_pairs_list P (c\<lparr>ctx_state := s\<rparr>) = prepare_pairs_list P c" for c s
    by (simp_all add: title_text_def confirm_text_def prepare_pairs_list_def)
  with d show ?thesis by (auto simp: reviewing_def review_of_def)
qed

lemma new_cycle_reviewing: "reviewing P h (new_cycle P e w)"
  using new_cycle_world(4,5) by (intro not_reviewing)

text \<open>A command that puts up a page has found the currencies of a received transaction.\<close>

lemma served_reviewing:
  assumes ok: "servable e cmd w" and run: "dispatch_command P e cmd w = (Returned v, w')"
    and rest: "resting w'" and known: "evidence P H (ctx w')"
  shows "reviewing P h w'"
proof (cases "screen w' = Review \<or> screen w' = Cross_seed_warning")
  case False
  then show ?thesis by (intro not_reviewing) auto
next
  case True
  with rest have st: "ctx_state (ctx w') = WAITING_USER_VALIDATION" by (auto simp: resting_def)
  then have "transaction_known P H (ctx w')" using known by (simp add: evidence_def state_order)
  then have cur: "currencies_terminated (ctx w')" by (rule known_currencies)
  have display: "reviewing P h w'" if "w' = start_ui_display P e w2" for w2
  proof -
    have "currencies_terminated (ctx w2)" using cur by (simp add: that currencies_terminated_def)
    from display_reviewing [OF this] show ?thesis by (simp add: that)
  qed
  have i: "cmd_ins cmd = PROMPT_UI_DISPLAY \<or> cmd_ins cmd = CHECK_ASSET_IN_AND_DISPLAY \<or>
      cmd_ins cmd = CHECK_REFUND_ADDRESS_AND_DISPLAY"
    using dispatch_contract [OF ok run] servable_state(1) [OF ok] st by (cases "cmd_ins cmd") auto
  show ?thesis
  proof (cases "cmd_ins cmd = PROMPT_UI_DISPLAY")
    case True
    with run display show ?thesis by (auto simp: prompt_ui_display_def)
  next
    case False
    with i run have c: "check_addresses_and_amounts P e cmd w = (Returned v, w')" using dispatch_check by auto
    obtain r1 w1 where steps: "check_addresses_and_amounts_steps P e cmd w = (r1, w1)" by fastforce
    have "only_checked w w1" using steps_only_checked [OF _ _ _ steps] ok by (simp add: servable_def)
    note same = unchecked_part_same(1) [OF only_checked_frame(6) [OF this]]
    have "ctx_state (ctx w) \<noteq> WAITING_USER_VALIDATION" using servable_state(1) [OF ok] i by auto
    with st same have moved: "ctx_state (ctx w') \<noteq> ctx_state (ctx w1)" by simp
    show ?thesis
      using c steps
    proof (cases rule: check_outcome)
      case displayed
      then show ?thesis using display by blast
    qed (use moved st in \<open>auto split: if_splits\<close>)
  qed
qed

lemma step_reviewing:
  assumes st: "step P e ev w = Some w'" and w: "resting w" and p: "possible ev w"
    and libs: "libs_keep_globals e" "libs_keep_sizes e"
    and rest: "resting w'" and known: "evidence P H (ctx w')" and rev: "reviewing P h w"
  shows "reviewing P ((e, ev, w) # h) w'"
proof (cases ev)
  case (Received_apdu apdu n)
  with p have n: "n \<le> length apdu" by simp
  obtain k w2 where run: "app_main_turn P e apdu n w = (k, w2)" by fastforce
  have w': "w' = (if k = Next_command then w2 else new_cycle P e w2)"
    using st Received_apdu run by (cases k; simp)+
  show ?thesis
    using run w n libs
  proof (cases rule: turn_cases)
    case (refused err w1)
    note r = received_ctx [OF refused(1) n w]
    show ?thesis
    proof (cases "screen w = Review \<or> screen w = Cross_seed_warning")
      case True
      then have "ctx w1 = ctx w" using r(1) w by (auto simp: resting_def)
      with reviewing_same [OF reviewing_mono [OF rev], of w'] r(4,8-10) refused w' show ?thesis by simp
    next
      case False
      with refused r(4) w' show ?thesis by (intro not_reviewing) simp_all
    qed
  next
    case (served cmd w1 v w3)
    with served_reviewing [OF served(2,3), of H] rest known w' show ?thesis by simp
  next
    case (thrown cmd w1 x w3)
    with catch_world(4) [OF thrown(4)] w' new_cycle_reviewing show ?thesis by simp
  qed (use w' new_cycle_reviewing in simp_all)
next
  case Reception_failed
  with st new_cycle_reviewing show ?thesis by auto
next
  case (Raised x)
  obtain k w1 where c: "catch_exception e x w = (k, w1)" by fastforce
  with st Raised catch_world(4) [OF c] new_cycle_reviewing show ?thesis by (cases k) auto
next
  case (Warning_choice b)
  show ?thesis
  proof (cases b)
    case True
    have "screen w = Cross_seed_warning" using p Warning_choice by simp
    moreover from this have "warned ((e, ev, w) # h) (ctx w)" using Warning_choice True by (auto simp: warned_def)
    ultimately show ?thesis using st Warning_choice True rev
      by (auto simp: on_warning_choice_def reviewing_def review_of_def)
  next
    case False
    with st Warning_choice show ?thesis by (intro not_reviewing) (auto simp: on_warning_choice_def refusal_world)
  qed
next
  case (Review_choice b)
  with st show ?thesis by (intro not_reviewing) (auto simp: review_choice_world split: if_splits)
next
  case Page_closed
  with st show ?thesis by (intro not_reviewing) (auto simp: ui_idle_def)
qed (use st in \<open>simp add: app_quit_def\<close>)

section \<open>Nothing is signed but what was approved\<close>

text \<open>The user approved, on a review of it, the context as it is now.\<close>

definition approved_by_user :: "platform \<Rightarrow> history \<Rightarrow> swap_app_context \<Rightarrow> bool" where
  "approved_by_user P h c \<longleftrightarrow>
     (\<exists>e w0. (e, Review_choice True, w0) \<in> set h \<and> screen w0 = Review \<and>
        c = (ctx w0)\<lparr>ctx_state := WAITING_SIGNING\<rparr> \<and> review_of P w0 \<and>
        (SCREEN_SIZE_WALLET P \<and> other_seed_payout c \<longrightarrow> warned h (ctx w0)))"

lemma approved_mono: "approved_by_user P h c \<Longrightarrow> approved_by_user P (x # h) c"
  unfolding approved_by_user_def using warned_mono by (metis list.set_intros(2))

lemma step_approved:
  assumes st: "step P e ev w = Some w'" and w: "resting w" and p: "possible ev w"
    and libs: "libs_keep_globals e" "libs_keep_sizes e" and rev: "reviewing P h w"
    and known: "ctx_state (ctx w) = WAITING_SIGNING \<Longrightarrow> approved_by_user P h (ctx w)"
    and signing: "ctx_state (ctx w') = WAITING_SIGNING"
  shows "approved_by_user P ((e, ev, w) # h) (ctx w')"
proof -
  have same: "approved_by_user P ((e, ev, w) # h) (ctx w')" if "ctx w' = ctx w"
    using known signing that approved_mono by simp
  have received: "ctx w1 = ctx w" if "check_apdu_validity apdu n w = (Inr cmd, w1)" "possible (Received_apdu apdu n) w"
    "ctx_state (ctx w1) \<noteq> PROVIDER_CHECKED" for apdu n cmd w1
  proof -
    have "n \<le> length apdu" using that(2) by simp
    from received_ctx(1) [OF that(1) this w] that(3) show ?thesis by auto
  qed
  show ?thesis
    using st w p libs
  proof (cases rule: step_cases)
    case lost
    with signing show ?thesis by (simp add: zero_context_def)
  next
    case (idle t)
    with signing show ?thesis by (intro same) auto
  next
    case (thrown apdu n cmd w1 x w2)
    note t = dispatch_threw [OF thrown(3,4)]
    have "ctx_state (ctx w1) = WAITING_SIGNING"
      using unchecked_part_same(1) [OF conjunct1 [OF t]] signing thrown(5) by simp
    moreover from this have "cmd_ins cmd \<notin> check_commands" using servable_state(1) [OF thrown(3)] by auto
    ultimately show ?thesis using t thrown(5) received [OF thrown(2)] p thrown(1) by (intro same) auto
  next
    case (served apdu n cmd w1 v)
    note c = dispatch_contract [OF served(3,4)]
    have "ctx_state (ctx w1) = WAITING_SIGNING" using c signing by (cases "cmd_ins cmd") auto
    then have "cmd_ins cmd \<in> closing_commands" using servable_state(1) [OF served(3)] by (cases "cmd_ins cmd") auto
    moreover have "cmd_ins cmd \<noteq> START_NEW_TRANSACTION_COMMAND"
    proof
      assume i: "cmd_ins cmd = START_NEW_TRANSACTION_COMMAND"
      with served(4) have "returning (start_new_transaction P e cmd w1) = (Returned v, w')" by simp
      then obtain k where "start_new_transaction P e cmd w1 = (k, w')" by (rule returning_cases)
      from start_done [OF this] signing show False by simp
    qed
    ultimately have "start_signing_transaction e cmd w1 = (Returned v, w')" using served(4) by simp
    then have "ctx w' = ctx w1" using served(5) by (cases rule: start_signing_cases [of e cmd w1]) auto
    with received [OF served(2)] p served(1) signing show ?thesis by (intro same) simp
  next
    case declined
    with signing show ?thesis by simp
  next
    case approved
    have "review_of P w" "SCREEN_SIZE_WALLET P \<and> other_seed_payout (ctx w) \<longrightarrow> warned h (ctx w)"
      using rev approved(2) by (auto simp: reviewing_def)
    with approved show ?thesis
      unfolding approved_by_user_def
      by (intro exI [of _ e] exI [of _ w]) (auto intro: warned_mono)
  qed
qed

lemma reaches_approved:
  assumes "reaches P h w"
  shows "reviewing P h w" and "ctx_state (ctx w) = WAITING_SIGNING \<Longrightarrow> approved_by_user P h (ctx w)"
proof -
  have "reviewing P h w \<and> (ctx_state (ctx w) = WAITING_SIGNING \<longrightarrow> approved_by_user P h (ctx w))"
    using assms
  proof (induction rule: reaches.induct)
    case (booted e)
    have "ctx_state (ctx (boot P e)) = INITIAL_STATE"
      by (simp add: boot_def new_cycle_world zero_globals_def zero_context_def)
    then show ?case by (simp add: boot_def new_cycle_reviewing)
  next
    case (stepped h w ev e w')
    note w = reaches_resting [OF stepped(1)]
    note known = step_evidence [OF stepped(5) w stepped(2-4) reaches_evidence [OF stepped(1)]]
    have rest: "resting w'" by (rule step_resting [OF stepped(5) w stepped(2-4)])
    from step_reviewing [OF stepped(5) w stepped(2-4) rest known] stepped.IH
      step_approved [OF stepped(5) w stepped(2-4)] show ?case by blast
  qed
  then show "reviewing P h w" "ctx_state (ctx w) = WAITING_SIGNING \<Longrightarrow> approved_by_user P h (ctx w)" by blast+
qed

text \<open>
  C2: The context of every reachable world rests on the evidence that its state requires: the key of
  the signer; then a name and a key of the partner from credentials that the signer signed; then a
  transaction as it was received, decoded and normalised, with the identifier of the session; then
  the signature of that partner over it; then the checked coins. None of it can be skipped, and
  nothing that comes later can change what it is about but a trusted name.
\<close>

theorem session_evidence:
  assumes "reaches P h w"
  shows "evidence P (heard h) (ctx w)"
  by (rule reaches_evidence [OF assms])

text \<open>What the application that signs was asked, and what the user had been shown of it.\<close>

definition shown_as ::
    "platform \<Rightarrow> swap_app_context \<Rightarrow> create_transaction_parameters \<Rightarrow> bool" where
  "shown_as P c p \<longleftrightarrow>
     (\<exists>e conf.
        ct_coin_configuration p = (if conf = [] then None else Some conf) \<and>
        prints_amount e (ct_application_name p) conf (ct_amount p) False (shown c Printable_send) \<and>
        prints_amount e (ct_application_name p) conf (ct_fee_amount p) True (shown c Printable_fees)) \<and>
     (Text (ascii ''Send''), Printable_send) \<in> set (prepare_pairs_list P c) \<and>
     (Text (ascii ''Fees''), Printable_fees) \<in> set (prepare_pairs_list P c)"

lemma parameters_shown:
  assumes "asset_known P H c" and size: "ctx_sizes c"
  shows "shown_as P c (signing_parameters (ctx_subcommand c) c)"
proof -
  let ?p = "signing_parameters (ctx_subcommand c) c"
  obtain e and cmd :: command_t and app conf where i: "cmd_ins cmd \<in> check_commands - {CHECK_PAYOUT_ADDRESS}"
    and amt: "prints_amount e (cstr app) conf (pb_array_bytes (relevant_amount (ctx_subcommand c) (cmd_ins cmd)) (tx c)) False
        (cstr (printable_send_amount c))"
    and fee: "prints_amount e (cstr app) conf (take (unat (transaction_fee_length c)) (transaction_fee c)) True
        (cstr (printable_fees_amount c))"
    and app: "cstr (payin_binary_name c) = cstr app"
    and conf: "take (unat (paying_sub_coin_config_size c)) (paying_sub_coin_config c) = conf"
    using assms(1) unfolding asset_known_def by blast
  have "paying_sub_coin_config_size c = 0 \<longleftrightarrow> conf = []"
    using conf size by (auto simp: ctx_sizes_def size_defs unat_eq_zero)
  moreover have "ct_amount ?p = pb_array_bytes (relevant_amount (ctx_subcommand c) (cmd_ins cmd)) (tx c)"
    using i by (auto simp: signing_parameters_def relevant_amount_def Let_def split: if_splits)
  moreover have "ct_application_name ?p = cstr app" "ct_fee_amount ?p = take (unat (transaction_fee_length c)) (transaction_fee c)"
    "ct_coin_configuration ?p = (if paying_sub_coin_config_size c = 0 then None else Some conf)"
    using app conf by (simp_all add: signing_parameters_def case_prod_unfold Let_def)
  moreover have "(Text (ascii ''Send''), Printable_send) \<in> set (prepare_pairs_list P c)"
    "(Text (ascii ''Fees''), Printable_fees) \<in> set (prepare_pairs_list P c)"
    by (simp_all add: prepare_pairs_list_def Let_def)
  ultimately show ?thesis unfolding shown_as_def using amt fee by (metis shown.simps(7,9))
qed

lemma signing_delivered:
  assumes reach: "reaches P h w" and v: "check_apdu_validity apdu n w = (Inr cmd, w1)" and n: "n \<le> length apdu"
    and i: "cmd_ins cmd = START_SIGNING_TRANSACTION"
  shows "ctx w1 = ctx w" and "ctx_state (ctx w) = WAITING_SIGNING" and "cmd_subcommand cmd = ctx_subcommand (ctx w)"
    and "ctx_sizes (ctx w)"
proof -
  have w: "resting w" by (rule reaches_resting [OF reach])
  then have "reception_ok w" by (simp add: resting_def)
  from validity_delivers [OF v n this] i
  show st: "ctx_state (ctx w) = WAITING_SIGNING" and "cmd_subcommand cmd = ctx_subcommand (ctx w)"
    by (simp_all add: accepts_def flowless_def)
  show "ctx w1 = ctx w" using received_ctx(1) [OF v n w] st by auto
  show "ctx_sizes (ctx w)" using w by (simp add: resting_def)
qed

text \<open>
  C1: What is signed is what the user approved. Whenever a signing application is run, the user has
  accepted, on the review, exactly the context that is signed, after the warning when the payout
  address is of another seed; that context rests on all the evidence: a partner certified by the
  signer, its signature over the transaction of this session, the checked coins; and the amount and
  the fees that the application is given are those whose texts, written by the same application for
  the same coin, the review showed.
\<close>

theorem signed_as_approved:
  assumes "reaches P h w" and "check_apdu_validity apdu n w = (Inr cmd, w1)" and "n \<le> length apdu"
    and "cmd_ins cmd = START_SIGNING_TRANSACTION" and "dispatch_command P e cmd w1 = (Returned 0, w2)"
  shows "\<exists>p result g k.
    lib_sign_transaction e p (globals_of w1) = Lib_returned result g k \<and>
    p = signing_parameters (ctx_subcommand (ctx w)) (ctx w) \<and> shown_as P (ctx w) p \<and>
    approved_by_user P h (ctx w) \<and>
    signer_known P (ctx w) \<and> partner_known P (heard h) (ctx w) \<and> transaction_known P (heard h) (ctx w) \<and>
    signature_known P (heard h) (ctx w) \<and> asset_known P (heard h) (ctx w) \<and>
    (swap_based (ctx_subcommand (ctx w)) \<longrightarrow> payout_known P (heard h) (ctx w))"
proof -
  note d = signing_delivered [OF assms(1-4)]
  note known = evidence_state [OF reaches_evidence [OF assms(1)] d(2)]
  have asset: "asset_known P (heard h) (ctx w)" using known(7) by (simp add: state_order)
  have "start_signing_transaction e cmd w1 = (Returned 0, w2)" using assms(4,5) by simp
  then obtain result g k where
    "lib_sign_transaction e (signing_parameters (ctx_subcommand (ctx w)) (ctx w)) (globals_of w1) = Lib_returned result g k"
    using d(1,3) by (cases rule: start_signing_cases [of e cmd w1]) auto
  with parameters_shown [OF asset d(4)] reaches_approved(2) [OF assms(1) d(2)] known asset show ?thesis
    by (auto simp: state_order)
qed

end
