(* ===== verification/One_Signature.thy ===== *)
theory One_Signature
  imports Session_Safety
begin

text \<open>
  How often a signature can be had: the signatures, the approvals and the new transactions of a
  history are counted, and each signature takes up an approval, each approval a new transaction.
\<close>

section \<open>What is counted\<close>

fun delivers :: "command_e \<Rightarrow> event \<Rightarrow> world \<Rightarrow> bool" where
  "delivers i (Received_apdu apdu n) w =
     (case check_apdu_validity apdu n w of (Inr cmd, w) \<Rightarrow> cmd_ins cmd = i | (Inl err, w) \<Rightarrow> False)"
| "delivers i ev w = False"

text \<open>The command to sign ran the application that signs, and it came back.\<close>

fun signs :: "platform \<Rightarrow> outside \<Rightarrow> event \<Rightarrow> world \<Rightarrow> bool" where
  "signs P e (Received_apdu apdu n) w =
     (case check_apdu_validity apdu n w of
        (Inr cmd, w) \<Rightarrow> cmd_ins cmd = START_SIGNING_TRANSACTION \<and> fst (dispatch_command P e cmd w) = Returned 0
      | (Inl err, w) \<Rightarrow> False)"
| "signs P e ev w = False"

definition signatures :: "platform \<Rightarrow> history \<Rightarrow> nat" where
  "signatures P h = length (filter (\<lambda>(e, ev, w). signs P e ev w) h)"

definition approvals :: "history \<Rightarrow> nat" where
  "approvals h = length (filter (\<lambda>(e, ev, w). ev = Review_choice True) h)"

definition new_transactions :: "history \<Rightarrow> nat" where
  "new_transactions h = length (filter (\<lambda>(e, ev, w). delivers START_NEW_TRANSACTION_COMMAND ev w) h)"

definition under_way :: "state_e \<Rightarrow> bool" where
  "under_way s \<longleftrightarrow> s \<notin> {INITIAL_STATE, WAITING_SIGNING, SIGN_FINISHED}"

lemmas counts_defs = signatures_def approvals_def new_transactions_def

section \<open>What an event takes and gives\<close>

lemma signs_run:
  assumes "signs P e ev w"
  obtains apdu n cmd w1 w2 where "ev = Received_apdu apdu n" "check_apdu_validity apdu n w = (Inr cmd, w1)"
    "cmd_ins cmd = START_SIGNING_TRANSACTION" "start_signing_transaction e cmd w1 = (Returned 0, w2)"
    "ctx_state (ctx w2) = SIGN_FINISHED" "step P e ev w = Some (new_cycle P e w2)"
proof -
  obtain apdu n where a: "ev = Received_apdu apdu n" using assms by (cases ev) simp_all
  obtain r w1 where v: "check_apdu_validity apdu n w = (r, w1)" by fastforce
  with assms a obtain cmd where cmd: "r = Inr cmd" "cmd_ins cmd = START_SIGNING_TRANSACTION"
    "fst (dispatch_command P e cmd w1) = Returned 0" by (simp del: dispatch_command.simps split: sum.splits)
  obtain w2 where d: "dispatch_command P e cmd w1 = (Returned 0, w2)" using cmd(3) by (metis prod.collapse)
  then have s: "start_signing_transaction e cmd w1 = (Returned 0, w2)" using cmd(2) by simp
  then have fin: "ctx_state (ctx w2) = SIGN_FINISHED" by (cases rule: start_signing_cases [of e cmd w1]) auto
  then have "step P e ev w = Some (new_cycle P e w2)"
    by (simp add: a app_main_turn_def v cmd(1) d del: dispatch_command.simps)
  with that a v cmd(1,2) s fin show thesis by blast
qed

lemma signing_closes:
  assumes s: "signs P e ev w" and st: "step P e ev w = Some w'" and reach: "reaches P h w" and ev: "possible ev w"
  shows "ctx_state (ctx w) = WAITING_SIGNING \<and> ctx_state (ctx w') = INITIAL_STATE"
  using s
proof (cases rule: signs_run)
  case (1 apdu n cmd w1 w2)
  have "w' = new_cycle P e w2" using st 1(6) by simp
  then have "ctx_state (ctx w') = INITIAL_STATE" using 1(5) by (simp add: new_cycle_world zero_context_def)
  moreover have "ctx_state (ctx w) = WAITING_SIGNING" using signing_delivered(2) [OF reach 1(2) _ 1(3)] ev 1(1) by simp
  ultimately show ?thesis by simp
qed

lemma goal_not_signing: "WAITING_SIGNING \<notin> goal_states i"
  by (cases i) auto

lemma signing_opened:
  assumes st: "step P e ev w = Some w'" and w: "resting w" and ev: "possible ev w"
    and libs: "libs_keep_globals e" "libs_keep_sizes e" and s: "ctx_state (ctx w') = WAITING_SIGNING"
  shows "ctx_state (ctx w) = WAITING_SIGNING \<or> ev = Review_choice True"
  using st w ev libs
proof (cases rule: step_cases)
  case (thrown apdu n cmd w1 x w2)
  have "ctx_state (ctx w2) = ctx_state (ctx w1)"
    using unchecked_part_same(1) dispatch_threw [OF thrown(3,4)] by blast
  moreover have "ctx_state (ctx w1) = ctx_state (ctx w)"
    using delivered_view [OF thrown(2) _ w] ev thrown(1) by (simp add: protocol_view_def)
  ultimately show ?thesis using s thrown(5) by simp
next
  case (served apdu n cmd w1 v)
  have "ctx_state (ctx w1) = ctx_state (ctx w)"
    using delivered_view [OF served(2) _ w] ev served(1) by (simp add: protocol_view_def)
  with dispatch_contract [OF served(3,4)] goal_not_signing s show ?thesis by (metis (no_types))
qed (use s in \<open>auto simp: zero_context_def\<close>)

lemma goals_under_way:
  "s \<in> allowed_states i \<Longrightarrow> t \<in> goal_states i \<Longrightarrow> i \<notin> closing_commands \<Longrightarrow> under_way t \<Longrightarrow> under_way s"
  by (cases i) (auto simp: under_way_def)

lemma label_delivers: "label_of ev w = Command i f \<Longrightarrow> delivers i ev w"
  by (cases ev) (auto split: prod.splits sum.splits)

lemma automaton_under_way:
  "protocol_step (s, f) l (t, g) \<Longrightarrow> under_way t \<Longrightarrow>
   under_way s \<or> (\<exists>f'. l = Command START_NEW_TRANSACTION_COMMAND f')"
  by (elim protocol_stepE) (use goals_under_way in \<open>auto simp: under_way_def\<close>)

lemma transaction_opened:
  assumes st: "step P e ev w = Some w'" and w: "resting w" and ev: "possible ev w"
    and libs: "libs_keep_globals e" "libs_keep_sizes e" and t: "under_way (ctx_state (ctx w'))"
  shows "under_way (ctx_state (ctx w)) \<or> delivers START_NEW_TRANSACTION_COMMAND ev w"
  using automaton_under_way [OF step_refines_automaton [OF st w ev libs, unfolded protocol_view_def] t]
    label_delivers by blast

lemma approval_closes:
  assumes st: "step P e (Review_choice True) w = Some w'" and w: "resting w" and ev: "possible (Review_choice True) w"
  shows "ctx_state (ctx w) = WAITING_USER_VALIDATION \<and> ctx_state (ctx w') = WAITING_SIGNING"
  using assms by (auto simp: review_choice_world resting_def)

lemma signatures_bounded:
  "reaches P h w \<Longrightarrow>
   signatures P h + (if ctx_state (ctx w) = WAITING_SIGNING then 1 else 0) \<le> approvals h \<and>
   approvals h + (if under_way (ctx_state (ctx w)) then 1 else 0) \<le> new_transactions h"
proof (induction rule: reaches.induct)
  case (booted e)
  show ?case by (simp add: counts_defs boot_def new_cycle_world zero_globals_def zero_context_def under_way_def)
next
  case (stepped h w ev e w')
  note w = reaches_resting [OF stepped(1)] and st = stepped(5) and ev = stepped(2) and libs = stepped(3,4)
  note opened = signing_opened [OF st w ev libs] transaction_opened [OF st w ev libs]
  have closes: "signs P e ev w \<Longrightarrow> ctx_state (ctx w) = WAITING_SIGNING \<and> ctx_state (ctx w') = INITIAL_STATE"
    by (rule signing_closes [OF _ st stepped(1) ev])
  show ?case
  proof (cases "ev = Review_choice True")
    case True
    with approval_closes [of P e w w'] st w ev
    have "ctx_state (ctx w) = WAITING_USER_VALIDATION" "ctx_state (ctx w') = WAITING_SIGNING" by blast+
    with stepped.IH True show ?thesis by (simp add: counts_defs under_way_def)
  next
    case False
    with stepped.IH opened closes show ?thesis
      by (auto simp: counts_defs)
  qed
qed

text \<open>
  C3: One approval, one signature: in every history there have been at most as many signatures as
  approvals on the review, and at most as many approvals as new transactions; an approval that has
  not been used and a transaction under way are counted, so that none of them serves twice.
\<close>

theorem one_approval_one_signature:
  assumes "reaches P h w"
  shows "signatures P h + (if ctx_state (ctx w) = WAITING_SIGNING then 1 else 0) \<le> approvals h \<and>
    approvals h + (if under_way (ctx_state (ctx w)) then 1 else 0) \<le> new_transactions h"
  by (rule signatures_bounded [OF assms])

section \<open>What is left of a signed session\<close>

lemma boot_cycle:
  "globals_of (boot P e) = zero_globals\<lparr>challenge := if FIXED_TLV_CHALLENGE P then 0xdeadbeef else rng_u32 e\<rparr>"
proof -
  have z: "ctx_state (ctx zero_globals) = INITIAL_STATE" "\<not> had_previous_cycle (previous_cycle zero_globals)"
    by (simp_all add: zero_globals_def zero_context_rest zero_cycle_def)
  show ?thesis
    by (simp add: boot_def new_cycle_def reset_BSS_def first_page_def ui_idle_def roll_challenge_def z globals_of_def
        with_globals_def)
qed

lemma cycle_after_signature:
  assumes "ctx_state (ctx w) = SIGN_FINISHED"
  shows "globals_of (new_cycle P e w) =
      (globals_of (boot P e))\<lparr>previous_cycle := (previous_cycle w)\<lparr>had_previous_cycle := False\<rparr>\<rparr>"
    and "screen (new_cycle P e w) =
      (if was_successful (previous_cycle w) then Transaction_signed else screen (new_cycle P e w))"
    and "\<not> was_successful (previous_cycle w) \<Longrightarrow> \<exists>t. screen (new_cycle P e w) = Signing_failure t"
  using assms unfolding boot_cycle
  by (simp_all add: new_cycle_def reset_BSS_def first_page_def roll_challenge_def display_signing_success_def
      display_signing_failure_def Let_def globals_of_def with_globals_def)

text \<open>
  C9: Nothing of a signed session is left: the globals after it are those of a start of the program,
  but for the record of the last cycle, which tells the page to show; and success is shown only when
  the application that signs has reported it.
\<close>

theorem signed_session_erased:
  assumes "signs P e ev w" and "step P e ev w = Some w'"
  shows "\<exists>p g result g' k last.
    lib_sign_transaction e p g = Lib_returned result g' k \<and>
    globals_of w' = (globals_of (boot P e))\<lparr>previous_cycle := last\<rparr> \<and> \<not> had_previous_cycle last \<and>
    (screen w' = Transaction_signed \<longleftrightarrow> result = 1) \<and>
    (screen w' \<noteq> Transaction_signed \<longrightarrow> (\<exists>t. screen w' = Signing_failure t))"
proof -
  from signs_run [OF assms(1)] obtain cmd w1 w2 where a: "start_signing_transaction e cmd w1 = (Returned 0, w2)"
    "ctx_state (ctx w2) = SIGN_FINISHED" "step P e ev w = Some (new_cycle P e w2)" by blast
  have w': "w' = new_cycle P e w2" using assms(2) a(3) by simp
  show ?thesis
  proof (cases rule: start_signing_cases [of e cmd w1])
    case (signed result g k w3)
    then have "was_successful (previous_cycle w2) = (result = 1)" using a(1) by simp
    note c = cycle_after_signature [OF a(2), of P e] and r = this
    have s: "screen w' = Transaction_signed \<longleftrightarrow> result = 1"
      "screen w' \<noteq> Transaction_signed \<longrightarrow> (\<exists>t. screen w' = Signing_failure t)"
      using c(2,3) r unfolding w' by auto
    show ?thesis
      by (intro exI conjI, rule signed(1), rule c(1) [folded w'], simp, rule s(1), rule s(2))
  qed (use a(1) in simp_all)
qed

end
