(* ===== verification/Corruption.thy ===== *)
theory Corruption
  imports Main_Loop
begin

text \<open>
  What becomes of a library that writes where it should not: the check sum of the globals and the
  canary on the stack find it out, and nothing is accepted from the call; the globals, though, stay as
  it left them.
\<close>

section \<open>Calls that are seen to corrupt\<close>

text \<open>What the guard of a call can see: the check sum of the globals has changed, or the canary has.\<close>

definition corrupted :: "platform \<Rightarrow> globals \<Rightarrow> 'r lib_outcome \<Rightarrow> bool" where
  "corrupted P g out \<longleftrightarrow>
     (case out of
        Lib_missing \<Rightarrow> False
      | Lib_returned r g' k \<Rightarrow> cx_crc16 P g' \<noteq> cx_crc16 P g \<or> k \<noteq> OS_LIB_CALL_CANARY_VALUE)"

text \<open>
  The same outside, without what such a call returns: where it would return corrupted, the application
  is not found.
\<close>

definition distrusted :: "platform \<Rightarrow> ('p \<Rightarrow> globals \<Rightarrow> 'r lib_outcome) \<Rightarrow> 'p \<Rightarrow> globals \<Rightarrow> 'r lib_outcome" where
  "distrusted P call p g = (let out = call p g in if corrupted P g out then Lib_missing else out)"

definition without_corruption :: "platform \<Rightarrow> outside \<Rightarrow> outside" where
  "without_corruption P e =
     e\<lparr>lib_check_address := distrusted P (lib_check_address e),
       lib_get_printable_amount := distrusted P (lib_get_printable_amount e)\<rparr>"

text \<open>The globals as such a call leaves them.\<close>

definition leaves_corrupted :: "platform \<Rightarrow> ('p \<Rightarrow> globals \<Rightarrow> 'r lib_outcome) \<Rightarrow> globals \<Rightarrow> bool" where
  "leaves_corrupted P call g' \<longleftrightarrow> (\<exists>p g r k. call p g = Lib_returned r g' k \<and> corrupted P g (call p g))"

definition left_corrupted :: "platform \<Rightarrow> outside \<Rightarrow> globals \<Rightarrow> bool" where
  "left_corrupted P e g \<longleftrightarrow>
     leaves_corrupted P (lib_check_address e) g \<or> leaves_corrupted P (lib_get_printable_amount e) g"

lemma outside_same [simp]:
  "lib_check_address (without_corruption P e) = distrusted P (lib_check_address e)"
  "lib_get_printable_amount (without_corruption P e) = distrusted P (lib_get_printable_amount e)"
  "io_ok (without_corruption P e) = io_ok e" "stack_bytes (without_corruption P e) = stack_bytes e"
  by (simp_all add: without_corruption_def)

section \<open>The steps of a check\<close>

text \<open>
  A step, and the same step without corrupted returns: either they do the same, or the first stops with
  \<open>MEMORY_CORRUPTION\<close>, and with the globals of the call that was found out.
\<close>

definition watched :: "platform \<Rightarrow> outside \<Rightarrow> 'a step \<Rightarrow> 'a step \<Rightarrow> bool" where
  "watched P e m m' \<longleftrightarrow>
     (\<forall>w r w1. m w = (r, w1) \<longrightarrow>
        (r = Inl (Error MEMORY_CORRUPTION) \<and> sent w1 = sent w \<and> screen w1 = screen w \<and> left_corrupted P e (globals_of w1)) \<or>
        (r \<noteq> Inl (Error MEMORY_CORRUPTION) \<and> r \<noteq> Inl (Error SUCCESS) \<and> m' w = (r, w1) \<and>
          sent w1 = sent w \<and> screen w1 = screen w))"

lemma watchedI:
  assumes "\<And>w r w1. m w = (r, w1) \<Longrightarrow>
      sent w1 = sent w \<and> screen w1 = screen w \<and>
      (if r = Inl (Error MEMORY_CORRUPTION) then left_corrupted P e (globals_of w1)
       else r \<noteq> Inl (Error SUCCESS) \<and> m' w = (r, w1))"
  shows "watched P e m m'"
  using assms unfolding watched_def by (metis (full_types))

lemma watchedD:
  assumes "watched P e m m'" and "m w = (r, w1)"
  shows "sent w1 = sent w" "screen w1 = screen w" "r \<noteq> Inl (Error SUCCESS)"
    "r = Inl (Error MEMORY_CORRUPTION) \<Longrightarrow> left_corrupted P e (globals_of w1)"
    "r \<noteq> Inl (Error MEMORY_CORRUPTION) \<Longrightarrow> m' w = (r, w1)"
proof -
  from assms have "r = Inl (Error MEMORY_CORRUPTION) \<and> sent w1 = sent w \<and> screen w1 = screen w \<and> left_corrupted P e (globals_of w1) \<or>
      r \<noteq> Inl (Error MEMORY_CORRUPTION) \<and> r \<noteq> Inl (Error SUCCESS) \<and> m' w = (r, w1) \<and> sent w1 = sent w \<and> screen w1 = screen w"
    unfolding watched_def by blast
  then show "sent w1 = sent w" "screen w1 = screen w" "r \<noteq> Inl (Error SUCCESS)"
    "r = Inl (Error MEMORY_CORRUPTION) \<Longrightarrow> left_corrupted P e (globals_of w1)"
    "r \<noteq> Inl (Error MEMORY_CORRUPTION) \<Longrightarrow> m' w = (r, w1)" by auto
qed

lemma watched_and_then:
  assumes "watched P e m m'" and "\<And>x. watched P e (k x) (k' x)"
  shows "watched P e (and_then m k) (and_then m' k')"
proof (rule watchedI)
  fix w r w2
  assume run: "and_then m k w = (r, w2)"
  obtain y w1 where m: "m w = (y, w1)" by fastforce
  note first = watchedD [OF assms(1) m]
  show "sent w2 = sent w \<and> screen w2 = screen w \<and>
    (if r = Inl (Error MEMORY_CORRUPTION) then left_corrupted P e (globals_of w2)
     else r \<noteq> Inl (Error SUCCESS) \<and> and_then m' k' w = (r, w2))"
  proof (cases y)
    case (Inl f)
    with run m first show ?thesis by auto
  next
    case (Inr x)
    with run m have "k x w1 = (r, w2)" by simp
    from watchedD [OF assms(2) this] Inr first show ?thesis by auto
  qed
qed

lemma watched_basic:
  "watched P e (done_with x) (done_with x)" "err \<noteq> SUCCESS \<Longrightarrow> err \<noteq> MEMORY_CORRUPTION \<Longrightarrow> watched P e (fails_with err) (fails_with err)"
  "watched P e (on_ctx f) (on_ctx f)"
  by (auto simp: watched_def step_defs)

text \<open>The guarded call, with what a handler does with its result.\<close>

lemma watched_call:
  assumes "\<And>x. watched P e (k x) (k x)" and "leaves_corrupted P call \<le> left_corrupted P e"
  shows "watched P e
    (and_then (os_lib_call_bss_safe P call p) (\<lambda>(ret, x). if ret \<noteq> 0 then fails_with MEMORY_CORRUPTION else k x))
    (and_then (os_lib_call_bss_safe P (distrusted P call) p)
      (\<lambda>(ret, x). if ret \<noteq> 0 then fails_with MEMORY_CORRUPTION else k x))"
proof (rule watchedI)
  fix w r w2
  assume run: "and_then (os_lib_call_bss_safe P call p)
    (\<lambda>(ret, x). if ret \<noteq> 0 then fails_with MEMORY_CORRUPTION else k x) w = (r, w2)"
  let ?out = "call p (globals_of w)"
  show "sent w2 = sent w \<and> screen w2 = screen w \<and>
    (if r = Inl (Error MEMORY_CORRUPTION) then left_corrupted P e (globals_of w2)
     else r \<noteq> Inl (Error SUCCESS) \<and>
       and_then (os_lib_call_bss_safe P (distrusted P call) p)
         (\<lambda>(ret, x). if ret \<noteq> 0 then fails_with MEMORY_CORRUPTION else k x) w = (r, w2))"
  proof (cases ?out)
    case Lib_missing
    with run show ?thesis
      by (auto simp: and_then_def os_lib_call_bss_safe_def distrusted_def corrupted_def Let_def)
  next
    case (Lib_returned x g c)
    show ?thesis
    proof (cases "corrupted P (globals_of w) ?out")
      case True
      then have "left_corrupted P e g"
        using assms(2) Lib_returned unfolding leaves_corrupted_def le_fun_def le_bool_def by blast
      with True run Lib_returned show ?thesis
        by (auto simp: and_then_def os_lib_call_bss_safe_def corrupted_def Let_def step_defs split: if_splits)
    next
      case False
      then have same: "distrusted P call p (globals_of w) = ?out" by (simp add: distrusted_def)
      have call: "os_lib_call_bss_safe P c' p w = (Inr (0, x), with_globals g w)"
        if "c' p (globals_of w) = ?out" for c'
        using that False Lib_returned by (auto simp: os_lib_call_bss_safe_def corrupted_def Let_def)
      have "k x (with_globals g w) = (r, w2)"
        using run call [of call] by (simp add: and_then_def)
      from watchedD [OF assms(1) this] call [of "distrusted P call", OF same] show ?thesis
        by (auto simp: and_then_def)
    qed
  qed
qed

lemma leaves_left: "leaves_corrupted P (lib_check_address e) \<le> left_corrupted P e"
  "leaves_corrupted P (lib_get_printable_amount e) \<le> left_corrupted P e"
  by (auto simp: left_corrupted_def)

lemma watched_printable:
  "watched P e (get_printable_amount P e conf app amount store n fee)
     (get_printable_amount P (without_corruption P e) conf app amount store n fee)"
proof -
  have "watched P e m m" if "m = (if printable_amount_array x ! 0 = 0 then fails_with AMOUNT_FORMATTING_FAILED
     else if printable_amount_array x ! (MAX_PRINTABLE_AMOUNT_SIZE - 1) \<noteq> 0 then fails_with AMOUNT_FORMATTING_FAILED
     else on_ctx (store (\<lambda>m. strlcpy m (printable_amount_array x) n)))" for x m
    by (simp add: that watched_basic)
  then show ?thesis
    unfolding get_printable_amount_def Let_def outside_same by (intro watched_call leaves_left) blast
qed

lemma watched_address:
  "watched P e (check_address P e conf params app a x) (check_address P (without_corruption P e) conf params app a x)"
  unfolding check_address_def outside_same by (intro watched_call leaves_left) (simp add: watched_basic)

lemma watched_swap_address:
  assumes "\<not> BYPASS_CHECK_ADDRESS P"
  shows "watched P e (check_swap_address P e ins conf params app)
    (check_swap_address P (without_corruption P e) ins conf params app)"
proof -
  have "watched P e (check_payout_or_refund_address P e ins conf params app)
     (check_payout_or_refund_address P (without_corruption P e) ins conf params app)"
    using assms watchedD [OF watched_address]
    by (intro watchedI)
      (auto simp: check_payout_or_refund_address_def step_defs Let_def split: prod.splits sum.splits fault.splits if_splits)
  from watchedD [OF this] show ?thesis
    by (intro watchedI)
      (auto simp: check_swap_address_def step_defs split: prod.splits sum.splits fault.splits if_splits)
qed


lemma watched_coin:
  assumes "\<not> BYPASS_CHECK_ADDRESS P"
  shows "watched P e (check_coin P e cmd app conf params) (check_coin P (without_corruption P e) cmd app conf params)"
proof -
  have "watched P e (format_relevant_amount P e ins c a) (format_relevant_amount P (without_corruption P e) ins c a)" for ins c a
    using watchedD [OF watched_printable]
    by (intro watchedI) (auto simp: format_relevant_amount_def Let_def)
  moreover have "watched P e (format_fees P e c a) (format_fees P (without_corruption P e) c a)" for c a
    using watchedD [OF watched_printable] by (intro watchedI) (auto simp: format_fees_def)
  moreover have "watched P e format_flow_text format_flow_text"
    by (intro watchedI) (auto simp: format_flow_text_def step_defs split: prod.splits if_splits)
  ultimately show ?thesis
    unfolding check_coin_def
    by (intro watched_and_then watched_swap_address [OF assms]) (simp_all add: watched_basic)
qed

lemma watched_steps:
  assumes "\<not> BYPASS_CHECK_ADDRESS P"
  shows "watched P e (check_addresses_and_amounts_steps P e cmd) (check_addresses_and_amounts_steps P (without_corruption P e) cmd)"
proof -
  have "check_coin_configuration_signature P (without_corruption P e) = check_coin_configuration_signature P e"
    by (intro ext) (simp only: check_coin_configuration_signature_def outside_same)
  with watchedD [OF watched_coin [OF assms]] show ?thesis
    by (intro watchedI)
      (auto simp: check_addresses_and_amounts_steps_def step_defs split: option.splits prod.splits if_splits)
qed

section \<open>Properties\<close>

lemma reply_same: "reply_error (without_corruption P e) = reply_error e"
  "reply_success (without_corruption P e) = reply_success e"
  "start_ui_display P (without_corruption P e) = start_ui_display P e"
  by (intro ext, simp add: reply_defs start_ui_display_def ui_validate_amounts_def on_warning_choice_def Let_def)+

text \<open>
  C8: Nothing is accepted from a call that is seen to corrupt the memory. Whichever calls of the
  applications, for an address, an amount or the fees, come back with a changed check sum of the globals
  or a changed canary: either the check does what it does without these returns, so that it used none
  of them, or it answers \<open>MEMORY_CORRUPTION\<close>, once, and shows nothing to the user. (The test build that
  takes every address is left aside: it takes those of corrupting applications too.)
\<close>

theorem corruption_never_accepted:
  assumes "\<not> BYPASS_CHECK_ADDRESS P" and "check_addresses_and_amounts P e cmd w = (r, w')"
  shows "check_addresses_and_amounts P (without_corruption P e) cmd w = (r, w') \<or>
    (\<exists>v. r = Returned v) \<and> sent w' = sent w @ [([], status_word MEMORY_CORRUPTION)] \<and> screen w' = screen w"
proof -
  obtain q w1 where s: "check_addresses_and_amounts_steps P e cmd w = (q, w1)" by fastforce
  note d = watchedD [OF watched_steps [OF assms(1)] s]
  show ?thesis
  proof (cases "q = Inl (Error MEMORY_CORRUPTION)")
    case True
    with assms(2) s d show ?thesis
      by (auto simp: check_addresses_and_amounts_def returning_def reply_defs split: prod.splits)
  next
    case False
    have "check_addresses_and_amounts P (without_corruption P e) cmd w = check_addresses_and_amounts P e cmd w"
      unfolding check_addresses_and_amounts_def s d(5) [OF False] reply_same by (rule refl)
    with assms(2) show ?thesis by simp
  qed
qed

text \<open>A library that breaks the canary in the call for the fees alone.\<close>

definition fee_corrupting :: outside where
  "fee_corrupting = plain_outside\<lparr>lib_get_printable_amount :=
     (\<lambda>p g. Lib_returned (ascii ''1 BTC'') g (if pa_is_fee p then 0 else 0xCAFE))\<rparr>"

lemma corruption_never_accepted_witness:
  "\<exists>r w'. check_addresses_and_amounts plain_platform fee_corrupting sample_check sample_checkable = (r, w') \<and>
     sent w' = [([], status_word MEMORY_CORRUPTION)] \<and> screen w' = Home"
proof -
  obtain r w' where run: "check_addresses_and_amounts plain_platform fee_corrupting sample_check sample_checkable = (r, w')"
    by fastforce
  have "fst (check_addresses_and_amounts plain_platform fee_corrupting sample_check sample_checkable) = Returned 0"
    "fst (check_addresses_and_amounts plain_platform (without_corruption plain_platform fee_corrupting)
      sample_check sample_checkable) = Threw SWO_SEC_APP_14"
    by code_simp+
  with run have "check_addresses_and_amounts plain_platform (without_corruption plain_platform fee_corrupting)
      sample_check sample_checkable \<noteq> (r, w')" by force
  moreover have "\<not> BYPASS_CHECK_ADDRESS plain_platform" by (simp add: plain_platform_def)
  moreover have "screen sample_checkable = Home" "sent sample_checkable = []"
    by (simp_all add: sample_checkable_def world_in_def)
  ultimately show ?thesis using corruption_never_accepted [OF _ run] run by auto
qed

section \<open>The corrupted globals\<close>

lemma status_corruption: "status_word err = status_word MEMORY_CORRUPTION \<Longrightarrow> err = MEMORY_CORRUPTION"
  by (cases err) simp_all

text \<open>
  C39: The globals that a library has overwritten are not put back: after every answer
  \<open>MEMORY_CORRUPTION\<close> of a check, the globals of the program are those which a call that was seen to
  corrupt them has left, the state of the session among them (in the witness, the library moves it to
  the one that follows the approval of the user).
\<close>

theorem corrupted_context_kept:
  assumes "\<not> BYPASS_CHECK_ADDRESS P" and "check_addresses_and_amounts P e cmd w = (r, w')"
    and "sent w' = sent w @ [([], status_word MEMORY_CORRUPTION)]"
  shows "left_corrupted P e (globals_of w')"
proof -
  obtain q w1 where s: "check_addresses_and_amounts_steps P e cmd w = (q, w1)" by fastforce
  note d = watchedD [OF watched_steps [OF assms(1)] s]
  have "q = Inl (Error MEMORY_CORRUPTION) \<and> globals_of w' = globals_of w1"
    using assms(2,3) s d(1)
    by (auto simp: check_addresses_and_amounts_def returning_def reply_defs globals_of_def
        dest: status_corruption [simplified] split: sum.splits fault.splits prod.splits if_splits)
  with d(4) show ?thesis by simp
qed


text \<open>A library that overwrites the state.\<close>

definition overwriting_outside :: outside where
  "overwriting_outside = plain_outside\<lparr>lib_get_printable_amount :=
     (\<lambda>_ g. Lib_returned (ascii ''1 BTC'') (g\<lparr>ctx := (ctx g)\<lparr>ctx_state := WAITING_SIGNING\<rparr>\<rparr>) 0)\<rparr>"

lemma corrupted_context_kept_witness:
  "let w' = snd (check_addresses_and_amounts plain_platform overwriting_outside sample_check sample_checkable) in
     left_corrupted plain_platform overwriting_outside (globals_of w') \<and>
     ctx_state (ctx w') = WAITING_SIGNING \<and> sent w' = [([], status_word MEMORY_CORRUPTION)]"
proof -
  let ?run = "check_addresses_and_amounts plain_platform overwriting_outside sample_check sample_checkable"
  have sent: "sent (snd ?run) = [([], status_word MEMORY_CORRUPTION)] \<and> ctx_state (ctx (snd ?run)) = WAITING_SIGNING"
    by code_simp
  have "sent sample_checkable = []" by (simp add: sample_checkable_def world_in_def)
  with sent corrupted_context_kept [of plain_platform overwriting_outside sample_check sample_checkable "fst ?run" "snd ?run"]
  show ?thesis by (simp add: Let_def plain_platform_def)
qed

end
