(* ===== verification/Honest_Partner.thy ===== *)
theory Honest_Partner
  imports Main_Loop
begin

text \<open>
  The other side of the safety theorems: what is honestly made is not refused. Runs of the program over
  a list of events, the reception of a whole command, and the four commands of a certified partner, which
  bring the program from any state in which a transaction may start to a checked signature.
\<close>

section \<open>Runs\<close>

fun perform :: "platform \<Rightarrow> outside \<Rightarrow> event list \<Rightarrow> world \<Rightarrow> world option" where
  "perform P e [] w = Some w"
| "perform P e (ev # evs) w =
     (if possible ev w then case step P e ev w of None \<Rightarrow> None | Some w' \<Rightarrow> perform P e evs w' else None)"

lemma perform_reaches:
  assumes "reaches P h w" and "perform P e evs w = Some w'" and "libs_keep_globals e" and "libs_keep_sizes e"
  shows "\<exists>h'. reaches P (h' @ h) w' \<and> map (\<lambda>(e, ev, w). (e, ev)) h' = map (Pair e) (rev evs)"
  using assms(1,2)
proof (induction evs arbitrary: w h)
  case Nil
  then show ?case by (intro exI [of _ "[]"]) simp
next
  case (Cons ev evs)
  then obtain w1 where s: "possible ev w" "step P e ev w = Some w1" "perform P e evs w1 = Some w'"
    by (auto split: if_splits option.splits)
  from Cons.IH [OF stepped [OF Cons.prems(1) s(1) assms(3,4) s(2)] s(3)] obtain h' where
    "reaches P (h' @ (e, ev, w) # h) w'" "map (\<lambda>(e, ev, w). (e, ev)) h' = map (Pair e) (rev evs)" by blast
  then show ?case by (intro exI [of _ "h' @ [(e, ev, w)]"]) simp
qed

lemma perform_append:
  "perform P e (xs @ ys) w = (case perform P e xs w of None \<Rightarrow> None | Some w' \<Rightarrow> perform P e ys w')"
  by (induction xs arbitrary: w) (simp_all split: option.splits)

section \<open>A whole command\<close>

definition whole_apdu :: "command_e \<Rightarrow> rate_e \<Rightarrow> subcommand_e \<Rightarrow> u8 list \<Rightarrow> mem" where
  "whole_apdu i r s d = [CLA, ins_value i, rate_value r, subcommand_value s, of_nat (length d)] @ d"

definition whole_command :: "command_e \<Rightarrow> rate_e \<Rightarrow> subcommand_e \<Rightarrow> u8 list \<Rightarrow> command_t" where
  "whole_command i r s d =
     \<lparr>cmd_ins = i, cmd_rate = r, cmd_subcommand = s, cmd_data = In_apdu_buffer (whole_apdu i r s d),
      cmd_data_size = of_nat (length d)\<rparr>"

definition command_sent :: "command_e \<Rightarrow> rate_e \<Rightarrow> subcommand_e \<Rightarrow> u8 list \<Rightarrow> event" where
  "command_sent i r s d = Received_apdu (whole_apdu i r s d) (5 + length d)"

definition delivered :: "command_e \<Rightarrow> rate_e \<Rightarrow> subcommand_e \<Rightarrow> u8 list \<Rightarrow> world \<Rightarrow> world" where
  "delivered i r s d w =
     w\<lparr>received_apdu := (received_apdu w)\<lparr>rcv_instruction := ins_value i, rcv_rate := rate_value r,
       rcv_subcommand := subcommand_value s, rcv_data_length := of_nat (length d), expecting_more := False\<rparr>\<rparr>"

lemma delivered_same [simp]:
  "ctx (delivered i r s d w) = ctx w" "sent (delivered i r s d w) = sent w" "screen (delivered i r s d w) = screen w"
  by (simp_all add: delivered_def)

lemma whole_p2: "subcommand_value s AND SUBCOMMAND_MASK = subcommand_value s" "subcommand_value s AND EXTENSION_MASK = 0"
  by (cases s; simp add: p2_defs)+

lemma legacy_not_accepted: "accepts i s c \<Longrightarrow> replace_legacy (ins_value i) s = ins_value i"
  by (cases i; cases s) (auto simp: replace_legacy_def accepts_def flow_allows_def)

lemma whole_received:
  assumes "accepts i s (ctx w)" and "length d \<le> 255"
  shows "check_apdu_validity (whole_apdu i r s d) (5 + length d) w = (Inr (whole_command i r s d), delivered i r s d w)"
proof -
  let ?p = "whole_apdu i r s d"
  have at: "?p ! OFFSET_CLA = CLA" "?p ! OFFSET_INS = ins_value i" "?p ! OFFSET_P1 = rate_value r"
    "?p ! OFFSET_P2 = subcommand_value s" "?p ! OFFSET_LC = of_nat (length d)"
    by (simp_all add: whole_apdu_def offset_defs)
  have len: "unat (of_nat (length d) :: u8) = length d" using assms(2) unat_of_nat_u8 by simp
  have cast: "(ucast (of_nat (length d) :: u8) :: u16) = of_nat (length d)"
    using assms(2) take_bit_nat_eq_self [of "length d" 8] by (simp add: unsigned_of_nat)
  have "check_instruction (ins_value i) s (ctx w) = None" using check_instruction_known assms(1) by blast
  moreover have "check_extension 0 (ins_value i) s = None" by (simp add: check_extension_def)
  ultimately show ?thesis
    unfolding check_apdu_validity_def at Let_def whole_p2
    by (simp add: legacy_not_accepted [OF assms(1)] len cast receive_data_def store_data_def whole_command_def delivered_def Let_def OFFSET_CDATA_def
        del: ins_value.simps subcommand_value.simps rate_value.simps)
qed

lemma whole_data:
  assumes "length d \<le> 255"
  shows "data_bytes (whole_command i r s d) c = d" and "data_ok (whole_command i r s d) c"
    and "unat (cmd_data_size (whole_command i r s d)) = length d"
proof -
  have "unat (of_nat (length d) :: u16) = length d" using assms unat_of_nat_u16 by simp
  then show "data_bytes (whole_command i r s d) c = d" "data_ok (whole_command i r s d) c"
    "unat (cmd_data_size (whole_command i r s d)) = length d"
    by (simp_all add: data_bytes_def data_ok_def data_pointer_def whole_command_def whole_apdu_def OFFSET_CDATA_def mread_def)
qed

lemma command_fields [simp]:
  "cmd_ins (whole_command i r s d) = i" "cmd_subcommand (whole_command i r s d) = s" "cmd_rate (whole_command i r s d) = r"
  by (simp_all add: whole_command_def)

text \<open>A command whose handler returns 0, without ending the session, is followed by the next one.\<close>

lemma command_runs:
  assumes "accepts i s (ctx w)" and "length d \<le> 255"
    and "dispatch_command P e (whole_command i r s d) (delivered i r s d w) = (Returned 0, w2)"
  shows "possible (command_sent i r s d) w" and "step P e (command_sent i r s d) w =
    Some (if ctx_state (ctx w2) = SIGN_FINISHED then new_cycle P e w2 else w2)"
  using whole_received [OF assms(1,2), of r] assms(3)
  by (simp_all add: command_sent_def whole_apdu_def app_main_turn_def del: dispatch_command.simps)

lemma command_leads:
  assumes "accepts i s (ctx w)" and "length d \<le> 255"
    and dispatched: "\<And>w. dispatch_command P e (whole_command i r s d) w = returning (handle w)"
    and handled: "\<And>w1. ctx w1 = ctx w \<Longrightarrow> \<exists>w2. handle w1 = (0, w2) \<and> ctx w2 = c \<and> sent w2 = sent w1 @ rs"
    and "ctx_state c \<noteq> SIGN_FINISHED"
  shows "\<exists>w2. possible (command_sent i r s d) w \<and> step P e (command_sent i r s d) w = Some w2 \<and>
    ctx w2 = c \<and> sent w2 = sent w @ rs"
proof -
  obtain w2 where w2: "handle (delivered i r s d w) = (0, w2)" "ctx w2 = c" "sent w2 = sent w @ rs"
    using handled [OF delivered_same(1) [of i r s d w]] by auto
  then have "dispatch_command P e (whole_command i r s d) (delivered i r s d w) = (Returned 0, w2)"
    by (simp add: dispatched returning_def del: dispatch_command.simps)
  from command_runs [OF assms(1,2) this] w2 assms(5) show ?thesis by simp
qed

section \<open>The commands of the partner\<close>

lemma credentials_accepted:
  assumes ok: "partner_credentials_ok s name curve key" "length (partner_credentials s name curve key) \<le> 255"
    and key: "cx_ecfp_init_public_key P curve key = Some k"
    and digest: "cx_sha256 P (partner_credentials s name curve key) = Some d"
    and io: "io_ok e" and sizes: "ctx_sizes c" "ctx_state c = WAITING_TRANSACTION" "ctx_subcommand c = s"
  shows "\<exists>m c2. c2 = c\<lparr>partner_name := m, partner_public_key := k, sha256_digest_no_prefix := d, ctx_state := PROVIDER_SET\<rparr> \<and>
    ctx_sizes c2 \<and> displayed_partner c2 = partner_label s name \<and>
    (\<forall>w. ctx w = c \<longrightarrow>
      (\<exists>w2. set_partner_key P e (whole_command SET_PARTNER_KEY_COMMAND r s (partner_credentials s name curve key)) w = (0, w2) \<and>
        ctx w2 = c2 \<and> sent w2 = sent w @ [([], status_word SUCCESS)]))"
proof -
  let ?cmd = "whole_command SET_PARTNER_KEY_COMMAND r s (partner_credentials s name curve key)"
  let ?p = "data_pointer ?cmd c" and ?n = "cmd_data_size ?cmd"
  have p: "ptr_ok ?p (unat ?n)" "ptr_bytes ?p (unat ?n) = partner_credentials s name curve key"
    using whole_data(1,2) [OF ok(2), of SET_PARTNER_KEY_COMMAND r s c] by (simp_all add: data_ok_def data_bytes_def)
  obtain b q where parsed: "parse_set_partner_key_command ?p ?n s = Inr (b, q, curve)"
    and b: "buf_bytes b = name" "ptr_bytes q UNCOMPRESSED_KEY_LENGTH = key"
    using parse_set_partner_key_format [OF p(1), of s curve name key] p(2) ok(1) by blast
  note small = parse_set_partner_key_buffer [OF p(1) parsed]
  obtain m where m: "save_partner_name b c = c\<lparr>partner_name := m\<rparr>" using save_partner_name_only [of b c] by blast
  have "displayed_partner (save_partner_name b c) = partner_label s name"
    using displayed_save_partner_name [OF _ small] sizes b by (simp add: ctx_sizes_def)
  then have shown: "displayed_partner (c\<lparr>partner_name := m, partner_public_key := k, sha256_digest_no_prefix := d,
      ctx_state := PROVIDER_SET\<rparr>) = partner_label s name"
    by (cases "fund_based (ctx_subcommand c)") (auto simp: displayed_partner_def m)
  have parsed': "parse_set_partner_key_command (data_pointer ?cmd c') ?n s = Inr (b, q, curve)" for c'
    using parsed by (simp add: data_pointer_def whole_command_def)
  have bytes: "data_bytes ?cmd c' = partner_credentials s name curve key" for c'
    by (rule whole_data(1) [OF ok(2)])
  have "length m = sizeof_prefixed_name"
    using length_save_partner_name [of c, OF _ small] sizes(1) by (simp add: m ctx_sizes_def)
  then have fits: "ctx_sizes (c\<lparr>partner_name := m, partner_public_key := k, sha256_digest_no_prefix := d,
      ctx_state := PROVIDER_SET\<rparr>)"
    using sizes(1) by (simp add: ctx_sizes_def)
  show ?thesis
  proof (intro exI conjI, rule refl, rule fits, rule shown, intro allI impI)
    fix w :: world
    assume "ctx w = c"
    with io show "\<exists>w2. set_partner_key P e ?cmd w = (0, w2) \<and>
        ctx w2 = c\<lparr>partner_name := m, partner_public_key := k, sha256_digest_no_prefix := d, ctx_state := PROVIDER_SET\<rparr> \<and>
        sent w2 = sent w @ [([], status_word SUCCESS)]"
      by (simp add: set_partner_key_def parsed' b key bytes digest reply_defs Let_def m)
  qed
qed

lemma certificate_accepted:
  assumes "cx_ecdsa_verify P (ledger_public_key c) (sha256_digest_no_prefix c) cert"
    and "67 \<le> length cert" and "length cert \<le> 73" and "io_ok e" and "ctx w = c"
  shows "\<exists>w2. check_partner P e (whole_command CHECK_PARTNER_COMMAND r s cert) w = (0, w2) \<and>
    ctx w2 = c\<lparr>ctx_state := PROVIDER_CHECKED\<rparr> \<and> sent w2 = sent w @ [([], status_word SUCCESS)]"
  using assms whole_data(1,3) [of cert CHECK_PARTNER_COMMAND r s] by (simp add: partner_handler_defs size_defs)

lemma signature_accepted:
  assumes "selectors_ok s in_R_S dot" and "signature_size_ok in_R_S sig" and "length (selector_bytes s in_R_S dot @ sig) \<le> 255"
    and "cx_ecdsa_verify P (partner_public_key c) (signed_digest dot c) (as_der in_R_S sig)"
    and "io_ok e" and "ctx_state c \<noteq> SIGNATURE_CHECKED" and w: "ctx w = c"
  shows "\<exists>w2. check_tx_signature P e (whole_command CHECK_TRANSACTION_SIGNATURE_COMMAND r s (selector_bytes s in_R_S dot @ sig)) w = (0, w2) \<and>
    ctx w2 = c\<lparr>ctx_state := SIGNATURE_CHECKED\<rparr> \<and> sent w2 = sent w @ [([], status_word SUCCESS)]"
proof -
  let ?cmd = "whole_command CHECK_TRANSACTION_SIGNATURE_COMMAND r s (selector_bytes s in_R_S dot @ sig)"
  have "tx_signature_valid P ?cmd (ctx w) in_R_S dot sig"
    using assms(1-4) whole_data(1) [OF assms(3)] by (simp add: tx_signature_valid_def w)
  then have moved: "ctx_state (ctx (snd (check_tx_signature P e ?cmd w))) = SIGNATURE_CHECKED"
    using check_tx_signature_checks [OF whole_data(2) [OF assms(3)] assms(5)] assms(6) w by blast
  then show ?thesis
    using assms(5,6) w by (auto simp: signature_handler_defs split: option.splits sum.splits if_splits)
qed

lemma displayed_partner_cong:
  "partner_name c = partner_name c' \<Longrightarrow> ctx_subcommand c = ctx_subcommand c' \<Longrightarrow> displayed_partner c = displayed_partner c'"
  by (simp add: displayed_partner_def)

lemma credentials_short: "partner_credentials_ok s name curve key \<Longrightarrow> length (partner_credentials s name curve key) \<le> 255"
  by (auto simp: partner_credentials_ok_def partner_credentials_def enc_sized1_def size_defs split: if_splits)

lemma fresh_context_facts:
  "ctx_state (fresh_context key i s) = WAITING_TRANSACTION" "ctx_subcommand (fresh_context key i s) = s"
  "ledger_public_key (fresh_context key i s) = key" "tx (fresh_context key i s) = replicate sizeof_tx 0"
  "\<not> other_seed_payout (fresh_context key i s)" "length i \<le> sizeof_unified_id \<Longrightarrow> ctx_sizes (fresh_context key i s)"
  by (simp_all add: fresh_context_def zero_context_def ctx_sizes_def)

lemma new_transaction_id_fits: "length (new_transaction_id P e s) \<le> sizeof_unified_id"
  by (simp add: new_transaction_id_def testing_tx_id_def sizeof_swap_id_def sizeof_unified_id_def)

lemma signature_short:
  "signature_size_ok in_R_S sig \<Longrightarrow> length (selector_bytes s in_R_S dot @ sig) \<le> 255"
  by (auto simp: signature_size_ok_def selector_bytes_def split: if_splits)

section \<open>An honest partner is not refused\<close>

definition partner_commands :: "rate_e \<Rightarrow> subcommand_e \<Rightarrow> u8 list \<Rightarrow> u8 list \<Rightarrow> event list" where
  "partner_commands r s credentials certificate =
     [command_sent START_NEW_TRANSACTION_COMMAND r s [],
      command_sent SET_PARTNER_KEY_COMMAND r s credentials,
      command_sent CHECK_PARTNER_COMMAND r s certificate]"

definition transaction_commands :: "rate_e \<Rightarrow> subcommand_e \<Rightarrow> u8 list \<Rightarrow> u8 list \<Rightarrow> event list" where
  "transaction_commands r s transaction signature =
     [command_sent PROCESS_TRANSACTION_RESPONSE_COMMAND r s transaction,
      command_sent CHECK_TRANSACTION_SIGNATURE_COMMAND r s signature]"

lemma partner_established:
  assumes free: "ctx_state (ctx w) \<noteq> WAITING_USER_VALIDATION" and outside: "io_ok e"
    and signer: "cx_ecfp_init_public_key P CX_CURVE_SECP256K1 (LedgerPubKey P) = Some signer"
    and partner: "partner_credentials_ok s name curve key" "cx_ecfp_init_public_key P curve key = Some k"
      "cx_sha256 P (partner_credentials s name curve key) = Some d"
    and certificate: "cx_ecdsa_verify P signer d cert" "67 \<le> length cert" "length cert \<le> 73"
  shows "\<exists>w' m. perform P e (partner_commands r s (partner_credentials s name curve key) cert) w = Some w' \<and>
    ctx w' = (fresh_context signer (new_transaction_id P e s) s)\<lparr>partner_name := m, partner_public_key := k,
      sha256_digest_no_prefix := d, ctx_state := PROVIDER_CHECKED\<rparr> \<and>
    ctx_sizes (ctx w') \<and> displayed_partner (ctx w') = partner_label s name \<and>
    sent w' = sent w @ (new_transaction_id P e s, status_word SUCCESS) # replicate 2 ([], status_word SUCCESS)"
proof -
  let ?id = "new_transaction_id P e s" and ?cred = "partner_credentials s name curve key"
  let ?ok = "([] :: u8 list, status_word SUCCESS)"
  note short = credentials_short [OF partner(1)]
  define c1 where "c1 = fresh_context signer ?id s"
  have c1: "ctx_sizes c1" "ctx_state c1 = WAITING_TRANSACTION" "ctx_subcommand c1 = s" "ledger_public_key c1 = signer"
    using fresh_context_facts new_transaction_id_fits by (simp_all add: c1_def)
  have "accepts START_NEW_TRANSACTION_COMMAND s (ctx w)"
    using free by (simp add: accepts_def flow_allows_def flowless_def)
  from command_leads [OF this, of "[]" P e r "start_new_transaction P e (whole_command START_NEW_TRANSACTION_COMMAND r s [])"
      c1 "[(?id, status_word SUCCESS)]"] c1(2) start_new_transaction_run [OF signer outside]
  obtain w1 where s1: "possible (command_sent START_NEW_TRANSACTION_COMMAND r s []) w"
    "step P e (command_sent START_NEW_TRANSACTION_COMMAND r s []) w = Some w1"
    "ctx w1 = c1" "sent w1 = sent w @ [(?id, status_word SUCCESS)]"
    by (auto simp: c1_def)
  from credentials_accepted [OF partner(1) short partner(2,3) outside c1(1-3), of r]
  obtain m c2 where c2: "c2 = c1\<lparr>partner_name := m, partner_public_key := k, sha256_digest_no_prefix := d,
      ctx_state := PROVIDER_SET\<rparr>" "ctx_sizes c2" "displayed_partner c2 = partner_label s name"
    and set: "\<And>w. ctx w = c1 \<Longrightarrow> \<exists>w2. set_partner_key P e (whole_command SET_PARTNER_KEY_COMMAND r s ?cred) w = (0, w2) \<and>
        ctx w2 = c2 \<and> sent w2 = sent w @ [?ok]" by blast
  have acc: "accepts SET_PARTNER_KEY_COMMAND s (ctx w1)"
    using c1 by (simp add: s1 accepts_def flow_allows_def)
  obtain w2 where s2: "possible (command_sent SET_PARTNER_KEY_COMMAND r s ?cred) w1"
    "step P e (command_sent SET_PARTNER_KEY_COMMAND r s ?cred) w1 = Some w2"
    "ctx w2 = c2" "sent w2 = sent w1 @ [?ok]"
    using command_leads [OF acc short _ set, of P e r] s1(3) c2(1) by auto
  define c3 where "c3 = c2\<lparr>ctx_state := PROVIDER_CHECKED\<rparr>"
  have ver: "cx_ecdsa_verify P (ledger_public_key c2) (sha256_digest_no_prefix c2) cert"
    using certificate(1) c1(4) by (simp add: c2(1))
  have acc: "accepts CHECK_PARTNER_COMMAND s (ctx w2)"
    using c1 by (simp add: s2 c2(1) accepts_def flow_allows_def)
  have checked: "\<exists>w2. check_partner P e (whole_command CHECK_PARTNER_COMMAND r s cert) w = (0, w2) \<and>
      ctx w2 = c3 \<and> sent w2 = sent w @ [?ok]" if "ctx w = c2" for w
    using certificate_accepted [OF ver certificate(2,3) outside that] by (simp add: c3_def)
  obtain w3 where s3: "possible (command_sent CHECK_PARTNER_COMMAND r s cert) w2"
    "step P e (command_sent CHECK_PARTNER_COMMAND r s cert) w2 = Some w3"
    "ctx w3 = c3" "sent w3 = sent w2 @ [?ok]"
    using command_leads [OF acc _ _ checked, of cert P e r] certificate(3) s2(3) by (auto simp: c3_def)
  have "ctx_sizes c3" "displayed_partner c3 = partner_label s name"
    using c2(2,3) displayed_partner_cong [of c3 c2] by (simp_all add: c3_def ctx_sizes_def)
  then show ?thesis
    using s1 s2 s3 by (intro exI [of _ w3] exI [of _ m])
      (simp add: partner_commands_def c3_def c2(1) c1_def numeral_eq_Suc del: step.simps possible.simps)
qed

lemma transaction_checked:
  assumes at: "ctx_state (ctx w) = PROVIDER_CHECKED" "ctx_subcommand (ctx w) = s" "ctx_sizes (ctx w)"
    and outside: "message_depth s < stack_frames e" "io_ok e"
    and transaction: "transaction_command_ok s b64 (wire_payload b64 es) fees"
      "length (transaction_command s b64 (wire_payload b64 es) fees) \<le> 255"
      "fits_message (message_table s) es" "length (enc_message es) \<le> 512" "es \<noteq> []"
      "cx_sha256 P (ascii ''.'' @ wire_payload b64 es) = Some d1" "cx_sha256 P (wire_payload b64 es) = Some d2"
    and session: "check_decoded P s ((ctx w)\<lparr>tx := stored_message s es (tx (ctx w))\<rparr>) = None"
    and signature: "selectors_ok s in_R_S dot" "signature_size_ok in_R_S sig"
      "cx_ecdsa_verify P (partner_public_key (ctx w)) (if dot then d1 else d2) (as_der in_R_S sig)"
  shows "\<exists>w'. perform P e (transaction_commands r s (transaction_command s b64 (wire_payload b64 es) fees)
        (selector_bytes s in_R_S dot @ sig)) w = Some w' \<and>
    ctx w' = (ctx w)\<lparr>sha256_digest_prefixed := d1, sha256_digest_no_prefix := d2,
      tx := normalized s (stored_message s es (tx (ctx w))), transaction_fee_length := of_nat (length fees),
      transaction_fee := fees @ replicate (16 - length fees) 0, ctx_state := SIGNATURE_CHECKED\<rparr> \<and>
    ctx_sizes (ctx w') \<and> sent w' = sent w @ replicate 2 ([], status_word SUCCESS)"
proof -
  let ?tx = "transaction_command s b64 (wire_payload b64 es) fees" and ?sig = "selector_bytes s in_R_S dot @ sig"
  let ?ok = "([] :: u8 list, status_word SUCCESS)"
  define c4 where "c4 = (ctx w)\<lparr>sha256_digest_prefixed := d1, sha256_digest_no_prefix := d2,
    tx := normalized s (stored_message s es (tx (ctx w))), transaction_fee_length := of_nat (length fees),
    transaction_fee := fees @ replicate (16 - length fees) 0, ctx_state := TRANSACTION_RECEIVED\<rparr>"
  have acc: "accepts PROCESS_TRANSACTION_RESPONSE_COMMAND s (ctx w)"
    using at by (simp add: accepts_def flow_allows_def)
  have received: "\<exists>w2. process_transaction P e (whole_command PROCESS_TRANSACTION_RESPONSE_COMMAND r s ?tx) w' = (0, w2) \<and>
      ctx w2 = c4 \<and> sent w2 = sent w' @ [?ok]" if "ctx w' = ctx w" for w'
    using process_transaction_stored [of "whole_command PROCESS_TRANSACTION_RESPONSE_COMMAND r s ?tx" w' b64 es fees e P d1 d2]
      transaction outside whole_data(1,2) [OF transaction(2)] at session that by (simp add: c4_def)
  obtain w4 where s4: "possible (command_sent PROCESS_TRANSACTION_RESPONSE_COMMAND r s ?tx) w"
    "step P e (command_sent PROCESS_TRANSACTION_RESPONSE_COMMAND r s ?tx) w = Some w4"
    "ctx w4 = c4" "sent w4 = sent w @ [?ok]"
    using command_leads [OF acc transaction(2) _ received, of P e r] by (auto simp: c4_def)
  from received [OF refl] obtain w' where
    "returning (process_transaction P e (whole_command PROCESS_TRANSACTION_RESPONSE_COMMAND r s ?tx) w) = (Returned 0, w')"
    "ctx w' = c4" by auto
  from process_handler.sizes [OF _ this(1) at(3)] this(2) whole_data(2) [OF transaction(2)] at(3) have sizes: "ctx_sizes c4" by simp
  define c5 where "c5 = c4\<lparr>ctx_state := SIGNATURE_CHECKED\<rparr>"
  have ver: "cx_ecdsa_verify P (partner_public_key c4) (signed_digest dot c4) (as_der in_R_S sig)"
    using signature(3) by (cases dot) (simp_all add: signed_digest_def c4_def)
  have acc: "accepts CHECK_TRANSACTION_SIGNATURE_COMMAND s (ctx w4)"
    using at by (simp add: s4 c4_def accepts_def flow_allows_def)
  have signed: "\<exists>w2. check_tx_signature P e (whole_command CHECK_TRANSACTION_SIGNATURE_COMMAND r s ?sig) w' = (0, w2) \<and>
      ctx w2 = c5 \<and> sent w2 = sent w' @ [?ok]" if "ctx w' = c4" for w'
    using signature_accepted [OF signature(1,2) signature_short [OF signature(2)] ver outside(2) _ that]
    by (simp add: c5_def c4_def)
  obtain w5 where "possible (command_sent CHECK_TRANSACTION_SIGNATURE_COMMAND r s ?sig) w4"
    "step P e (command_sent CHECK_TRANSACTION_SIGNATURE_COMMAND r s ?sig) w4 = Some w5"
    "ctx w5 = c5" "sent w5 = sent w4 @ [?ok]"
    using command_leads [OF acc signature_short [OF signature(2)] _ signed, of P e r] s4(3) by (auto simp: c5_def)
  moreover have "ctx_sizes c5" using sizes by (simp add: c5_def ctx_sizes_def)
  ultimately show ?thesis
    using s4 by (intro exI [of _ w5])
      (simp add: transaction_commands_def c5_def c4_def numeral_eq_Suc del: step.simps possible.simps)
qed

text \<open>
  C11: An honest partner is not refused. From every state but the one in which the user is asked, the five
  commands of a partner whose credentials the signer has certified, with a transaction that carries the
  identifier drawn for this session and the partner's own signature of it, are each answered with
  success, the first with the identifier; after them the signature is checked, and the context has the
  values that were sent, under the name of the partner.
\<close>

theorem honest_partner_accepted:
  assumes free: "ctx_state (ctx w) \<noteq> WAITING_USER_VALIDATION"
    and outside: "io_ok e" "message_depth s < stack_frames e"
    and signer: "cx_ecfp_init_public_key P CX_CURVE_SECP256K1 (LedgerPubKey P) = Some signer"
    and partner: "partner_credentials_ok s name curve key" "cx_ecfp_init_public_key P curve key = Some k"
      "cx_sha256 P (partner_credentials s name curve key) = Some d"
    and certificate: "cx_ecdsa_verify P signer d cert" "67 \<le> length cert" "length cert \<le> 73"
    and transaction: "transaction_command_ok s b64 (wire_payload b64 es) fees"
      "length (transaction_command s b64 (wire_payload b64 es) fees) \<le> 255"
      "fits_message (message_table s) es" "length (enc_message es) \<le> 512" "es \<noteq> []"
      "cx_sha256 P (ascii ''.'' @ wire_payload b64 es) = Some d1" "cx_sha256 P (wire_payload b64 es) = Some d2"
    and session: "check_decoded P s ((fresh_context signer (new_transaction_id P e s) s)
      \<lparr>tx := stored_message s es (replicate sizeof_tx 0)\<rparr>) = None"
    and signature: "selectors_ok s in_R_S dot" "signature_size_ok in_R_S sig"
      "cx_ecdsa_verify P k (if dot then d1 else d2) (as_der in_R_S sig)"
  shows "\<exists>w'. perform P e (partner_commands r s (partner_credentials s name curve key) cert @
        transaction_commands r s (transaction_command s b64 (wire_payload b64 es) fees)
          (selector_bytes s in_R_S dot @ sig)) w = Some w' \<and>
    ctx_state (ctx w') = SIGNATURE_CHECKED \<and> ctx_subcommand (ctx w') = s \<and>
    displayed_partner (ctx w') = partner_label s name \<and> partner_public_key (ctx w') = k \<and>
    tx (ctx w') = normalized s (stored_message s es (replicate sizeof_tx 0)) \<and>
    ctx_sizes (ctx w') \<and> ledger_public_key (ctx w') = signer \<and> \<not> other_seed_payout (ctx w') \<and>
    unat (transaction_fee_length (ctx w')) = length fees \<and> take (length fees) (transaction_fee (ctx w')) = fees \<and>
    sent w' = sent w @ (new_transaction_id P e s, status_word SUCCESS) # replicate 4 ([], status_word SUCCESS)"
proof -
  let ?c1 = "fresh_context signer (new_transaction_id P e s) s" and ?m = "stored_message s es (replicate sizeof_tx 0)"
  from partner_established [OF free outside(1) signer partner certificate] obtain w3 m where
    w3: "perform P e (partner_commands r s (partner_credentials s name curve key) cert) w = Some w3"
      "ctx w3 = ?c1\<lparr>partner_name := m, partner_public_key := k, sha256_digest_no_prefix := d, ctx_state := PROVIDER_CHECKED\<rparr>"
      "ctx_sizes (ctx w3)" "displayed_partner (ctx w3) = partner_label s name"
      "sent w3 = sent w @ (new_transaction_id P e s, status_word SUCCESS) # replicate 2 ([], status_word SUCCESS)" by blast
  have at: "ctx_state (ctx w3) = PROVIDER_CHECKED" "ctx_subcommand (ctx w3) = s" "tx (ctx w3) = replicate sizeof_tx 0"
    "partner_public_key (ctx w3) = k" "ledger_public_key (ctx w3) = signer" "\<not> other_seed_payout (ctx w3)"
    by (simp_all add: w3(2) fresh_context_facts)
  have "check_decoded P s ((ctx w3)\<lparr>tx := stored_message s es (tx (ctx w3))\<rparr>) = None"
    using session check_decoded_cong [of "(ctx w3)\<lparr>tx := ?m\<rparr>" "?c1\<lparr>tx := ?m\<rparr>" P s] at(3) by (simp add: w3(2))
  from transaction_checked [OF at(1,2) w3(3) outside(2,1) transaction this signature(1,2), of r] signature(3) obtain w5 where
    w5: "perform P e (transaction_commands r s (transaction_command s b64 (wire_payload b64 es) fees)
        (selector_bytes s in_R_S dot @ sig)) w3 = Some w5"
      "ctx w5 = (ctx w3)\<lparr>sha256_digest_prefixed := d1, sha256_digest_no_prefix := d2, tx := normalized s ?m,
        transaction_fee_length := of_nat (length fees), transaction_fee := fees @ replicate (16 - length fees) 0,
        ctx_state := SIGNATURE_CHECKED\<rparr>"
      "ctx_sizes (ctx w5)" "sent w5 = sent w3 @ replicate 2 ([], status_word SUCCESS)"
    by (auto simp: at)
  have "displayed_partner (ctx w5) = partner_label s name"
    using w3(4) displayed_partner_cong [of "ctx w5" "ctx w3"] by (simp add: w5(2))
  moreover have "unat (of_nat (length fees) :: u8) = length fees"
    using transaction(1) unat_of_nat_u8 by (simp add: transaction_command_ok_def)
  moreover have "replicate 4 x = replicate 2 x @ replicate 2 x" for x :: "u8 list \<times> u16"
    by (simp flip: replicate_add)
  ultimately show ?thesis
    using w3(1,5) w5(1,3,4) at by (intro exI [of _ w5]) (simp add: perform_append w5(2))
qed

end
