(* ===== verification/Honest_Session.thy ===== *)
theory Honest_Session
  imports Honest_Partner
begin

text \<open>
  The rest of an honest session: the checks of the coins, answered by applications that do what their
  protocol asks of them, the approval of the user and the signature. What is approved is signed.
\<close>

section \<open>Applications that help\<close>

text \<open>
  The application recognises the addresses it is asked about and prints every amount in a text that fits;
  it leaves the memory of the caller alone.
\<close>

definition application_helps :: "outside \<Rightarrow> u8 list \<Rightarrow> bool" where
  "application_helps e app \<longleftrightarrow>
     (\<forall>p g. ca_application_name p = app \<longrightarrow> lib_check_address e p g = Lib_returned 1 g OS_LIB_CALL_CANARY_VALUE) \<and>
     (\<forall>p g. pa_application_name p = app \<longrightarrow>
        (\<exists>t. lib_get_printable_amount e p g = Lib_returned t g OS_LIB_CALL_CANARY_VALUE \<and>
          t \<noteq> [] \<and> 0 \<notin> set t \<and> length t < MAX_PRINTABLE_AMOUNT_SIZE))"

lemma printable_amount_array_text:
  assumes "t \<noteq> []" and "0 \<notin> set t" and "length t < MAX_PRINTABLE_AMOUNT_SIZE"
  shows "printable_amount_array t ! 0 \<noteq> 0" and "printable_amount_array t ! (MAX_PRINTABLE_AMOUNT_SIZE - 1) = 0"
proof -
  have a: "printable_amount_array t = t @ replicate (MAX_PRINTABLE_AMOUNT_SIZE - length t) 0"
    using assms(3) by (simp add: printable_amount_array_def)
  show "printable_amount_array t ! 0 \<noteq> 0" using assms(1,2) unfolding a by (cases t) auto
  show "printable_amount_array t ! (MAX_PRINTABLE_AMOUNT_SIZE - 1) = 0"
    using assms(3) by (simp add: a nth_append MAX_PRINTABLE_AMOUNT_SIZE_def)
qed

lemma amount_printed:
  assumes "application_helps e (cstr app)"
  shows "\<exists>w'. get_printable_amount P e conf app amt store MAX_PRINTABLE_AMOUNT_SIZE fee w = (Inr (), w')"
proof -
  let ?p = "\<lparr>pa_application_name = cstr app, pa_coin_configuration = conf, pa_amount = amt, pa_is_fee = fee\<rparr>"
  obtain t where t: "lib_get_printable_amount e ?p (globals_of w) = Lib_returned t (globals_of w) OS_LIB_CALL_CANARY_VALUE"
    "t \<noteq> []" "0 \<notin> set t" "length t < MAX_PRINTABLE_AMOUNT_SIZE"
    using assms unfolding application_helps_def by (metis get_printable_amount_parameters.select_convs(1))
  with printable_amount_array_text [OF t(2-4)] show ?thesis
    by (simp add: get_printable_amount_def and_then_def os_lib_call_bss_safe_def Let_def step_defs)
qed

lemma address_recognised:
  assumes "application_helps e (cstr app)"
  shows "check_address P e conf params app addr extra w = (Inr (), w)"
proof -
  let ?p = "\<lparr>ca_application_name = cstr app, ca_coin_configuration = conf, ca_address_parameters = params,
     ca_address_to_check = cstr addr, ca_extra_id_to_check = cstr extra\<rparr>"
  have "lib_check_address e ?p (globals_of w) = Lib_returned 1 (globals_of w) OS_LIB_CALL_CANARY_VALUE"
    using assms by (simp add: application_helps_def)
  then show ?thesis
    by (simp add: check_address_def and_then_def os_lib_call_bss_safe_def Let_def step_defs)
qed

section \<open>The check of a coin\<close>

text \<open>The data of the transaction that the check of a coin needs: an address that ends, an amount that can be printed.\<close>

definition checkable :: "command_e \<Rightarrow> swap_app_context \<Rightarrow> bool" where
  "checkable ins c \<longleftrightarrow>
     (swap_based (ctx_subcommand c) \<longrightarrow>
        (case fst (checked_address ins) of (off, sz) \<Rightarrow> tx c ! (off + sz - 1) = 0)) \<and>
     (sell_based (ctx_subcommand c) \<longrightarrow> fst (fiat_amount_text (tx c) (printable_get_amount c)))"

lemma coin_checked:
  assumes libs: "libs_keep_globals e" and helps: "application_helps e (cstr app)"
    and ok: "checkable (cmd_ins cmd) (ctx w)"
  shows "\<exists>w'. check_coin P e cmd app conf params w = (Inr (), w') \<and> other_seed_payout (ctx w') = other_seed_payout (ctx w)"
proof -
  let ?ins = "cmd_ins cmd" and ?c = "ctx w"
  have clean: "lib_call_clean (lib_check_address e)" "lib_call_clean (lib_get_printable_amount e)"
    using libs by (simp_all add: libs_keep_globals_clean)
  have s1: "check_swap_address P e ?ins (buf_bytes conf) params app w = (Inr (), w)"
    using ok address_recognised [OF helps]
    by (auto simp: check_swap_address_def check_payout_or_refund_address_def checkable_def case_prod_unfold step_defs Let_def)
  obtain w2 where s2: "format_relevant_amount P e ?ins (buf_bytes conf) app w = (Inr (), w2)"
    using amount_printed [OF helps] unfolding format_relevant_amount_def Let_def by blast
  obtain w3 where s3: "(if ?ins \<noteq> CHECK_PAYOUT_ADDRESS then format_fees P e (buf_bytes conf) app else done_with ()) w2 = (Inr (), w3)"
    using amount_printed [OF helps, of P "buf_bytes conf" _ printable_fees_amount_update True w2]
    by (cases "?ins = CHECK_PAYOUT_ADDRESS") (auto simp: format_fees_def step_defs)
  obtain t2 where c2: "ctx w2 = relevant_text (ctx_subcommand ?c) ?ins t2 ?c" using relevant_done [OF clean(2) s2] by blast
  obtain t3 where c3: "ctx w3 = (ctx w2)\<lparr>printable_fees_amount := t3\<rparr>" using fees_done [OF clean(2) s3] by blast
  have same: "ctx_subcommand (ctx w3) = ctx_subcommand ?c" "tx (ctx w3) = tx ?c" "other_seed_payout (ctx w3) = other_seed_payout ?c"
    "sell_based (ctx_subcommand ?c) \<Longrightarrow> printable_get_amount (ctx w3) = printable_get_amount ?c"
    by (auto simp: c3 c2 relevant_text_def)
  have "\<exists>w4. format_flow_text w3 = (Inr (), w4)"
    using ok by (auto simp: format_flow_text_def format_fiat_amount_eq checkable_def step_defs same)
  then obtain w4 where s4: "format_flow_text w3 = (Inr (), w4)" by blast
  obtain t4 where "w4 = w3\<lparr>ctx := (ctx w3)\<lparr>printable_get_amount := t4\<rparr>\<rparr>" using flow_text_done [OF s4] by blast
  then have w4: "ctx w4 = (ctx w3)\<lparr>printable_get_amount := t4\<rparr>" by simp
  show ?thesis
    using s1 s2 s3 s4 w4 same(3) by (auto simp: check_coin_def step_defs save_paying_coin_def)
qed

text \<open>
  The data of an honest check: the configuration of the coin of the transaction, signed by the signer's key,
  and the parameters of the address.
\<close>

definition honest_check :: "platform \<Rightarrow> outside \<Rightarrow> command_t \<Rightarrow> swap_app_context \<Rightarrow> u8 list \<Rightarrow> u8 list \<Rightarrow> bool" where
  "honest_check P e cmd c d app \<longleftrightarrow>
     (\<exists>b body params T N conf. let config = enc_sized1 T @ enc_sized1 N @ enc_sized1 conf in
        d = enc_sized1 config @ (b # enc_sized1 body) @ enc_sized1 params \<and>
        65 \<le> length body \<and> length body \<le> 71 \<and> 1 \<le> length params \<and> length params < 256 \<and>
        1 \<le> length T \<and> length T \<le> 9 \<and> 3 \<le> length N \<and> length N \<le> 32 \<and> length conf \<le> 64 \<and>
        check_coin_configuration_signature P e c config (b # enc_sized1 body) \<and>
        app = ledger_app_name N \<and> ledger_ticker (cstr T) = member_string (asked_currency cmd) (tx c))"

lemma steps_accepted:
  assumes data: "data_ok cmd (ctx w)" "unat (cmd_data_size cmd) < 65535" and size: "ctx_sizes (ctx w)"
    and honest: "honest_check P e cmd (ctx w) (data_bytes cmd (ctx w)) app"
    and libs: "libs_keep_globals e" and helps: "application_helps e (cstr app)" and ok: "checkable (cmd_ins cmd) (ctx w)"
  shows "\<exists>w' conf params. check_addresses_and_amounts_steps P e cmd w = (Inr (), w') \<and>
    checked_coin P e cmd app conf params (ctx w) (ctx w') \<and> other_seed_payout (ctx w') = other_seed_payout (ctx w)"
proof -
  let ?p = "data_pointer cmd (ctx w)" and ?n = "cmd_data_size cmd"
  have p: "ptr_ok ?p (unat ?n)" using data by (simp add: data_ok_def)
  from honest obtain b body params T N conf where
    w: "ptr_bytes ?p (unat ?n) = enc_sized1 (enc_sized1 T @ enc_sized1 N @ enc_sized1 conf) @ (b # enc_sized1 body) @ enc_sized1 params"
    and len: "65 \<le> length body" "length body \<le> 71" "1 \<le> length params" "length params < 256"
      "1 \<le> length T" "length T \<le> 9" "3 \<le> length N" "length N \<le> 32" "length conf \<le> 64"
    and sig: "check_coin_configuration_signature P e (ctx w) (enc_sized1 T @ enc_sized1 N @ enc_sized1 conf) (b # enc_sized1 body)"
    and app: "app = ledger_app_name N" and tick: "ledger_ticker (cstr T) = member_string (asked_currency cmd) (tx (ctx w))"
    unfolding honest_check_def Let_def data_bytes_def by blast
  let ?config = "enc_sized1 T @ enc_sized1 N @ enc_sized1 conf"
  have "1 \<le> length ?config" "length ?config < 256" using len by simp_all
  with parse_check_address_message_complete [OF p data(2) w] len obtain config der q where
    msg: "parse_check_address_message ?p ?n = Some (config, der, q)"
    and m: "buf_bytes config = ?config" "buf_bytes der = b # enc_sized1 body" "buf_bytes q = params" by blast
  from parse_check_address_message_sound [OF p data(2) msg] have cok: "buf_ok config" by blast
  from parse_coin_config_complete [OF cok m(1) len(5-9)] obtain t a c where
    cfg: "parse_coin_config config = Some (t, a, c)" and parts: "buf_bytes t = T" "buf_bytes a = app" "buf_bytes c = conf"
    unfolding app by blast
  note bufs = parse_coin_config_buffers [OF cok cfg]
  have ticker: "check_received_ticker_matches_context t cmd (ctx w)"
    using check_matching_ticker_eq [OF bufs(1,3), of "replicate (TICKER_MAX_SIZE_B + 1) 0"] tick parts(1)
    by (simp add: check_received_ticker_matches_context_def check_matching_ticker_def member_string_def TICKER_MAX_SIZE_B_def)
  have short: "length app \<le> 32" using len(8) length_ledger_app_name by (simp add: app)
  have "application_helps e (cstr (application_name_array app))"
    using helps cstr_application_name_array [OF short] by simp
  from coin_checked [OF libs this ok, of P c params] obtain w' where
    run: "check_coin P e cmd (application_name_array app) c params w = (Inr (), w')"
      "other_seed_payout (ctx w') = other_seed_payout (ctx w)" by blast
  moreover have "check_addresses_and_amounts_steps P e cmd w = (Inr (), w')"
    using run(1) msg m sig cfg ticker parts(2) by (simp add: check_addresses_and_amounts_steps_def)
  moreover have "checked_coin P e cmd app (buf_bytes c) params (ctx w) (ctx w')"
    using check_coin_done [OF libs run(1) short _ bufs(2) size] parts(3) len(9) by simp
  ultimately show ?thesis by blast
qed

lemma review_screen:
  "screen (start_ui_display P e w) = (if SCREEN_SIZE_WALLET P \<and> other_seed_payout (ctx w) then Cross_seed_warning else Review)"
  by (simp add: start_ui_display_def ui_validate_amounts_def on_warning_choice_def Let_def prepare_title_and_confirm_def
      case_prod_unfold del: title_parts.simps)

lemma check_accepted:
  assumes data: "data_ok cmd (ctx w)" "unat (cmd_data_size cmd) < 65535" and size: "ctx_sizes (ctx w)"
    and honest: "honest_check P e cmd (ctx w) (data_bytes cmd (ctx w)) app"
    and libs: "libs_keep_globals e" and helps: "application_helps e (cstr app)" and ok: "checkable (cmd_ins cmd) (ctx w)"
    and io: "io_ok e"
  shows "\<exists>w' c conf params. check_addresses_and_amounts P e cmd w = (Returned 0, w') \<and>
    checked_coin P e cmd app conf params (ctx w) c \<and> ctx w' = c\<lparr>ctx_state := checked_state (cmd_ins cmd)\<rparr> \<and> ctx_sizes c \<and>
    other_seed_payout c = other_seed_payout (ctx w) \<and>
    (if cmd_ins cmd = CHECK_ASSET_IN_AND_DISPLAY \<or> cmd_ins cmd = CHECK_REFUND_ADDRESS_AND_DISPLAY
     then sent w' = sent w \<and>
       screen w' = (if SCREEN_SIZE_WALLET P \<and> other_seed_payout (ctx w) then Cross_seed_warning else Review)
     else sent w' = sent w @ [([], status_word SUCCESS)])"
proof -
  obtain w1 conf params where w1: "check_addresses_and_amounts_steps P e cmd w = (Inr (), w1)"
    "checked_coin P e cmd app conf params (ctx w) (ctx w1)" "other_seed_payout (ctx w1) = other_seed_payout (ctx w)"
    using steps_accepted [OF data size honest libs helps ok] by blast
  note frame = only_checked_frame [OF steps_only_checked [OF libs data w1(1)]]
  show ?thesis
  proof (cases "cmd_ins cmd = CHECK_ASSET_IN_AND_DISPLAY \<or> cmd_ins cmd = CHECK_REFUND_ADDRESS_AND_DISPLAY")
    case True
    with w1 frame(1) frame(7) [OF size] show ?thesis
      by (intro exI [of _ "start_ui_display P e w1"] exI [of _ "ctx w1"] exI [of _ conf] exI [of _ params])
         (auto simp: check_addresses_and_amounts_def review_screen)
  next
    case False
    with w1 frame(1) frame(7) [OF size] io show ?thesis
      by (intro exI [of _ "w1\<lparr>sent := sent w1 @ [([], status_word SUCCESS)],
            ctx := (ctx w1)\<lparr>ctx_state := checked_state (cmd_ins cmd)\<rparr>\<rparr>"] exI [of _ "ctx w1"] exI [of _ conf] exI [of _ params])
         (auto simp: check_addresses_and_amounts_def reply_defs)
  qed
qed

lemma honest_check_cong:
  assumes "ledger_public_key c = ledger_public_key c'" and "tx c = tx c'"
  shows "honest_check P e cmd c d app = honest_check P e cmd c' d app"
  unfolding honest_check_def check_coin_configuration_signature_def assms ..

lemma checkable_cong:
  assumes "swap_based (ctx_subcommand c)" and "ctx_subcommand c = ctx_subcommand c'" and "tx c = tx c'"
  shows "checkable ins c = checkable ins c'"
proof -
  have "\<not> sell_based (ctx_subcommand c)" using assms(1) by auto
  with assms show ?thesis by (simp add: checkable_def del: de_Morgan_disj)
qed

section \<open>The commands up to the signature\<close>

definition paying_check :: "subcommand_e \<Rightarrow> command_e" where
  "paying_check s = (if swap_based s then CHECK_REFUND_ADDRESS_AND_DISPLAY else CHECK_ASSET_IN_AND_DISPLAY)"

definition check_commands :: "rate_e \<Rightarrow> subcommand_e \<Rightarrow> u8 list \<Rightarrow> u8 list \<Rightarrow> event list" where
  "check_commands r s payout paying =
     (if swap_based s then [command_sent CHECK_PAYOUT_ADDRESS r s payout] else []) @ [command_sent (paying_check s) r s paying]"

text \<open>An application that signs whatever it is handed.\<close>

definition application_signs :: "outside \<Rightarrow> u8 list \<Rightarrow> bool" where
  "application_signs e app \<longleftrightarrow>
     (\<forall>p g. ct_application_name p = app \<longrightarrow> (\<exists>g' k. lib_sign_transaction e p g = Lib_returned 1 g' k))"

lemma check_command_runs:
  assumes acc: "accepts i s (ctx w)" and check: "i \<in> {CHECK_PAYOUT_ADDRESS, CHECK_ASSET_IN_AND_DISPLAY, CHECK_REFUND_ADDRESS_AND_DISPLAY}"
    and len: "length d \<le> 255" and size: "ctx_sizes (ctx w)" and seed: "\<not> other_seed_payout (ctx w)"
    and honest: "honest_check P e (whole_command i r s d) (ctx w) d app"
    and libs: "libs_keep_globals e" and helps: "application_helps e (cstr app)" and ok: "checkable i (ctx w)" and io: "io_ok e"
  shows "\<exists>w' c conf params. possible (command_sent i r s d) w \<and> step P e (command_sent i r s d) w = Some w' \<and>
    checked_coin P e (whole_command i r s d) app conf params (ctx w) c \<and> ctx w' = c\<lparr>ctx_state := checked_state i\<rparr> \<and>
    ctx_sizes (ctx w') \<and> \<not> other_seed_payout (ctx w') \<and>
    (if i = CHECK_PAYOUT_ADDRESS then sent w' = sent w @ [([], status_word SUCCESS)] else sent w' = sent w \<and> screen w' = Review)"
proof -
  let ?cmd = "whole_command i r s d" and ?w = "delivered i r s d w"
  have dispatch: "dispatch_command P e ?cmd ?w = check_addresses_and_amounts P e ?cmd ?w" using check by auto
  have data: "data_ok ?cmd (ctx ?w)" "unat (cmd_data_size ?cmd) < 65535" "data_bytes ?cmd (ctx ?w) = d"
    using whole_data [OF len] len by simp_all
  obtain w' c conf params where w': "check_addresses_and_amounts P e ?cmd ?w = (Returned 0, w')"
    "checked_coin P e ?cmd app conf params (ctx w) c" "ctx w' = c\<lparr>ctx_state := checked_state i\<rparr>" "ctx_sizes c"
    "\<not> other_seed_payout c"
    "if i = CHECK_PAYOUT_ADDRESS then sent w' = sent w @ [([], status_word SUCCESS)] else sent w' = sent w \<and> screen w' = Review"
    using check_accepted [OF data(1,2) _ _ libs helps _ io, of P] data(3) size honest ok seed check
    by (auto simp del: checked_state.simps)
  have "ctx_state (ctx w') \<noteq> SIGN_FINISHED" using check by (auto simp: w'(3))
  with command_runs [OF acc len dispatch [unfolded w'(1)]] w' show ?thesis
    by (intro exI [of _ w'] exI [of _ c] exI [of _ conf] exI [of _ params])
       (auto simp: ctx_sizes_def simp del: checked_state.simps step.simps possible.simps split: if_splits)
qed

lemma signing_application: "ct_application_name (signing_parameters s c) = cstr (payin_binary_name c)"
  by (simp add: signing_parameters_def case_prod_unfold Let_def)

lemma signing_succeeds:
  assumes signs: "application_signs e (cstr (payin_binary_name (ctx w)))" and io: "instant_io_ok e"
  shows "\<exists>w'. start_signing_transaction e cmd w = (Returned 0, w') \<and> ctx_state (ctx w') = SIGN_FINISHED \<and>
    was_successful (previous_cycle w') \<and> sent w' = sent w @ [([], status_word SUCCESS)]"
proof -
  let ?p = "signing_parameters (cmd_subcommand cmd) (ctx w)"
  let ?w = "w\<lparr>sent := sent w @ [([], status_word SUCCESS)], screen := Screen_off\<rparr>"
  obtain g k where "lib_sign_transaction e ?p (globals_of ?w) = Lib_returned 1 g k"
    using signs signing_application unfolding application_signs_def by metis
  then show ?thesis
    using io by (simp add: start_signing_transaction_def create_payin_transaction_def reply_defs Let_def)
qed

lemma signed_page:
  assumes "ctx_state (ctx w) = SIGN_FINISHED" and "was_successful (previous_cycle w)"
  shows "screen (new_cycle P e w) = Transaction_signed" and "sent (new_cycle P e w) = sent w"
  using assms
  by (simp_all add: new_cycle_def reset_BSS_def first_page_def display_signing_success_def roll_challenge_def Let_def)

lemma signing_command_runs:
  assumes at: "ctx_state (ctx w) = WAITING_SIGNING" "ctx_subcommand (ctx w) = s"
    and signs: "application_signs e (cstr (payin_binary_name (ctx w)))" and io: "instant_io_ok e"
  shows "\<exists>w'. possible (command_sent START_SIGNING_TRANSACTION r s []) w \<and>
    step P e (command_sent START_SIGNING_TRANSACTION r s []) w = Some w' \<and>
    screen w' = Transaction_signed \<and> sent w' = sent w @ [([], status_word SUCCESS)]"
proof -
  let ?w = "delivered START_SIGNING_TRANSACTION r s [] w"
  have acc: "accepts START_SIGNING_TRANSACTION s (ctx w)" using at by (simp add: accepts_def flow_allows_def)
  obtain w' where w': "start_signing_transaction e (whole_command START_SIGNING_TRANSACTION r s []) ?w = (Returned 0, w')"
    "ctx_state (ctx w') = SIGN_FINISHED" "was_successful (previous_cycle w')" "sent w' = sent w @ [([], status_word SUCCESS)]"
    using signing_succeeds [of e ?w] signs io by auto
  have "dispatch_command P e (whole_command START_SIGNING_TRANSACTION r s []) ?w = (Returned 0, w')" using w'(1) by simp
  from command_runs [OF acc _ this] w' signed_page [OF w'(2,3)] show ?thesis by simp
qed

lemma payout_check_runs:
  assumes at: "ctx_state (ctx w) = SIGNATURE_CHECKED" "ctx_subcommand (ctx w) = s" "ctx_sizes (ctx w)" "\<not> other_seed_payout (ctx w)"
    and swap: "swap_based s" and outside: "io_ok e" "libs_keep_globals e"
    and payout: "length d \<le> 255" "application_helps e (cstr app)" "checkable CHECK_PAYOUT_ADDRESS (ctx w)"
      "honest_check P e (whole_command CHECK_PAYOUT_ADDRESS r s d) (ctx w) d app"
    and paying: "checkable (paying_check s) (ctx w)"
  shows "\<exists>w'. perform P e [command_sent CHECK_PAYOUT_ADDRESS r s d] w = Some w' \<and>
    ctx_state (ctx w') = PAYOUT_ADDRESS_CHECKED \<and> ctx_subcommand (ctx w') = s \<and> tx (ctx w') = tx (ctx w) \<and>
    ledger_public_key (ctx w') = ledger_public_key (ctx w) \<and> checkable (paying_check s) (ctx w') \<and>
    ctx_sizes (ctx w') \<and> \<not> other_seed_payout (ctx w') \<and> sent w' = sent w @ [([], status_word SUCCESS)]"
proof -
  have acc: "accepts CHECK_PAYOUT_ADDRESS s (ctx w)" using at swap by (auto simp: accepts_def flow_allows_def)
  from check_command_runs [OF acc _ payout(1) at(3,4) payout(4) outside(2) payout(2,3) outside(1)] obtain w' c conf params where
    w': "possible (command_sent CHECK_PAYOUT_ADDRESS r s d) w" "step P e (command_sent CHECK_PAYOUT_ADDRESS r s d) w = Some w'"
      "checked_coin P e (whole_command CHECK_PAYOUT_ADDRESS r s d) app conf params (ctx w) c"
      "ctx w' = c\<lparr>ctx_state := PAYOUT_ADDRESS_CHECKED\<rparr>" "ctx_sizes (ctx w')" "\<not> other_seed_payout (ctx w')"
      "sent w' = sent w @ [([], status_word SUCCESS)]"
    by (auto simp del: step.simps possible.simps)
  have "unchecked_part c = unchecked_part (ctx w)" using w'(3) by (simp add: checked_coin_def Let_def)
  note same = unchecked_part_same(2,3,6) [OF this]
  have "checkable (paying_check s) (ctx w')"
    using checkable_cong [of "ctx w" "ctx w'"] paying swap at(2) same by (simp add: w'(4))
  with w' same at(2) show ?thesis by (intro exI [of _ w']) (simp del: step.simps possible.simps)
qed

lemma checks_run:
  assumes at: "ctx_state (ctx w) = SIGNATURE_CHECKED" "ctx_subcommand (ctx w) = s" "ctx_sizes (ctx w)" "\<not> other_seed_payout (ctx w)"
    and outside: "io_ok e" "libs_keep_globals e"
    and payout: "swap_based s \<Longrightarrow> length d1 \<le> 255 \<and> application_helps e (cstr app1) \<and> checkable CHECK_PAYOUT_ADDRESS (ctx w) \<and>
      honest_check P e (whole_command CHECK_PAYOUT_ADDRESS r s d1) (ctx w) d1 app1"
    and paying: "length d2 \<le> 255" "application_helps e (cstr app2)" "checkable (paying_check s) (ctx w)"
      "honest_check P e (whole_command (paying_check s) r s d2) (ctx w) d2 app2"
  shows "\<exists>w'. perform P e (check_commands r s d1 d2) w = Some w' \<and> ctx_state (ctx w') = WAITING_USER_VALIDATION \<and>
    ctx_subcommand (ctx w') = s \<and> tx (ctx w') = tx (ctx w) \<and> cstr (payin_binary_name (ctx w')) = cstr app2 \<and>
    screen w' = Review \<and> sent w' = sent w @ (if swap_based s then [([], status_word SUCCESS)] else [])"
proof -
  obtain w0 where first: "perform P e (if swap_based s then [command_sent CHECK_PAYOUT_ADDRESS r s d1] else []) w = Some w0"
    and w0: "ctx_state (ctx w0) = (if swap_based s then PAYOUT_ADDRESS_CHECKED else SIGNATURE_CHECKED)" "ctx_subcommand (ctx w0) = s"
      "tx (ctx w0) = tx (ctx w)" "ledger_public_key (ctx w0) = ledger_public_key (ctx w)" "checkable (paying_check s) (ctx w0)"
      "ctx_sizes (ctx w0)" "\<not> other_seed_payout (ctx w0)"
      "sent w0 = sent w @ (if swap_based s then [([], status_word SUCCESS)] else [])"
  proof (cases "swap_based s")
    case False
    then show thesis using that [of w] at paying(3) by simp
  next
    case True
    note p = payout [OF True]
    from payout_check_runs [OF at True outside, of d1 app1 P r] p paying(3) show thesis
      using that True by (auto simp del: perform.simps)
  qed
  have acc: "accepts (paying_check s) s (ctx w0)" using w0 by (auto simp: accepts_def flow_allows_def paying_check_def)
  have honest: "honest_check P e (whole_command (paying_check s) r s d2) (ctx w0) d2 app2"
    using paying(4) honest_check_cong [OF w0(4,3)] by simp
  have check: "paying_check s \<in> {CHECK_PAYOUT_ADDRESS, CHECK_ASSET_IN_AND_DISPLAY, CHECK_REFUND_ADDRESS_AND_DISPLAY}"
    "paying_check s \<noteq> CHECK_PAYOUT_ADDRESS" "checked_state (paying_check s) = WAITING_USER_VALIDATION"
    by (simp_all add: paying_check_def)
  from check_command_runs [OF acc check(1) paying(1) w0(6,7) honest outside(2) paying(2) w0(5) outside(1)] check obtain w' c conf params where
    w': "possible (command_sent (paying_check s) r s d2) w0" "step P e (command_sent (paying_check s) r s d2) w0 = Some w'"
      "checked_coin P e (whole_command (paying_check s) r s d2) app2 conf params (ctx w0) c"
      "ctx w' = c\<lparr>ctx_state := WAITING_USER_VALIDATION\<rparr>" "sent w' = sent w0" "screen w' = Review"
    by (auto simp del: step.simps possible.simps checked_state.simps)
  have "unchecked_part c = unchecked_part (ctx w0)" "cstr (payin_binary_name c) = cstr app2"
    using w'(3) check(2) by (simp_all add: checked_coin_def Let_def)
  with unchecked_part_same(2,3) [of c "ctx w0"] w' w0(2,3,8) first show ?thesis
    by (intro exI [of _ w']) (simp add: check_commands_def perform_append del: step.simps possible.simps)
qed

text \<open>
  C10: What is approved is signed. From a checked signature, when the configurations of the coins are signed
  and name applications that recognise the addresses, print the amounts and keep out of the memory of
  the program, the checks end in the review; and when the user approves it and the wallet starts the
  signature, the application of the coin that is paid signs, and the page says so. Every command is
  answered with success, the one that asked the user after his choice.
\<close>

theorem approved_is_signed:
  assumes at: "ctx_state (ctx w) = SIGNATURE_CHECKED" "ctx_subcommand (ctx w) = s" "ctx_sizes (ctx w)" "\<not> other_seed_payout (ctx w)"
    and outside: "io_ok e" "instant_io_ok e" "libs_keep_globals e"
    and payout: "swap_based s \<Longrightarrow> length d1 \<le> 255 \<and> application_helps e (cstr app1) \<and> checkable CHECK_PAYOUT_ADDRESS (ctx w) \<and>
      honest_check P e (whole_command CHECK_PAYOUT_ADDRESS r s d1) (ctx w) d1 app1"
    and paying: "length d2 \<le> 255" "application_helps e (cstr app2)" "checkable (paying_check s) (ctx w)"
      "honest_check P e (whole_command (paying_check s) r s d2) (ctx w) d2 app2"
    and signs: "application_signs e (cstr app2)"
  shows "\<exists>w1 w2. perform P e (check_commands r s d1 d2) w = Some w1 \<and> screen w1 = Review \<and> tx (ctx w1) = tx (ctx w) \<and>
    perform P e [Review_choice True, command_sent START_SIGNING_TRANSACTION r s []] w1 = Some w2 \<and>
    screen w2 = Transaction_signed \<and>
    sent w2 = sent w @ replicate (if swap_based s then 3 else 2) ([], status_word SUCCESS)"
proof -
  from checks_run [OF at outside(1,3) payout paying] obtain w1 where
    w1: "perform P e (check_commands r s d1 d2) w = Some w1" "ctx_subcommand (ctx w1) = s" "tx (ctx w1) = tx (ctx w)"
      "cstr (payin_binary_name (ctx w1)) = cstr app2" "screen w1 = Review"
      "sent w1 = sent w @ (if swap_based s then [([], status_word SUCCESS)] else [])" by blast
  let ?w = "review_choice P e True w1"
  have w: "ctx_state (ctx ?w) = WAITING_SIGNING" "ctx_subcommand (ctx ?w) = s" "cstr (payin_binary_name (ctx ?w)) = cstr app2"
    "sent ?w = sent w1 @ [([], status_word SUCCESS)]"
    using w1 by (simp_all add: review_choice_def reply_defs Let_def)
  from signing_command_runs [OF w(1,2) _ outside(2), of r P] signs w(3) obtain w2 where
    w2: "possible (command_sent START_SIGNING_TRANSACTION r s []) ?w" "step P e (command_sent START_SIGNING_TRANSACTION r s []) ?w = Some w2"
      "screen w2 = Transaction_signed" "sent w2 = sent ?w @ [([], status_word SUCCESS)]" by auto
  have "step P e (Review_choice True) w1 = Some ?w" "possible (Review_choice True) w1" using w1(5) by simp_all
  with w1 w2 w(4) show ?thesis
    by (intro exI [of _ w1] exI [of _ w2]) (simp add: numeral_eq_Suc del: step.simps possible.simps)
qed

end
