(* ===== verification/Sample_Session.thy ===== *)
theory Sample_Session
  imports One_Signature Replies Honest_Partner
begin

text \<open>
  A whole session, run in the model: a partner funds an account, the user approves, and the
  application of the coin signs. It shows that the theorems about the reachable worlds speak about
  worlds that are reached, up to the last state of the protocol.
\<close>

lemma plain_libs: "libs_keep_globals plain_outside" "libs_keep_sizes plain_outside"
  by (simp_all add: libs_keep_globals_def libs_keep_sizes_def plain_outside_def)

section \<open>The session\<close>

definition run_command :: "command_e \<Rightarrow> u8 list \<Rightarrow> event" where
  "run_command i d = command_sent i FIXED FUND_NG d"

lemmas run_command_defs = run_command_def command_sent_def whole_apdu_def

definition run_credentials :: "u8 list" where
  "run_credentials = partner_credentials FUND_NG (ascii ''Acme'') CX_CURVE_256R1 (replicate 65 4)"

definition run_fields :: "(nat \<times> pb_value) list" where
  "run_fields = [(1, V_STRING (ascii ''bob'')), (2, V_STRING (ascii ''card'')), (3, V_STRING (ascii ''btc'')),
     (4, V_BYTES [0, 5]), (5, V_STRING (ascii ''bc1q'')), (6, V_BYTES (map of_nat [0..<32]))]"

definition run_transaction :: "u8 list" where
  "run_transaction = transaction_command FUND_NG False (wire_payload False run_fields) [7]"


definition partner_events :: "event list" where
  "partner_events = [run_command START_NEW_TRANSACTION_COMMAND [], run_command SET_PARTNER_KEY_COMMAND run_credentials,
     run_command CHECK_PARTNER_COMMAND (replicate 70 1)]"

definition run_session :: world where
  "run_session = (world_in PROVIDER_CHECKED FUND_NG)
     \<lparr>ctx := zero_context
        \<lparr>device_transaction_id := map of_nat [0..<32], partner_name := ascii ''To Acme'' @ replicate 12 0,
         partner_public_key := replicate 65 4, ctx_state := PROVIDER_CHECKED, ctx_subcommand := FUND_NG,
         sha256_digest_no_prefix := take 32 run_credentials, ledger_public_key := LedgerPubKey plain_platform\<rparr>,
      received_apdu := \<lparr>expecting_more = False, rcv_instruction = 5, rcv_rate = 0, rcv_subcommand = 5, rcv_data_length = 70\<rparr>,
      challenge := 7, sent := [(map of_nat [0..<32], 0x9000), ([], 0x9000), ([], 0x9000)]\<rparr>"

lemma partner_run: "perform plain_platform plain_outside partner_events (boot plain_platform plain_outside) = Some run_session"
  by code_simp


text \<open>The message the transaction stores, with the ticker normalized and the amount trimmed.\<close>

definition run_message :: mem where
  "run_message = ascii ''bob'' @ replicate 47 0 @ ascii ''card'' @ replicate 46 0 @ ascii ''BTC'' @ replicate 7 0 @
     [1, 5, 5] @ replicate 14 0 @ ascii ''bc1q'' @ replicate 147 0 @ 32 # map of_nat [0..<32] @ replicate 337 0"

definition run_stored :: mem where
  "run_stored = stored_message FUND_NG run_fields (replicate 648 0)"

lemma run_message_normalized: "normalized FUND_NG run_stored = run_message"
  by code_simp

lemma run_message_checked:
  "check_decoded plain_platform FUND_NG ((ctx run_session)\<lparr>tx := run_stored\<rparr>) = None"
  by code_simp

definition run_data :: command_t where
  "run_data = \<lparr>cmd_ins = PROCESS_TRANSACTION_RESPONSE_COMMAND, cmd_rate = FIXED, cmd_subcommand = FUND_NG,
     cmd_data = In_apdu_buffer ([CLA, ins_value PROCESS_TRANSACTION_RESPONSE_COMMAND, rate_value FIXED,
       subcommand_value FUND_NG, 65] @ run_transaction), cmd_data_size = 65\<rparr>"

definition run_announced :: world where
  "run_announced = run_session\<lparr>received_apdu := \<lparr>expecting_more = False, rcv_instruction = 6, rcv_rate = 0,
     rcv_subcommand = 5, rcv_data_length = 65\<rparr>\<rparr>"

definition run_received :: world where
  "run_received = run_announced\<lparr>ctx := (ctx run_session)
       \<lparr>sha256_digest_prefixed := take 32 (ascii ''.'' @ wire_payload False run_fields),
        sha256_digest_no_prefix := take 32 (wire_payload False run_fields), tx := run_message,
        transaction_fee_length := 1, transaction_fee := 7 # replicate 15 0, ctx_state := TRANSACTION_RECEIVED\<rparr>,
     sent := sent run_session @ [([], 0x9000)]\<rparr>"

lemma run_transaction_format:
  "length (wire_payload False run_fields) = 60" "length (enc_message run_fields) = 60" "length run_transaction = 65"
  by code_simp+

lemma run_transaction_event:
  "run_command PROCESS_TRANSACTION_RESPONSE_COMMAND run_transaction =
     Received_apdu ([CLA, ins_value PROCESS_TRANSACTION_RESPONSE_COMMAND, rate_value FIXED,
       subcommand_value FUND_NG, 65] @ run_transaction) 70"
  by (simp add: run_command_defs run_transaction_format)

lemma run_transaction_accepted:
  "check_apdu_validity ([CLA, ins_value PROCESS_TRANSACTION_RESPONSE_COMMAND, rate_value FIXED,
       subcommand_value FUND_NG, 65] @ run_transaction) 70 run_session = (Inr run_data, run_announced)"
  by code_simp

lemma run_transaction_fits:
  "fits_message (message_table FUND_NG) run_fields"
  by (simp add: run_fields_def message_table_def table_defs singular_def ascii_def)

lemma run_context: "ctx run_announced = ctx run_session" "ctx_sizes (ctx run_session)" "tx (ctx run_session) = replicate 648 0"
  by code_simp+

lemma run_transaction_processed:
  "process_transaction plain_platform plain_outside run_data run_announced = (0, run_received)"
proof -
  let ?es = run_fields and ?cmd = run_data and ?b = "transaction_command FUND_NG False (wire_payload False run_fields) [7]"
  have cmd: "cmd_subcommand ?cmd = FUND_NG" by (simp add: run_data_def)
  have d: "data_ok ?cmd (ctx run_announced)" "data_bytes ?cmd (ctx run_announced) = ?b"
    using run_transaction_format(3)
    by (simp_all add: data_ok_def data_bytes_def data_pointer_def run_data_def OFFSET_CDATA_def mread_def
        run_transaction_def)
  have ok: "transaction_command_ok FUND_NG False (wire_payload False ?es) [7]" "length (enc_message ?es) \<le> 512"
    "?es \<noteq> []" "message_depth FUND_NG < stack_frames plain_outside" "io_ok plain_outside"
    using run_transaction_format by (simp_all add: transaction_command_ok_def run_fields_def plain_run)
  have h: "cx_sha256 plain_platform (ascii ''.'' @ wire_payload False ?es) =
      Some (take 32 (ascii ''.'' @ wire_payload False ?es))"
    "cx_sha256 plain_platform (wire_payload False ?es) = Some (take 32 (wire_payload False ?es))"
    using run_transaction_format by (simp_all add: plain_run)
  have c: "check_decoded plain_platform FUND_NG
      ((ctx run_announced)\<lparr>tx := stored_message FUND_NG ?es (tx (ctx run_announced))\<rparr>) = None"
    using run_message_checked by (simp add: run_context run_stored_def)
  show ?thesis
    using process_transaction_stored [of ?cmd run_announced False ?es "[7]" plain_outside plain_platform, unfolded cmd,
        OF d(1) _ d(2) ok(1) run_transaction_fits ok(2-5) h c] run_message_normalized
    by (simp add: run_context run_received_def run_announced_def run_stored_def)
qed

lemma run_transaction_step:
  "step plain_platform plain_outside (run_command PROCESS_TRANSACTION_RESPONSE_COMMAND run_transaction) run_session =
     Some run_received"
proof -
  have run: "cmd_ins run_data = PROCESS_TRANSACTION_RESPONSE_COMMAND" "ctx_state (ctx run_received) \<noteq> SIGN_FINISHED"
    by (simp_all add: run_data_def run_received_def)
  show ?thesis
    unfolding run_transaction_event step.simps app_main_turn_def run_transaction_accepted prod.case sum.case
    by (simp add: run run_transaction_processed returning_def)
qed

definition check_events :: "event list" where
  "check_events = [run_command CHECK_TRANSACTION_SIGNATURE_COMMAND ([1, 1] @ replicate 64 0x81),
     run_command CHECK_ASSET_IN_AND_DISPLAY
       (enc_sized1 (enc_sized1 (ascii ''BTC'') @ enc_sized1 (ascii ''Bitcoin'') @ enc_sized1 []) @
        (0x30 # enc_sized1 (replicate 68 1)) @ enc_sized1 [9])]"

definition run_reviewed :: world where
  "run_reviewed = the (perform plain_platform plain_outside check_events run_received)"

definition run_approved :: world where
  "run_approved = review_choice plain_platform plain_outside True run_reviewed"

definition run_sign :: mem where
  "run_sign = [CLA, ins_value START_SIGNING_TRANSACTION, rate_value FIXED, subcommand_value FUND_NG, 0]"

lemma review_run:
  "(case perform plain_platform plain_outside check_events run_received of None \<Rightarrow> False
    | Some w0 \<Rightarrow> screen w0 = Review \<and>
       (case review_choice plain_platform plain_outside True w0 of w \<Rightarrow>
          ctx_state (ctx w) = WAITING_SIGNING \<and> protocol_view w = (WAITING_SIGNING, FUND_NG) \<and>
          length (sent w) = 6 \<and> screen w = Spinner \<and>
          (case check_apdu_validity run_sign 5 w of (Inl err, w1) \<Rightarrow> False
           | (Inr cmd, w1) \<Rightarrow> cmd_ins cmd = START_SIGNING_TRANSACTION \<and>
               fst (dispatch_command plain_platform plain_outside cmd w1) = Returned 0)))"
  by code_simp

lemma run_reviewed_state:
  "perform plain_platform plain_outside check_events run_received = Some run_reviewed" "screen run_reviewed = Review"
  using review_run unfolding run_reviewed_def by (simp_all del: dispatch_command.simps split: option.splits)

lemmas approval_run = review_run [unfolded run_reviewed_state(1) option.case, folded run_approved_def]

lemma run_approved_state:
  "ctx_state (ctx run_approved) = WAITING_SIGNING" "protocol_view run_approved = (WAITING_SIGNING, FUND_NG)"
  "length (sent run_approved) = 6" "screen run_approved = Spinner"
  using approval_run by (simp_all del: dispatch_command.simps)

lemma run_signs:
  obtains cmd w1 w2 where "check_apdu_validity run_sign 5 run_approved = (Inr cmd, w1)"
    "cmd_ins cmd = START_SIGNING_TRANSACTION"
    "dispatch_command plain_platform plain_outside cmd w1 = (Returned 0, w2)"
proof -
  obtain r w1 where r: "check_apdu_validity run_sign 5 run_approved = (r, w1)" by fastforce
  with approval_run obtain cmd where "r = Inr cmd" "cmd_ins cmd = START_SIGNING_TRANSACTION"
    "fst (dispatch_command plain_platform plain_outside cmd w1) = Returned 0"
    by (simp del: dispatch_command.simps split: sum.splits)
  with r that show ?thesis by (metis prod.collapse)
qed

definition run_events :: "event list" where
  "run_events = partner_events @ run_command PROCESS_TRANSACTION_RESPONSE_COMMAND run_transaction # check_events"

lemma run_possible: "possible (run_command i d) w"
  by (simp add: run_command_defs)

lemma run_performed:
  "perform plain_platform plain_outside run_events (boot plain_platform plain_outside) = Some run_reviewed"
  by (simp add: run_events_def perform_append partner_run run_transaction_step run_reviewed_state(1) run_possible)

lemma quiet_undisturbed:
  "(\<lambda>(e, ev, w). (e, ev)) ` set h \<subseteq> Pair plain_outside ` S \<Longrightarrow> Reception_failed \<notin> S \<Longrightarrow> (\<forall>x. Raised x \<notin> S) \<Longrightarrow>
   undisturbed P h"
proof (induction h)
  case (Cons x h)
  obtain e ev w where x: "x = (e, ev, w)" by (cases x)
  with Cons.prems have "e = plain_outside" "ev \<in> S" by auto
  with Cons x show ?case by (cases ev) (auto simp: signs_with_missing_def plain_outside_def)
qed simp

lemma run_asked:
  obtains h where "reaches plain_platform h run_reviewed" "undisturbed plain_platform h" "length h = 6"
proof -
  from perform_reaches [OF booted run_performed plain_libs] obtain h where
    h: "reaches plain_platform h run_reviewed"
      "map (\<lambda>(e, ev, w). (e, ev)) h = map (Pair plain_outside) (rev run_events)" by auto
  have events: "set run_events = {run_command START_NEW_TRANSACTION_COMMAND [], run_command SET_PARTNER_KEY_COMMAND run_credentials,
      run_command CHECK_PARTNER_COMMAND (replicate 70 1), run_command PROCESS_TRANSACTION_RESPONSE_COMMAND run_transaction} \<union>
      set check_events"
    by (auto simp: run_events_def partner_events_def)
  have "length h = 6"
    using arg_cong [OF h(2), of length] by (simp add: run_events_def partner_events_def check_events_def)
  moreover have "undisturbed plain_platform h"
    by (rule quiet_undisturbed [of h "set run_events"])
      (use arg_cong [OF h(2), of set] in \<open>auto simp: events check_events_def run_command_defs\<close>)
  ultimately show ?thesis using h(1) that by blast
qed

lemma run_reached:
  obtains h where "reaches plain_platform h run_approved" "undisturbed plain_platform h" "length h = 7"
proof -
  obtain h where h: "reaches plain_platform h run_reviewed" "undisturbed plain_platform h" "length h = 6"
    by (rule run_asked)
  have "possible (Review_choice True) run_reviewed" by (simp add: run_reviewed_state(2))
  moreover have "step plain_platform plain_outside (Review_choice True) run_reviewed = Some run_approved"
    by (simp add: run_approved_def)
  ultimately have "reaches plain_platform ((plain_outside, Review_choice True, run_reviewed) # h) run_approved"
    using stepped [OF h(1) _ plain_libs] by blast
  then show ?thesis using that h by simp
qed

section \<open>The theorems at work\<close>

lemma program_refines_automaton_witness:
  "\<exists>h. reaches plain_platform h run_approved \<and> length h = 7 \<and> protocol_run (labels h) (WAITING_SIGNING, FUND_NG)"
proof -
  obtain h where h: "reaches plain_platform h run_approved" "length h = 7" by (rule run_reached)
  from program_refines_automaton [OF h(1)] h show ?thesis unfolding run_approved_state(2) by blast
qed

lemma command_answered_witness:
  "\<exists>h w'. reaches plain_platform h run_approved \<and>
     step plain_platform plain_outside (Received_apdu run_sign 5) run_approved = Some w' \<and>
     ((\<exists>r. sent w' = sent run_approved @ [r]) \<or> sent w' = sent run_approved \<and> owes_answer w')"
proof -
  obtain h where h: "reaches plain_platform h run_approved" by (rule run_reached)
  have n: "5 \<le> length run_sign" by (simp add: run_sign_def)
  have "\<not> signs_with_missing plain_platform plain_outside run_sign 5 run_approved"
    by (simp add: signs_with_missing_def plain_outside_def)
  with command_answered [OF h n plain_libs] h show ?thesis by blast
qed

lemma one_response_each_witness:
  "\<exists>h. reaches plain_platform h run_approved \<and> undisturbed plain_platform h \<and> received_commands h = 6"
proof -
  obtain h where h: "reaches plain_platform h run_approved" "undisturbed plain_platform h" by (rule run_reached)
  from one_response_each [OF this] have "received_commands h = 6"
    by (simp add: owes_answer_def run_approved_state(3,4))
  with h show ?thesis by blast
qed

lemma session_evidence_witness:
  "\<exists>h. reaches plain_platform h run_approved \<and> ctx_state (ctx run_approved) = WAITING_SIGNING \<and>
     evidence plain_platform (heard h) (ctx run_approved)"
proof -
  obtain h where h: "reaches plain_platform h run_approved" by (rule run_reached)
  from session_evidence [OF this] h show ?thesis using run_approved_state(1) by blast
qed

lemma signed_as_approved_witness:
  "\<exists>h cmd w1 w2 p. reaches plain_platform h run_approved \<and>
     check_apdu_validity run_sign 5 run_approved = (Inr cmd, w1) \<and>
     dispatch_command plain_platform plain_outside cmd w1 = (Returned 0, w2) \<and>
     shown_as plain_platform (ctx run_approved) p \<and> approved_by_user plain_platform h (ctx run_approved)"
proof -
  obtain h where h: "reaches plain_platform h run_approved" by (rule run_reached)
  obtain cmd w1 w2 where c: "check_apdu_validity run_sign 5 run_approved = (Inr cmd, w1)"
    "cmd_ins cmd = START_SIGNING_TRANSACTION"
    "dispatch_command plain_platform plain_outside cmd w1 = (Returned 0, w2)" by (rule run_signs)
  have n: "5 \<le> length run_sign" by (simp add: run_sign_def)
  from signed_as_approved [OF h c(1) n c(2,3)] h c show ?thesis by blast
qed

lemma one_approval_one_signature_witness:
  "\<exists>h. reaches plain_platform h run_approved \<and> signatures plain_platform h < approvals h \<and>
     approvals h \<le> new_transactions h"
proof -
  obtain h where h: "reaches plain_platform h run_approved" by (rule run_reached)
  from one_approval_one_signature [OF this] h show ?thesis by (auto simp: run_approved_state(1))
qed

lemma refused_while_asked_witness:
  "\<exists>err. err \<noteq> SUCCESS \<and> step plain_platform plain_outside (Received_apdu run_sign 5) run_reviewed =
     Some (run_reviewed\<lparr>sent := sent run_reviewed @ [([], status_word err)]\<rparr>)"
proof -
  obtain h where h: "reaches plain_platform h run_reviewed" by (rule run_asked)
  have "run_sign ! OFFSET_INS \<noteq> ins_value GET_VERSION_COMMAND" by (simp add: run_sign_def offset_defs)
  with refused_while_asked [OF h] run_reviewed_state(2) show ?thesis by fastforce
qed

lemma signed_session_erased_witness:
  "\<exists>w' last. step plain_platform plain_outside (Received_apdu run_sign 5) run_approved = Some w' \<and>
     globals_of w' = (globals_of (boot plain_platform plain_outside))\<lparr>previous_cycle := last\<rparr>"
proof -
  obtain cmd w1 w2 where c: "check_apdu_validity run_sign 5 run_approved = (Inr cmd, w1)"
    "cmd_ins cmd = START_SIGNING_TRANSACTION"
    "dispatch_command plain_platform plain_outside cmd w1 = (Returned 0, w2)" by (rule run_signs)
  then have s: "signs plain_platform plain_outside (Received_apdu run_sign 5) run_approved"
    by (simp del: dispatch_command.simps)
  from s obtain w' where "step plain_platform plain_outside (Received_apdu run_sign 5) run_approved = Some w'"
    by (rule signs_run)
  with signed_session_erased [OF s this] show ?thesis by blast
qed

lemma review_lost_witness:
  "\<exists>w'. step plain_platform plain_outside (Raised EXCEPTION_IO_RESET) run_reviewed = Some w' \<and> screen w' \<noteq> Review"
proof -
  obtain h where "reaches plain_platform h run_reviewed" by (rule run_asked)
  from reaches_resting [OF this] have "ctx_state (ctx run_reviewed) = WAITING_USER_VALIDATION"
    by (simp add: resting_def run_reviewed_state(2))
  from review_lost [OF this] show ?thesis by blast
qed

end
