(* ===== verification/Sample_Honest.thy ===== *)
theory Sample_Honest
  imports Sample_Session Honest_Session
begin

text \<open>
  The theorems on honest sessions, applied: to the partner of \<open>Sample_Session\<close> from the start of the
  program, and to the check, the approval and the signature that follow.
\<close>

lemma run_identifier: "new_transaction_id plain_platform plain_outside FUND_NG = map of_nat [0..<32]"
  by (simp add: new_transaction_id_def plain_env_defs sizeof_unified_id_def)

lemma honest_partner_accepted_witness:
  "\<exists>w'. perform plain_platform plain_outside
      (partner_commands FIXED FUND_NG run_credentials (replicate 70 1) @
       transaction_commands FIXED FUND_NG run_transaction ([1, 1] @ replicate 64 0x81))
      (boot plain_platform plain_outside) = Some w' \<and>
     ctx_state (ctx w') = SIGNATURE_CHECKED \<and> displayed_partner (ctx w') = ascii ''To Acme'' \<and> tx (ctx w') = run_message"
proof -
  have start: "ctx_state (ctx (boot plain_platform plain_outside)) \<noteq> WAITING_USER_VALIDATION" by code_simp
  have outside: "io_ok plain_outside" "message_depth FUND_NG < stack_frames plain_outside" by (simp_all add: plain_run)
  have signer: "cx_ecfp_init_public_key plain_platform CX_CURVE_SECP256K1 (LedgerPubKey plain_platform) =
      Some (LedgerPubKey plain_platform)"
    "cx_ecfp_init_public_key plain_platform CX_CURVE_256R1 (replicate 65 4) = Some (replicate 65 4)"
    "cx_sha256 plain_platform xs = Some (take 32 (xs @ replicate 32 0))" "cx_ecdsa_verify plain_platform k d c" for xs k d c
    by (simp_all add: plain_platform_def)
  have partner: "partner_credentials_ok FUND_NG (ascii ''Acme'') CX_CURVE_256R1 (replicate 65 4)"
    by (simp add: partner_credentials_ok_def ascii_def)
  have transaction: "transaction_command_ok FUND_NG False (wire_payload False run_fields) [7]"
    "length (transaction_command FUND_NG False (wire_payload False run_fields) [7]) \<le> 255"
    "length (enc_message run_fields) \<le> 512" "run_fields \<noteq> []"
    using run_transaction_format by (simp_all add: transaction_command_ok_def run_transaction_def run_fields_def)
  have session: "check_decoded plain_platform FUND_NG ((fresh_context (LedgerPubKey plain_platform)
      (new_transaction_id plain_platform plain_outside FUND_NG) FUND_NG)
      \<lparr>tx := stored_message FUND_NG run_fields (replicate sizeof_tx 0)\<rparr>) = None"
    using run_message_checked check_decoded_cong [of "(fresh_context (LedgerPubKey plain_platform)
      (new_transaction_id plain_platform plain_outside FUND_NG) FUND_NG)\<lparr>tx := run_stored\<rparr>"
      "(ctx run_session)\<lparr>tx := run_stored\<rparr>" plain_platform FUND_NG]
    by (simp add: run_identifier fresh_context_def run_session_def run_stored_def sizeof_unified_id_def sizeof_tx_def)
  have signature: "selectors_ok FUND_NG True True" "signature_size_ok True (replicate 64 (0x81 :: u8))"
    "selector_bytes FUND_NG True True = [1, 1]"
    by code_simp+
  let ?w = "boot plain_platform plain_outside"
  from honest_partner_accepted [OF start outside signer(1) partner signer(2) signer(3) signer(4) _ _ transaction(1,2)
      run_transaction_fits transaction(3,4) signer(3) signer(3) session signature(1,2) signer(4),
      of "replicate 70 1" FIXED, folded run_credentials_def run_transaction_def, unfolded signature(3)]
  obtain w' where "perform plain_platform plain_outside (partner_commands FIXED FUND_NG run_credentials (replicate 70 1) @
       transaction_commands FIXED FUND_NG run_transaction ([1, 1] @ replicate 64 0x81)) ?w = Some w'"
    "ctx_state (ctx w') = SIGNATURE_CHECKED" "displayed_partner (ctx w') = partner_label FUND_NG (ascii ''Acme'')"
    "tx (ctx w') = normalized FUND_NG (stored_message FUND_NG run_fields (replicate sizeof_tx 0))" by auto
  then show ?thesis
    using run_message_normalized
    by (intro exI [of _ w']) (simp add: run_stored_def partner_label_def sizeof_tx_def PARTNER_NAME_PREFIX_FOR_FUND_def ascii_def)
qed

text \<open>The data of the check of the coin, and the world in which it comes.\<close>

definition run_coin :: "u8 list" where
  "run_coin = enc_sized1 (enc_sized1 (ascii ''BTC'') @ enc_sized1 (ascii ''Bitcoin'') @ enc_sized1 []) @
     (0x30 # enc_sized1 (replicate 68 1)) @ enc_sized1 [9]"

definition run_checkable :: world where
  "run_checkable = run_received\<lparr>ctx := (ctx run_received)\<lparr>ctx_state := SIGNATURE_CHECKED\<rparr>\<rparr>"

lemma run_coin_ticker: "member_string fund_in_currency run_message = ascii ''BTC''" "ledger_ticker (cstr (ascii ''BTC'')) = ascii ''BTC''"
  "ledger_app_name (ascii ''Bitcoin'') = ascii ''Bitcoin''" "length run_coin = 86"
  by code_simp+

lemma plain_application_helps: "application_helps plain_outside app" "application_signs plain_outside app"
  by (simp_all add: application_helps_def application_signs_def plain_outside_def OS_LIB_CALL_CANARY_VALUE_def ascii_def
      MAX_PRINTABLE_AMOUNT_SIZE_def)

lemma run_checkable_state:
  "ctx_state (ctx run_checkable) = SIGNATURE_CHECKED" "ctx_subcommand (ctx run_checkable) = FUND_NG"
  "\<not> other_seed_payout (ctx run_checkable)" "tx (ctx run_checkable) = run_message" "ctx_sizes (ctx run_checkable)"
proof -
  show "ctx_state (ctx run_checkable) = SIGNATURE_CHECKED" "ctx_subcommand (ctx run_checkable) = FUND_NG"
    "\<not> other_seed_payout (ctx run_checkable)" "tx (ctx run_checkable) = run_message"
    by (simp_all add: run_checkable_def run_received_def run_session_def zero_context_def)
  have "length run_message = sizeof_tx" by (simp add: run_message_def ascii_def sizeof_tx_def)
  then show "ctx_sizes (ctx run_checkable)"
    using run_context(2) by (simp add: run_checkable_def run_received_def ctx_sizes_def sizeof_transaction_fee_def)
qed

lemma run_coin_honest:
  "honest_check plain_platform plain_outside (whole_command (paying_check FUND_NG) FIXED FUND_NG run_coin) (ctx run_checkable)
     run_coin (ascii ''Bitcoin'')"
proof -
  let ?c = "ctx run_checkable" and ?cmd = "whole_command (paying_check FUND_NG) FIXED FUND_NG run_coin"
  have sig: "check_coin_configuration_signature plain_platform plain_outside ?c config der" for config der
    by (simp add: check_coin_configuration_signature_def plain_platform_def)
  have tick: "ledger_ticker (cstr (ascii ''BTC'')) = member_string (asked_currency ?cmd) (tx ?c)"
    by (simp add: asked_currency_def run_checkable_state(4) run_coin_ticker(1,2))
  have len: "65 \<le> length (replicate 68 (1 :: u8))" "length (replicate 68 (1 :: u8)) \<le> 71" "length [9 :: u8] = 1"
    "length (ascii ''BTC'') = 3" "length (ascii ''Bitcoin'') = 7"
    by (simp_all add: ascii_def)
  show ?thesis
    unfolding honest_check_def Let_def
    by (rule exI [of _ "0x30"], rule exI [of _ "replicate 68 1"], rule exI [of _ "[9]"], rule exI [of _ "ascii ''BTC''"],
        rule exI [of _ "ascii ''Bitcoin''"], rule exI [of _ "[]"])
       (intro conjI, rule run_coin_def, use len sig tick run_coin_ticker(3) in simp_all)
qed

lemma approved_is_signed_witness:
  "\<exists>w1 w2. perform plain_platform plain_outside [command_sent CHECK_ASSET_IN_AND_DISPLAY FIXED FUND_NG run_coin] run_checkable = Some w1 \<and>
     screen w1 = Review \<and>
     perform plain_platform plain_outside [Review_choice True, command_sent START_SIGNING_TRANSACTION FIXED FUND_NG []] w1 = Some w2 \<and>
     screen w2 = Transaction_signed"
proof -
  have outside: "io_ok plain_outside" "instant_io_ok plain_outside" by (simp_all add: plain_outside_def)
  have data: "length run_coin \<le> 255" "checkable (paying_check FUND_NG) (ctx run_checkable)"
    by (simp_all add: run_coin_ticker(4) checkable_def run_checkable_state(2))
  have events: "check_commands FIXED FUND_NG [] run_coin = [command_sent CHECK_ASSET_IN_AND_DISPLAY FIXED FUND_NG run_coin]"
    by (simp add: check_commands_def paying_check_def)
  have "\<not> swap_based FUND_NG" by simp
  then show ?thesis
    using approved_is_signed [OF run_checkable_state(1,2,5,3) outside plain_libs(1) _ data(1) plain_application_helps(1) data(2)
        run_coin_honest plain_application_helps(2), of "[]", unfolded events] by blast
qed

end
