(* ===== verification/Spec2Isabelle.thy ===== *)
theory Spec2Isabelle
  imports Commands Buf Base64 Der Coin_Config Tickers Printable_Amount Pb_Message Pb_Roundtrip Pb_Wellformed Pb_Delimited
    Pb_Macros Pb_Callback Apdu_Parser Session_Start Partner Process_Transaction Tx_Signature Lib_Calls Trusted_Name Ui_Review
    Addresses_Amounts Signing Main_Loop Protocol Automaton Replies Session_Evidence Session_Safety One_Signature Corruption
    Honest_Partner Honest_Session Sample_Session Sample_Honest
begin

text \<open>
  A verification development for the Exchange application of the Ledger devices (\<^verbatim>\<open>src/src\<close>), written
  in C. The application stands between a wallet, an exchange partner and the applications of the coins
  on the device. The wallet sends commands; the partner's credentials come signed by Ledger and the
  transaction signed by the partner; the applications of the coins, called as libraries, print
  amounts, recognise the addresses of the device and in the end sign; the user reads the review and
  accepts or refuses it. What the application promises is that only what the user has approved is
  signed, and that what he has read came from a certified partner for this session.

  The parts, and the theories that model them

  \<^item> \<open>Prelude\<close>: machine integers, objects of memory as byte lists, pointers as an object and an offset,
    C strings, big- and little-endian numbers. \<open>Commands\<close>: the enumerations and records of
    \<^verbatim>\<open>commands.h\<close>, \<^verbatim>\<open>states.h\<close>, \<^verbatim>\<open>swap_errors.h\<close>, \<^verbatim>\<open>apdu_offsets.h\<close>, the constants of \<^verbatim>\<open>globals.h\<close>.
  \<^item> \<open>Buf\<close>, \<open>Base64\<close>, \<open>Der\<close>, \<open>Tickers\<close>, \<open>Printable_Amount\<close>, \<open>Coin_Config\<close>: the routines without state of
    \<^verbatim>\<open>buf.c\<close>, \<^verbatim>\<open>base64.c\<close>, \<^verbatim>\<open>der.c\<close>, \<^verbatim>\<open>ticker_normalization.c\<close>, \<^verbatim>\<open>printable_amount.c\<close>,
    \<^verbatim>\<open>parse_coin_config.c\<close> and \<^verbatim>\<open>parse_check_address_message.c\<close>, each with the format or the value it
    computes and a round trip or an equivalence.
  \<^item> \<open>Pb_Stream\<close>, \<open>Pb_Fields\<close>, \<open>Pb_Decode\<close>: the protocol buffer decoder of \<^verbatim>\<open>pb_decode.c\<close>, \<^verbatim>\<open>pb_common.c\<close>
    and \<^verbatim>\<open>pb.h\<close>: input streams, variable-length integers, field descriptors, the iterator, and the
    decoding of every kind of field that a table without callbacks and pointers can have. \<open>Tx_Layout\<close>:
    the tables of \<^verbatim>\<open>proto/protocol.pb.c\<close> and the layout of the union of the three messages; \<open>Pb_Macros\<close>:
    the macros of \<^verbatim>\<open>pb.h\<close> that make these tables from the declarations; with them the iterator finds every
    member where the compiler has put it.
    \<open>Pb_Message\<close>, \<open>Pb_Roundtrip\<close>, \<open>Pb_Wellformed\<close>, \<open>Pb_Delimited\<close>: decoding is memory safe on every input, inverts the
    encoding, and leaves terminated strings and array sizes that fit. \<open>Pb_Callback\<close>: fields decoded by a
    callback, which no table of the program has; with a callback that reads forward, such a field is left
    as if it had been skipped.
  \<^item> \<open>Swap_Context\<close>: \<open>G_swap_ctx\<close> and the other globals of \<^verbatim>\<open>globals.h\<close> as the record \<open>globals\<close>, the
    world (globals, responses sent, screen), the platform and the outside, and the locale \<open>handler\<close>:
    what every handler of a command keeps. \<open>Apdu_Parser\<close>: \<^verbatim>\<open>apdu_parser.c\<close>.
  \<^item> One theory per handler: \<open>Session_Start\<close> (\<^verbatim>\<open>init.c\<close>, \<^verbatim>\<open>start_new_transaction.c\<close>,
    \<^verbatim>\<open>get_version_handler.c\<close>, \<^verbatim>\<open>get_challenge_handler.c\<close>), \<open>Partner\<close> (\<^verbatim>\<open>set_partner_key.c\<close>,
    \<^verbatim>\<open>check_partner.c\<close>), \<open>Process_Transaction\<close>, \<open>Tx_Signature\<close> (\<^verbatim>\<open>check_tx_signature.c\<close>), \<open>Lib_Calls\<close>
    (\<^verbatim>\<open>currency_lib_calls.c\<close>), \<open>Trusted_Name\<close>, \<open>Addresses_Amounts\<close>, \<open>Ui_Review\<close>
    (\<^verbatim>\<open>ui/validate_transaction_nbgl.c\<close>, \<^verbatim>\<open>prompt_ui_display.c\<close>), \<open>Signing\<close>
    (\<^verbatim>\<open>start_signing_transaction.c\<close>, \<^verbatim>\<open>ui/sign_result.c\<close>). Each handler is an interpretation of \<open>handler\<close>.
  \<^item> \<open>Main_Loop\<close>: \<^verbatim>\<open>command_dispatcher.c\<close> and \<^verbatim>\<open>main.c\<close>. An event is a command received, a failed
    reception, an exception thrown while the program waits, a choice of the user or the closing of a
    page, or the choice to leave the program; \<open>step\<close> is what the program does until it waits again, and \<open>reaches P h w\<close> says that the world
    \<open>w\<close> is reached from the start by the history \<open>h\<close>.

  The names of functions and members are those of the code. A function that changes globals takes and
  returns the world; one that writes through a pointer returns the object it writes to. A handler
  returns its C result, or the exception that leaves it (\<open>outcome\<close>).

  What is proved of the whole program

  \<^item> \<open>Protocol\<close>: the invariant \<open>resting\<close> of every reachable world, from the contracts of the handlers.
  \<^item> \<open>Automaton\<close>: the program refines the automaton of the protocol, over its states and flows.
  \<^item> \<open>Replies\<close>: every command is answered, exactly once, by one response or through the review; while
    the user is asked every other command is refused and has no effect.
  \<^item> \<open>Session_Evidence\<close>, \<open>Session_Safety\<close>: each state of a session rests on the commands, signatures and
    answers of the applications that it requires; what is handed over to be signed is what was shown and
    approved. \<open>One_Signature\<close>: each signature uses up an approval and each approval a new transaction;
    nothing of a signed session is left. \<open>Corruption\<close>: nothing is accepted from a call that is seen
    to corrupt the memory, but the globals stay as it left them.
  \<^item> \<open>Honest_Partner\<close>, \<open>Honest_Session\<close>: the other side of these theorems. A partner that is certified and
    signs a transaction for this session is not refused, and with applications of the coins that do what
    their protocol asks, the checks end in the review and what the user approves is signed.
  \<^item> \<open>Sample_Session\<close>, \<open>Sample_Honest\<close>: a whole session up to the signature, computed, at which these
    theorems are applied.

  Parameters and hypotheses

  The platform \<open>P\<close> has the build options and the cryptographic functions of the operating system (hash,
  signature verification, key initialisation, check sum) and the parser of trusted names; the outside
  \<open>e\<close> of an event has the random numbers, the transport, the indeterminate bytes of the stack and the
  applications of the coins. They are arguments of the definitions, and nothing is assumed of the
  cryptography: the theorems speak of what was verified. A library call either does not find the
  application or returns a result, the globals it leaves, and the canary. \<open>libs_keep_globals\<close> says that
  the calls for amounts and addresses leave the globals of the caller alone, as their protocol
  demands (\<open>Corruption\<close> is about those that do not), and \<open>libs_keep_sizes\<close> that the signing application,
  which may overwrite the globals, leaves objects of their sizes. Both are premises of the
  steps of \<open>reaches\<close>. \<open>application_helps\<close> and \<open>application_signs\<close>, premises of \<open>Honest_Session\<close> alone, say
  that an application recognises the addresses, prints the amounts and signs. The sending of a response is a parameter that may fail.

  Bounds and termination

  Integers have the widths of the code, so that wrap-around is in the model: 8 and 16 bits for lengths
  and offsets, 32 bits for tags, 64 bits for amounts. The loops over objects are recursions over a list
  or an index that reaches the end of the object; the decoding loop has a measure, the bytes left, and
  nested messages are bounded by the depth of the tables, which is \<open>stack_frames\<close> in the model: three
  are enough for the tables of the program (\<open>message_depth\<close>). The only loop without end is that of the
  program itself, which is the relation \<open>reaches\<close>; the loop that calls a callback for a field ends when
  the callback takes bytes (\<open>callback_loop_ends\<close>).

  Build options: HAVE_NBGL, and none of the PB options of \<^verbatim>\<open>pb.h\<close> that are commented out there; the test options are
  members of the platform, so that the theorems hold with and without them.

  Not modelled

  The texts and icons of the home page (\<^verbatim>\<open>ui/menu_nbgl.c\<close>) and the calls of the graphical library in
  \<^verbatim>\<open>ui/validate_transaction_nbgl.c\<close>; the trace output (\<open>PRINTF\<close>); of nanopb, what the tables of the program
  cannot reach: pointer fields, extensions and anonymous unions (callback fields are modelled, but stand
  beside the decoder), and the traces of the profiler; the headers that only declare functions; the code of the operating system
  and of the applications of the coins.
\<close>

end
